(* ===== verification/Dir_Lock.thy ===== *)
theory Dir_Lock
  imports Main
begin

text \<open>
  The data directory's lock (\<^verbatim>\<open>internal/storage/lock.go\<close>, \<^verbatim>\<open>lock_unix.go\<close>) among several broker
  processes. \<^verbatim>\<open>LockDir\<close> and \<^verbatim>\<open>Release\<close> are each several system calls; other processes run between
  them, so every call is a step of its own. A file is an inode that the path may name or no longer
  name; \<^verbatim>\<open>flock\<close> locks the inode.
\<close>

section \<open>State and steps\<close>

datatype lock_phase = Idle | Opened nat | Holding nat | Unlocked

record lock_sys =
  ls_path :: "nat option"
  ls_fresh :: nat
  ls_owner :: "nat \<Rightarrow> nat option"
  ls_phase :: "nat \<Rightarrow> lock_phase"

definition lock_init :: lock_sys where
  "lock_init = \<lparr>ls_path = None, ls_fresh = 0, ls_owner = (\<lambda>_. None), ls_phase = (\<lambda>_. Idle)\<rparr>"

text \<open>\<^verbatim>\<open>os.OpenFile(path, O_CREATE|O_RDWR)\<close>: the inode the path names, or a new one.\<close>

definition open_lock_file :: "nat \<Rightarrow> lock_sys \<Rightarrow> lock_sys" where
  "open_lock_file p s =
     (case ls_path s of
        Some i \<Rightarrow> s\<lparr>ls_phase := (ls_phase s)(p := Opened i)\<rparr>
      | None \<Rightarrow> s\<lparr>ls_path := Some (ls_fresh s), ls_fresh := Suc (ls_fresh s),
                  ls_phase := (ls_phase s)(p := Opened (ls_fresh s))\<rparr>)"

text \<open>\<^verbatim>\<open>flock(fd, LOCK_EX|LOCK_NB)\<close>; when it fails the file is closed and \<^verbatim>\<open>ErrDirLocked\<close> returned.\<close>

definition lockFile :: "nat \<Rightarrow> nat \<Rightarrow> lock_sys \<Rightarrow> lock_sys" where
  "lockFile p i s =
     (case ls_owner s i of
        Some _ \<Rightarrow> s\<lparr>ls_phase := (ls_phase s)(p := Idle)\<rparr>
      | None \<Rightarrow> s\<lparr>ls_owner := (ls_owner s)(i \<mapsto> p), ls_phase := (ls_phase s)(p := Holding i)\<rparr>)"

definition unlockFile :: "nat \<Rightarrow> nat \<Rightarrow> lock_sys \<Rightarrow> lock_sys" where
  "unlockFile p i s = s\<lparr>ls_owner := (ls_owner s)(i := None), ls_phase := (ls_phase s)(p := Unlocked)\<rparr>"

text \<open>\<^verbatim>\<open>os.Remove(name)\<close>, the last call of \<^verbatim>\<open>Release\<close>: the path goes, whatever inode it names by now.\<close>

definition remove_lock_file :: "nat \<Rightarrow> lock_sys \<Rightarrow> lock_sys" where
  "remove_lock_file p s = s\<lparr>ls_path := None, ls_phase := (ls_phase s)(p := Idle)\<rparr>"

text \<open>The operating system closes a killed process's handle and with it drops the lock.\<close>

definition killed :: "nat \<Rightarrow> lock_sys \<Rightarrow> lock_sys" where
  "killed p s =
     s\<lparr>ls_owner := (\<lambda>i. if ls_owner s i = Some p then None else ls_owner s i), ls_phase := (ls_phase s)(p := Idle)\<rparr>"

datatype lock_event = Open nat | Flock nat | Unlock nat | Remove nat | Kill nat

inductive lock_step :: "lock_event \<Rightarrow> lock_sys \<Rightarrow> lock_sys \<Rightarrow> bool" where
  open_step: "ls_phase s p = Idle \<Longrightarrow> lock_step (Open p) s (open_lock_file p s)"
| flock_step: "ls_phase s p = Opened i \<Longrightarrow> lock_step (Flock p) s (lockFile p i s)"
| unlock_step: "ls_phase s p = Holding i \<Longrightarrow> lock_step (Unlock p) s (unlockFile p i s)"
| remove_step: "ls_phase s p = Unlocked \<Longrightarrow> lock_step (Remove p) s (remove_lock_file p s)"
| kill_step: "lock_step (Kill p) s (killed p s)"

inductive lock_run :: "lock_event list \<Rightarrow> lock_sys \<Rightarrow> bool" where
  lock_run_init: "lock_run [] lock_init"
| lock_run_step: "lock_run tr s \<Longrightarrow> lock_step e s s' \<Longrightarrow> lock_run (tr @ [e]) s'"

definition holds_lock :: "lock_sys \<Rightarrow> nat \<Rightarrow> bool" where
  "holds_lock s p \<longleftrightarrow> (case ls_phase s p of Holding _ \<Rightarrow> True | _ \<Rightarrow> False)"

lemmas lock_ops = open_lock_file_def lockFile_def unlockFile_def remove_lock_file_def killed_def

inductive_cases lock_stepE: "lock_step e s s'"

section \<open>Invariants\<close>

text \<open>The kernel's table and the processes agree; handles refer to inodes that were created.\<close>

definition lock_inv :: "lock_sys \<Rightarrow> bool" where
  "lock_inv s \<longleftrightarrow>
     (\<forall>p i. ls_phase s p = Holding i \<longleftrightarrow> ls_owner s i = Some p) \<and>
     (\<forall>p i. ls_phase s p = Opened i \<or> ls_phase s p = Holding i \<longrightarrow> i < ls_fresh s) \<and>
     (\<forall>i. ls_path s = Some i \<longrightarrow> i < ls_fresh s)"

lemma lock_inv_owner: "lock_inv s \<Longrightarrow> ls_owner s i = Some p \<longleftrightarrow> ls_phase s p = Holding i"
  by (simp add: lock_inv_def)

lemma lock_inv_step: "lock_step e s s' \<Longrightarrow> lock_inv s \<Longrightarrow> lock_inv s'"
proof (induction rule: lock_step.induct)
  case (open_step s p)
  then have no: "ls_owner s j \<noteq> Some p" for j
    using lock_inv_owner [of s j p] by simp
  show ?case using open_step no by (auto simp: lock_inv_def open_lock_file_def less_Suc_eq split: option.splits)
next
  case (flock_step s p i)
  then have no: "ls_owner s j \<noteq> Some p" for j
    using lock_inv_owner [of s j p] by simp
  show ?case
    using flock_step no by (cases "ls_owner s i") (auto simp: lock_inv_def lockFile_def)
next
  case (unlock_step s p i)
  then have "ls_owner s j \<noteq> Some p" if "j \<noteq> i" for j
    using that lock_inv_owner [of s j p] by simp
  then show ?case using unlock_step by (auto simp: lock_inv_def unlockFile_def)
next
  case (remove_step s p)
  then have no: "ls_owner s j \<noteq> Some p" for j
    using lock_inv_owner [of s j p] by simp
  show ?case using remove_step no by (auto simp: lock_inv_def remove_lock_file_def)
next
  case (kill_step p s)
  then show ?case by (auto simp: lock_inv_def killed_def)
qed

lemma lock_inv_run: "lock_run tr s \<Longrightarrow> lock_inv s"
proof (induction rule: lock_run.induct)
  case (lock_run_step tr s e s')
  then show ?case by (blast intro: lock_inv_step)
qed (simp add: lock_init_def lock_inv_def)

text \<open>As long as nobody removes the file, every handle is on the inode the path names.\<close>

definition one_inode :: "lock_sys \<Rightarrow> bool" where
  "one_inode s \<longleftrightarrow> (\<forall>p i. ls_phase s p = Opened i \<or> ls_phase s p = Holding i \<longrightarrow> ls_path s = Some i)"

lemma one_inode_step: "lock_step e s s' \<Longrightarrow> one_inode s \<Longrightarrow> \<forall>p. e \<noteq> Remove p \<Longrightarrow> one_inode s'"
  by (induction rule: lock_step.induct)
    ((auto simp: one_inode_def lock_ops split: option.splits if_splits; metis option.inject)+)

lemma one_inode_run: "lock_run tr s \<Longrightarrow> \<forall>p. Remove p \<notin> set tr \<Longrightarrow> one_inode s"
proof (induction rule: lock_run.induct)
  case (lock_run_step tr s e s')
  then show ?case using one_inode_step [of e s s'] by force
qed (simp add: lock_init_def one_inode_def)

section \<open>Properties\<close>

text \<open>
  C28: exclusive access without graceful shutdown. In every interleaving of any number of broker
  processes starting up and being killed, in which no process gets as far as removing the lock file,
  at most one process holds the data directory.
\<close>

theorem lock_excludes_without_removal:
  assumes "lock_run tr s" "\<forall>p. Remove p \<notin> set tr" "holds_lock s p" "holds_lock s q"
  shows "p = q"
  using lock_inv_run [OF assms(1)] one_inode_run [OF assms(1,2)] assms(3,4)
  by (auto simp: lock_inv_def one_inode_def holds_lock_def split: lock_phase.splits)
    (metis option.inject)

text \<open>
  A dead holder never blocks a start. In every reachable state in which no process holds the lock,
  an idle process that opens and locks the file obtains it.
\<close>

theorem lock_available_when_free:
  assumes "lock_run tr s" "ls_phase s p = Idle" "\<forall>q. \<not> holds_lock s q"
  shows "\<exists>s1 s2. lock_step (Open p) s s1 \<and> lock_step (Flock p) s1 s2 \<and> holds_lock s2 p"
proof -
  let ?s1 = "open_lock_file p s"
  obtain i where i: "ls_phase ?s1 p = Opened i"
    by (cases "ls_path s") (auto simp: open_lock_file_def)
  have "ls_owner ?s1 i = None"
  proof (rule ccontr)
    assume "ls_owner ?s1 i \<noteq> None"
    then obtain q where "ls_owner s i = Some q" by (auto simp: open_lock_file_def split: option.splits)
    then have "ls_phase s q = Holding i" using lock_inv_run [OF assms(1)] by (simp add: lock_inv_def)
    then show False using assms(3) [rule_format, of q] by (simp add: holds_lock_def)
  qed
  then have "holds_lock (lockFile p i ?s1) p" by (simp add: holds_lock_def lockFile_def)
  then show ?thesis using open_step [OF assms(2)] flock_step [OF i] by blast
qed

text \<open>
  C29: a graceful shutdown can let two brokers in. \<^verbatim>\<open>Release\<close> unlocks, closes and only then removes the
  path. If broker 1 starts between broker 0's unlock and its remove, it locks the inode that is then
  unlinked; broker 2 creates a fresh file and locks that. Both hold the data directory.
\<close>

theorem release_admits_two_brokers:
  "\<exists>s. lock_run [Open 0, Flock 0, Unlock 0, Open 1, Flock 1, Remove 0, Open 2, Flock 2] s \<and>
     holds_lock s 1 \<and> holds_lock s 2"
proof -
  define s1 where "s1 = open_lock_file 0 lock_init"
  define s2 where "s2 = lockFile 0 0 s1"
  define s3 where "s3 = unlockFile 0 0 s2"
  define s4 where "s4 = open_lock_file 1 s3"
  define s5 where "s5 = lockFile 1 0 s4"
  define s6 where "s6 = remove_lock_file 0 s5"
  define s7 where "s7 = open_lock_file 2 s6"
  define s8 where "s8 = lockFile 2 1 s7"
  note defs = s1_def s2_def s3_def s4_def s5_def s6_def s7_def s8_def lock_ops lock_init_def
  have r: "lock_run ([] @ [Open 0]) s1" unfolding s1_def
    by (rule lock_run_step [OF lock_run_init open_step]) (simp add: lock_init_def)
  have r: "lock_run (([] @ [Open 0]) @ [Flock 0]) s2" unfolding s2_def
    by (intro lock_run_step [OF r] flock_step) (simp add: defs)
  have r: "lock_run ((([] @ [Open 0]) @ [Flock 0]) @ [Unlock 0]) s3" unfolding s3_def
    by (intro lock_run_step [OF r] unlock_step) (simp add: defs)
  have r: "lock_run (((([] @ [Open 0]) @ [Flock 0]) @ [Unlock 0]) @ [Open 1]) s4" unfolding s4_def
    by (intro lock_run_step [OF r] open_step) (simp add: defs)
  have r: "lock_run ((((([] @ [Open 0]) @ [Flock 0]) @ [Unlock 0]) @ [Open 1]) @ [Flock 1]) s5" unfolding s5_def
    by (intro lock_run_step [OF r] flock_step) (simp add: defs)
  note r = lock_run_step [OF r, of "Remove 0" s6]
  note r = lock_run_step [OF r, of "Open 2" s7]
  note r = lock_run_step [OF r, of "Flock 2" s8]
  have "lock_step (Remove 0) s5 s6" "lock_step (Open 2) s6 s7" "lock_step (Flock 2) s7 s8"
    unfolding s6_def s7_def s8_def by (intro remove_step open_step flock_step; simp add: defs)+
  then show ?thesis using r by (intro exI [of _ s8]) (simp add: holds_lock_def defs)
qed

text \<open>Two processes race for a free directory; one is refused.\<close>

theorem lock_excludes_without_removal_witness:
  "holds_lock (lockFile 1 0 (open_lock_file 1 (lockFile 0 0 (open_lock_file 0 lock_init)))) 0 \<and>
   \<not> holds_lock (lockFile 1 0 (open_lock_file 1 (lockFile 0 0 (open_lock_file 0 lock_init)))) 1"
proof -
  define s2 where "s2 = lockFile 0 0 (open_lock_file 0 lock_init)"
  define s4 where "s4 = lockFile 1 0 (open_lock_file 1 s2)"
  have "lock_run ([] @ [Open 0]) (open_lock_file 0 lock_init)"
    by (rule lock_run_step [OF lock_run_init open_step]) (simp add: lock_init_def)
  then have "lock_run (([] @ [Open 0]) @ [Flock 0]) s2"
    unfolding s2_def by (rule lock_run_step) (intro flock_step, simp add: lock_ops lock_init_def)
  then have "lock_run ((([] @ [Open 0]) @ [Flock 0]) @ [Open 1]) (open_lock_file 1 s2)"
    by (rule lock_run_step) (intro open_step, simp add: s2_def lock_ops lock_init_def)
  then have r: "lock_run (((([] @ [Open 0]) @ [Flock 0]) @ [Open 1]) @ [Flock 1]) s4"
    unfolding s4_def by (rule lock_run_step) (intro flock_step, simp add: s2_def lock_ops lock_init_def)
  have h: "holds_lock s4 0" by (simp add: s4_def s2_def holds_lock_def lock_ops lock_init_def)
  have "\<not> holds_lock s4 1" using lock_excludes_without_removal [OF r _ _ h, of 1] by auto
  then show ?thesis using h by (simp only: s4_def s2_def simp_thms)
qed

theorem lock_available_when_free_witness:
  "\<exists>s1 s2. lock_step (Open 7) lock_init s1 \<and> lock_step (Flock 7) s1 s2 \<and> holds_lock s2 7"
  using lock_available_when_free [OF lock_run_init, of 7] by (simp add: lock_init_def holds_lock_def)

end
