(* ===== verification/Kw_Prelude.thy ===== *)
theory Kw_Prelude
  imports Main "HOL-Library.Word" "HOL-Library.AList"
begin

text \<open>
  Shared vocabulary of the development: Go's fixed-width integers with their wrap-around written
  out, byte strings and the big-endian codecs of \<^verbatim>\<open>encoding/binary\<close>, the binary search of
  \<^verbatim>\<open>sort.Search\<close>, decimal printing and parsing, self-delimiting frames, and a small model of the
  operating system's files (contents, modification time, injected I/O failures).
\<close>

named_theorems go_arith \<open>wrap-around facts of Go's integer types\<close>
named_theorems os_simps \<open>evaluation of the file operations\<close>

section \<open>Go integers\<close>

text \<open>
  An \<^verbatim>\<open>intN\<close> value is an \<^typ>\<open>int\<close> in range; \<open>wrap_s N\<close> is what Go's conversion or an overflowing
  operation leaves in the variable. \<open>wrap_u N\<close> is the unsigned counterpart.
\<close>

definition wrap_s :: "nat \<Rightarrow> int \<Rightarrow> int" where
  "wrap_s w x = (x + 2 ^ (w - 1)) mod 2 ^ w - 2 ^ (w - 1)"

definition wrap_u :: "nat \<Rightarrow> int \<Rightarrow> int" where
  "wrap_u w x = x mod 2 ^ w"

abbreviation i8 :: "int \<Rightarrow> int" where "i8 \<equiv> wrap_s 8"
abbreviation i16 :: "int \<Rightarrow> int" where "i16 \<equiv> wrap_s 16"
abbreviation i32 :: "int \<Rightarrow> int" where "i32 \<equiv> wrap_s 32"
abbreviation i64 :: "int \<Rightarrow> int" where "i64 \<equiv> wrap_s 64"
abbreviation u32 :: "int \<Rightarrow> int" where "u32 \<equiv> wrap_u 32"
abbreviation u64 :: "int \<Rightarrow> int" where "u64 \<equiv> wrap_u 64"

abbreviation max_i64 :: int where "max_i64 \<equiv> 9223372036854775807"

definition in_i64 :: "int \<Rightarrow> bool" where
  "in_i64 x \<longleftrightarrow> - 9223372036854775808 \<le> x \<and> x \<le> 9223372036854775807"

lemma wrap_s_id:
  assumes "0 < w" "- (2 ^ (w - 1)) \<le> x" "x < 2 ^ (w - 1)"
  shows "wrap_s w x = x"
proof -
  have "(2::int) ^ w = 2 * 2 ^ (w - 1)"
    using assms(1) by (cases w) auto
  then have "(x + 2 ^ (w - 1)) mod 2 ^ w = x + 2 ^ (w - 1)"
    using assms(2,3) by (intro mod_pos_pos_trivial) auto
  then show ?thesis by (simp add: wrap_s_def)
qed

lemma i64_id [go_arith]: "- 9223372036854775808 \<le> x \<Longrightarrow> x \<le> 9223372036854775807 \<Longrightarrow> i64 x = x"
  by (rule wrap_s_id) simp_all

lemma i32_id [go_arith]: "- 2147483648 \<le> x \<Longrightarrow> x \<le> 2147483647 \<Longrightarrow> i32 x = x"
  by (rule wrap_s_id) simp_all

lemma i64_in [go_arith]: "in_i64 x \<Longrightarrow> i64 x = x"
  by (simp add: in_i64_def i64_id)

lemma in_i64_i64 [simp]: "in_i64 (i64 x)"
  using pos_mod_bound [of "2 ^ 64 :: int" "x + 2 ^ 63"] pos_mod_sign [of "2 ^ 64 :: int" "x + 2 ^ 63"]
  by (simp add: in_i64_def wrap_s_def)

lemma wrap_s_mod [simp]: "wrap_s w (x mod 2 ^ w) = wrap_s w x"
  by (simp add: wrap_s_def mod_add_left_eq)

lemma u32_id [go_arith]: "0 \<le> x \<Longrightarrow> x \<le> 4294967295 \<Longrightarrow> u32 x = x"
  by (simp add: wrap_u_def)

lemma u32_bounds [simp]: "0 \<le> u32 x" "u32 x < 4294967296" "u32 x \<le> 4294967295"
proof -
  have "x mod 4294967296 < 4294967296"
    by simp
  then show "0 \<le> u32 x" "u32 x < 4294967296" "u32 x \<le> 4294967295"
    unfolding wrap_u_def by auto
qed

lemma u32_le: "0 \<le> x \<Longrightarrow> u32 x \<le> x"
  by (simp add: wrap_u_def zmod_le_nonneg_dividend)

text \<open>
  Integer division rounds towards zero. Times and durations are nanoseconds; \<^verbatim>\<open>time.Time.Sub\<close> saturates
  at the ends of int64.
\<close>

definition go_div :: "int \<Rightarrow> int \<Rightarrow> int" where
  "go_div a b = sgn a * sgn b * (\<bar>a\<bar> div \<bar>b\<bar>)"

definition time_sub :: "int \<Rightarrow> int \<Rightarrow> int" where
  "time_sub t u = max (- max_i64 - 1) (min max_i64 (t - u))"

section \<open>Bytes and big-endian integers\<close>

type_synonym byte = "8 word"
type_synonym bytes = "byte list"

text \<open>\<^verbatim>\<open>xs[a:b]\<close> of a Go slice; every use in the sources is guarded by a length check.\<close>

definition gslice :: "nat \<Rightarrow> nat \<Rightarrow> 'a list \<Rightarrow> 'a list" where
  "gslice a b xs = take (b - a) (drop a xs)"

text \<open>\<^verbatim>\<open>binary.BigEndian.UintN\<close> and \<^verbatim>\<open>PutUintN\<close>.\<close>

definition be_uint :: "bytes \<Rightarrow> int" where
  "be_uint bs = foldl (\<lambda>a b. a * 256 + uint b) 0 bs"

primrec put_be :: "nat \<Rightarrow> int \<Rightarrow> bytes" where
  "put_be 0 x = []"
| "put_be (Suc n) x = put_be n (x div 256) @ [word_of_int x]"

lemma length_put_be [simp]: "length (put_be n x) = n"
  by (induction n arbitrary: x) auto

lemma put_be_2: "put_be 2 x = [word_of_int (x div 256), word_of_int x]"
  by (simp add: numeral_2_eq_2)

lemma put_be_4:
  "put_be 4 x = [word_of_int (x div 16777216), word_of_int (x div 65536), word_of_int (x div 256), word_of_int x]"
  by (simp add: eval_nat_numeral div_mult2_eq [symmetric] zdiv_zmult2_eq [symmetric])

lemma be_uint_Nil [simp]: "be_uint [] = 0"
  by (simp add: be_uint_def)

lemma be_uint_snoc [simp]: "be_uint (bs @ [b]) = be_uint bs * 256 + uint b"
  by (simp add: be_uint_def)

lemma uint_word_of_int_byte: "uint (word_of_int x :: byte) = x mod 256"
  by (simp add: uint_word_of_int)

lemma be_uint_put_be: "be_uint (put_be n x) = x mod 256 ^ n"
proof (induction n arbitrary: x)
  case (Suc n)
  have "x mod (256 * 256 ^ n) = 256 * (x div 256 mod 256 ^ n) + x mod 256"
    by (rule zmod_zmult2_eq) simp
  with Suc show ?case
    by (simp add: uint_word_of_int_byte)
qed simp

lemma uint_byte_bounds: "0 \<le> uint (b :: byte)" "uint (b :: byte) < 256"
  using uint_lt2p [of b] by simp_all

lemma be_uint_bounds: "0 \<le> be_uint bs \<and> be_uint bs < 256 ^ length bs"
proof (induction bs rule: rev_induct)
  case (snoc b bs)
  have "be_uint bs * 256 + uint b < (be_uint bs + 1) * 256"
    using uint_byte_bounds(2) [of b] by simp
  also have "\<dots> \<le> 256 ^ length bs * 256"
    using snoc by (intro mult_right_mono) auto
  finally show ?case
    using snoc uint_byte_bounds(1) [of b] by simp
qed simp

lemma put_be_be_uint: "put_be (length bs) (be_uint bs) = bs"
proof (induction bs rule: rev_induct)
  case (snoc b bs)
  have "(be_uint bs * 256 + uint b) div 256 = be_uint bs"
    using uint_byte_bounds [of b] by (simp add: div_pos_pos_trivial)
  moreover have "(word_of_int (be_uint bs * 256 + uint b) :: byte) = b"
    by (rule word_uint_eqI)
      (use uint_byte_bounds [of b] in \<open>simp only: uint_word_of_int_byte, simp\<close>)
  ultimately show ?case
    using snoc by simp
qed simp

lemma be_uint_inject: "length as = length bs \<Longrightarrow> be_uint as = be_uint bs \<Longrightarrow> as = bs"
  by (metis put_be_be_uint)

text \<open>Slices of a buffer whose head was overwritten (\<^verbatim>\<open>PutUintN(buf[a:b], v)\<close>).\<close>

definition patch :: "nat \<Rightarrow> bytes \<Rightarrow> bytes \<Rightarrow> bytes" where
  "patch p vs buf = take p buf @ vs @ drop (p + length vs) buf"

lemma length_patch [simp]: "p + length vs \<le> length buf \<Longrightarrow> length (patch p vs buf) = length buf"
  by (simp add: patch_def)

lemma slice_patch_same: "p + length vs \<le> length buf \<Longrightarrow> gslice p (p + length vs) (patch p vs buf) = vs"
  by (simp add: gslice_def patch_def)

lemma slice_patch_before:
  "p + length vs \<le> length buf \<Longrightarrow> b \<le> p \<Longrightarrow> gslice a b (patch p vs buf) = gslice a b buf"
  by (cases "a < b") (simp_all add: gslice_def patch_def take_drop min_def)

lemma drop_patch_after: "p + length vs \<le> length buf \<Longrightarrow> p + length vs \<le> a \<Longrightarrow> drop a (patch p vs buf) = drop a buf"
  by (simp add: patch_def)

lemma slice_patch_after:
  "p + length vs \<le> length buf \<Longrightarrow> p + length vs \<le> a \<Longrightarrow> gslice a b (patch p vs buf) = gslice a b buf"
  by (simp add: gslice_def drop_patch_after)

lemma nth_patch_after:
  "p + length vs \<le> length buf \<Longrightarrow> p + length vs \<le> k \<Longrightarrow> patch p vs buf ! k = buf ! k"
  by (simp add: patch_def nth_append) linarith

lemma slice_append_left: "b \<le> length xs \<Longrightarrow> gslice a b (xs @ ys) = gslice a b xs"
  by (simp add: gslice_def)

section \<open>Binary search\<close>

text \<open>\<^verbatim>\<open>sort.Search(n, f)\<close>: the loop of the Go library, index arithmetic included.\<close>

function search_loop :: "(nat \<Rightarrow> bool) \<Rightarrow> nat \<Rightarrow> nat \<Rightarrow> nat" where
  "search_loop f i j =
     (if i < j
      then let h = (i + j) div 2 in if \<not> f h then search_loop f (h + 1) j else search_loop f i h
      else i)"
  by pat_completeness auto
termination
  by (relation "measure (\<lambda>(f, i, j). j - i)") auto

declare search_loop.simps [simp del]

definition sort_search :: "nat \<Rightarrow> (nat \<Rightarrow> bool) \<Rightarrow> nat" where
  "sort_search n f = search_loop f 0 n"

lemma search_loop_spec:
  assumes "i \<le> j" "0 < i \<Longrightarrow> \<not> f (i - 1)" "j < n \<Longrightarrow> f j" "j \<le> n"
  shows "let r = search_loop f i j in i \<le> r \<and> r \<le> j \<and> (0 < r \<longrightarrow> \<not> f (r - 1)) \<and> (r < n \<longrightarrow> f r)"
  using assms
proof (induction f i j rule: search_loop.induct)
  case (1 f i j)
  show ?case
  proof (cases "i < j")
    case True
    let ?h = "(i + j) div 2"
    have h: "i \<le> ?h" "?h < j" using True by auto
    show ?thesis
    proof (cases "f ?h")
      case True
      with \<open>i < j\<close> have "search_loop f i j = search_loop f i ?h"
        by (simp add: search_loop.simps [of f i j] Let_def)
      with 1(2)[OF \<open>i < j\<close> refl] True 1(3-6) h show ?thesis
        by (auto simp: Let_def)
    next
      case False
      with \<open>i < j\<close> have "search_loop f i j = search_loop f (?h + 1) j"
        by (simp add: search_loop.simps [of f i j] Let_def)
      with 1(1)[OF \<open>i < j\<close> refl] False 1(3-6) h show ?thesis
        by (auto simp: Let_def)
    qed
  next
    case False
    then show ?thesis
      using 1(3-6) by (subst search_loop.simps) (auto simp: Let_def)
  qed
qed

lemma sort_search_edge:
  "sort_search n f \<le> n"
  "0 < sort_search n f \<Longrightarrow> \<not> f (sort_search n f - 1)"
  "sort_search n f < n \<Longrightarrow> f (sort_search n f)"
  using search_loop_spec [of 0 n f n] by (auto simp: sort_search_def Let_def)

lemma sort_search_mono:
  assumes "\<And>i j. i \<le> j \<Longrightarrow> j < n \<Longrightarrow> f i \<Longrightarrow> f j" "k < n"
  shows "f k \<longleftrightarrow> sort_search n f \<le> k"
proof
  assume fk: "f k"
  show "sort_search n f \<le> k"
  proof (rule ccontr)
    assume "\<not> sort_search n f \<le> k"
    then have pos: "0 < sort_search n f" and "k \<le> sort_search n f - 1" by auto
    moreover have "sort_search n f - 1 < n"
      using sort_search_edge(1) [of n f] pos by simp
    ultimately have "f (sort_search n f - 1)"
      using assms(1) fk by blast
    with sort_search_edge(2) [of n f] pos show False by simp
  qed
next
  assume "sort_search n f \<le> k"
  with assms sort_search_edge(3) [of n f] show "f k"
    by (meson order.strict_trans1)
qed

section \<open>Decimal numbers\<close>

text \<open>\<^verbatim>\<open>%d\<close> and \<^verbatim>\<open>%020d\<close> of \<^verbatim>\<open>fmt\<close>, and the digits \<^verbatim>\<open>strconv.ParseInt\<close> reads back.\<close>

definition digit :: "nat \<Rightarrow> char" where
  "digit d = char_of (48 + d)"

fun dec :: "nat \<Rightarrow> string" where
  "dec n = (if n < 10 then [digit n] else dec (n div 10) @ [digit (n mod 10)])"

declare dec.simps [simp del]

definition dec_int :: "int \<Rightarrow> string" where
  "dec_int x = (if x < 0 then CHR ''-'' # dec (nat (- x)) else dec (nat x))"

definition is_digit :: "char \<Rightarrow> bool" where
  "is_digit c \<longleftrightarrow> 48 \<le> (of_char c :: nat) \<and> (of_char c :: nat) \<le> 57"

definition parse_dec :: "string \<Rightarrow> nat" where
  "parse_dec s = foldl (\<lambda>a c. a * 10 + (of_char c - 48)) 0 s"

definition pad20 :: "int \<Rightarrow> string" where
  "pad20 x =
     (if x < 0 then CHR ''-'' # replicate (19 - length (dec (nat (- x)))) (CHR ''0'') @ dec (nat (- x))
      else replicate (20 - length (dec (nat x))) (CHR ''0'') @ dec (nat x))"

text \<open>\<^verbatim>\<open>hex.EncodeToString\<close>.\<close>

definition hex_digit :: "nat \<Rightarrow> char" where
  "hex_digit n = ''0123456789abcdef'' ! n"

definition hex_encode :: "bytes \<Rightarrow> string" where
  "hex_encode bs = concat (map (\<lambda>b. [hex_digit (unat b div 16), hex_digit (unat b mod 16)]) bs)"

lemma of_char_digit: "d < 10 \<Longrightarrow> (of_char (digit d) :: nat) = 48 + d"
  by (simp add: digit_def)

lemma parse_dec_snoc: "parse_dec (s @ [c]) = parse_dec s * 10 + (of_char c - 48)"
  by (simp add: parse_dec_def)

lemma parse_dec_dec: "parse_dec (dec n) = n"
proof (induction n rule: dec.induct)
  case (1 n)
  show ?case
  proof (cases "n < 10")
    case True
    then show ?thesis
      by (simp add: dec.simps [of n] parse_dec_def of_char_digit)
  next
    case False
    with 1 show ?thesis
      by (simp add: dec.simps [of n] parse_dec_snoc of_char_digit)
  qed
qed

lemma parse_dec_zeros: "parse_dec (replicate k (CHR ''0'') @ s) = parse_dec s"
proof -
  have "foldl (\<lambda>a c. a * 10 + (of_char c - 48)) 0 (replicate k (CHR ''0'')) = (0::nat)"
    by (induction k) auto
  then show ?thesis by (simp add: parse_dec_def)
qed

lemma is_digit_dec: "c \<in> set (dec n) \<Longrightarrow> is_digit c"
proof (induction n rule: dec.induct)
  case (1 n)
  then show ?case
    by (subst (asm) (2) dec.simps) (auto simp: is_digit_def of_char_digit split: if_splits)
qed

lemma length_dec: "n < 10 ^ k \<Longrightarrow> 0 < k \<Longrightarrow> length (dec n) \<le> k"
proof (induction n arbitrary: k rule: dec.induct)
  case (1 n)
  show ?case
  proof (cases "n < 10")
    case True
    with 1(3) show ?thesis by (simp add: dec.simps [of n])
  next
    case False
    with 1(2,3) obtain k' where k: "k = Suc k'" "0 < k'"
      by (cases k; cases "k - 1") auto
    with 1(2) have "n div 10 < 10 ^ k'" by auto
    with 1(1)[OF False] k show ?thesis
      by (simp add: dec.simps [of n] False)
  qed
qed

lemma pad20_nonneg:
  assumes "0 \<le> x" "x \<le> max_i64"
  shows "length (pad20 x) = 20" "\<forall>c \<in> set (pad20 x). is_digit c" "int (parse_dec (pad20 x)) = x"
proof -
  have "nat x < 10 ^ 20" using assms by simp
  then have "length (dec (nat x)) \<le> 20" by (rule length_dec) simp
  with assms show "length (pad20 x) = 20" by (simp add: pad20_def)
  show "\<forall>c \<in> set (pad20 x). is_digit c"
    using assms is_digit_dec [of _ "nat x"] by (auto simp: pad20_def is_digit_def [of "CHR ''0''"])
  show "int (parse_dec (pad20 x)) = x"
    using assms by (simp add: pad20_def parse_dec_zeros parse_dec_dec)
qed

section \<open>Self-delimiting frames\<close>

text \<open>
  \<open>frames sz bs\<close> cuts a byte string into the complete frames at its front and the rest. \<open>sz\<close> reads
  the total size of the frame that starts at the head of its argument.
\<close>

function frames :: "(bytes \<Rightarrow> nat option) \<Rightarrow> bytes \<Rightarrow> bytes list \<times> bytes" where
  "frames sz bs =
     (case sz bs of
        None \<Rightarrow> ([], bs)
      | Some n \<Rightarrow>
          if 0 < n \<and> n \<le> length bs
          then (case frames sz (drop n bs) of (fs, r) \<Rightarrow> (take n bs # fs, r))
          else ([], bs))"
  by pat_completeness auto
termination
  by (relation "measure (\<lambda>(sz, bs). length bs)") auto

declare frames.simps [simp del]

locale framed =
  fixes sz :: "bytes \<Rightarrow> nat option"
    and hdr :: nat
  assumes sz_short: "length bs < hdr \<Longrightarrow> sz bs = None"
    and sz_prefix: "hdr \<le> length bs \<Longrightarrow> sz (bs @ cs) = sz bs"
    and sz_min: "sz bs = Some n \<Longrightarrow> hdr \<le> n"
    and hdr_pos: "0 < hdr"
begin

lemma sz_Nil [simp]: "sz [] = None"
  using hdr_pos by (simp add: sz_short)

lemma sz_pos: "sz bs = Some n \<Longrightarrow> 0 < n"
  using sz_min hdr_pos by fastforce

lemma sz_SomeD: "sz bs = Some n \<Longrightarrow> hdr \<le> length bs"
  using sz_short [of bs] by (cases "length bs < hdr") auto

lemma sz_append: "sz f = Some (length f) \<Longrightarrow> sz (f @ r) = Some (length f)"
  using sz_SomeD sz_prefix by fastforce

lemma sz_take: "hdr \<le> k \<Longrightarrow> sz (take k bs) = sz bs"
proof (cases "hdr \<le> length bs")
  case True
  assume "hdr \<le> k"
  with True have "sz (take k bs @ drop k bs) = sz (take k bs)"
    by (intro sz_prefix) simp
  then show ?thesis by simp
next
  case False
  then have "length (take k bs) < hdr" "length bs < hdr"
    by simp_all
  then show ?thesis by (simp add: sz_short)
qed

lemma frames_cat: "concat (fst (frames sz bs)) @ snd (frames sz bs) = bs"
proof (induction sz bs rule: frames.induct)
  case (1 sz bs)
  then show ?case
    by (subst (1 2) frames.simps) (auto split: option.splits prod.splits)
qed

lemma frames_Cons: "sz f = Some (length f) \<Longrightarrow>
    frames sz (f @ r) = (f # fst (frames sz r), snd (frames sz r))"
  by (subst frames.simps) (use sz_pos in \<open>auto simp: sz_append split: prod.splits\<close>)

lemma frames_concat_rest:
  assumes "\<forall>f \<in> set fs. sz f = Some (length f)"
  shows "frames sz (concat fs @ r) = (fs @ fst (frames sz r), snd (frames sz r))"
  using assms by (induction fs) (auto simp: frames_Cons)

lemma frames_Nil [simp]: "frames sz [] = ([], [])"
  by (subst frames.simps) simp

lemma frames_concat:
  "\<forall>f \<in> set fs. sz f = Some (length f) \<Longrightarrow> frames sz (concat fs) = (fs, [])"
  using frames_concat_rest [of fs "[]"] by simp

lemma frames_fst_framed: "f \<in> set (fst (frames sz bs)) \<Longrightarrow> sz f = Some (length f)"
proof (induction bs rule: length_induct)
  case (1 bs)
  show ?case
  proof (cases "sz bs")
    case None
    with 1(2) show ?thesis by (simp add: frames.simps [of sz bs])
  next
    case (Some n)
    show ?thesis
    proof (cases "n \<le> length bs")
      case False
      with Some 1(2) show ?thesis by (simp add: frames.simps [of sz bs])
    next
      case True
      have n: "0 < n" "hdr \<le> n" using Some sz_pos sz_min by auto
      then have "sz (take n bs) = Some n" using Some by (simp add: sz_take)
      moreover have "f = take n bs \<or> f \<in> set (fst (frames sz (drop n bs)))"
        using 1(2) Some True n by (subst (asm) frames.simps) (auto split: prod.splits)
      moreover have "length (drop n bs) < length bs"
        using n True by simp
      ultimately show ?thesis
        using 1(1) True by fastforce
    qed
  qed
qed

lemma frames_rest:
  "sz (snd (frames sz bs)) = Some n \<Longrightarrow> length (snd (frames sz bs)) < n"
proof (induction bs rule: length_induct)
  case (1 bs)
  show ?case
  proof (cases "\<exists>m. sz bs = Some m \<and> m \<le> length bs")
    case True
    then obtain m where m: "sz bs = Some m" "m \<le> length bs" by blast
    then have "snd (frames sz bs) = snd (frames sz (drop m bs))" "length (drop m bs) < length bs"
      using sz_pos [OF m(1)] by (auto simp: frames.simps [of sz bs] split: prod.splits)
    with 1 show ?thesis by metis
  next
    case False
    then have "snd (frames sz bs) = bs"
      by (auto simp: frames.simps [of sz bs] split: option.splits)
    with False 1(2) show ?thesis by auto
  qed
qed

lemma frames_take:
  assumes "\<forall>f \<in> set fs. sz f = Some (length f)"
  shows "\<exists>j \<le> length fs. fst (frames sz (take m (concat fs))) = take j fs \<and> length (concat (take j fs)) \<le> m \<and>
    (j < length fs \<longrightarrow> m < length (concat (take (Suc j) fs)))"
  using assms
proof (induction fs arbitrary: m)
  case (Cons f fs)
  have f: "sz f = Some (length f)" using Cons.prems by simp
  show ?case
  proof (cases "length f \<le> m")
    case True
    obtain j where "j \<le> length fs" "fst (frames sz (take (m - length f) (concat fs))) = take j fs"
      "length (concat (take j fs)) \<le> m - length f"
      "j < length fs \<longrightarrow> m - length f < length (concat (take (Suc j) fs))"
      using Cons.IH [of "m - length f"] Cons.prems by auto
    then show ?thesis
      using True frames_Cons [OF f] by (intro exI [of _ "Suc j"]) auto
  next
    case False
    have "sz (take m f) = None \<or> sz (take m f) = Some (length f)"
      using sz_take [of m f] sz_short [of "take m f"] f by (cases "hdr \<le> m") auto
    then have "fst (frames sz (take m f)) = []"
      using False by (subst frames.simps) auto
    then show ?thesis using False by (intro exI [of _ 0]) auto
  qed
qed simp

end

section \<open>Files\<close>

text \<open>
  The operating system as the storage layer sees it. A \<open>world\<close> holds the files by their path, the wall
  clock, the disk guard's flag, and a plan of I/O outcomes: each file operation consumes the head of
  the plan, \<open>IoFail n\<close> makes it return an error (a write stores \<open>n\<close> bytes first, as a short
  \<^verbatim>\<open>write\<close> does), and an exhausted plan never fails.
\<close>

record fs_file =
  fdata :: bytes
  mtime :: int

type_synonym fs_dir = "(string \<times> fs_file) list"

datatype io_out = IoOk | IoFail nat

record world =
  w_plan :: "io_out list"
  w_dir :: fs_dir
  w_now :: int
  w_paused :: bool

definition io_next :: "world \<Rightarrow> io_out \<times> world" where
  "io_next w = (case w_plan w of [] \<Rightarrow> (IoOk, w) | x # xs \<Rightarrow> (x, w\<lparr>w_plan := xs\<rparr>))"

definition file_of :: "world \<Rightarrow> string \<Rightarrow> fs_file" where
  "file_of w name = (case map_of (w_dir w) name of
     None \<Rightarrow> \<lparr>fdata = [], mtime = w_now w\<rparr> | Some f \<Rightarrow> f)"

definition file_data :: "world \<Rightarrow> string \<Rightarrow> bytes" where
  "file_data w name = fdata (file_of w name)"

definition put_file :: "string \<Rightarrow> fs_file \<Rightarrow> world \<Rightarrow> world" where
  "put_file name f w = w\<lparr>w_dir := AList.update name f (w_dir w)\<rparr>"

definition overwrite :: "nat \<Rightarrow> bytes \<Rightarrow> bytes \<Rightarrow> bytes" where
  "overwrite pos bs data =
     take pos (data @ replicate (pos - length data) 0) @ bs @ drop (pos + length bs) data"

text \<open>\<^verbatim>\<open>os.OpenFile(name, O_RDWR|O_CREATE)\<close>.\<close>

definition os_open :: "string \<Rightarrow> world \<Rightarrow> bool \<times> world" where
  "os_open name w =
     (case io_next w of
        (IoFail _, w) \<Rightarrow> (False, w)
      | (IoOk, w) \<Rightarrow> (True, put_file name (file_of w name) w))"

text \<open>\<^verbatim>\<open>f.Stat\<close>, \<^verbatim>\<open>f.Sync\<close>, \<^verbatim>\<open>f.Seek\<close>, \<^verbatim>\<open>f.Close\<close>: they only succeed or fail.\<close>

definition os_ctl :: "world \<Rightarrow> bool \<times> world" where
  "os_ctl w = (case io_next w of (IoFail _, w) \<Rightarrow> (False, w) | (IoOk, w) \<Rightarrow> (True, w))"

definition os_truncate :: "string \<Rightarrow> nat \<Rightarrow> world \<Rightarrow> bool \<times> world" where
  "os_truncate name n w =
     (case io_next w of
        (IoFail _, w) \<Rightarrow> (False, w)
      | (IoOk, w) \<Rightarrow>
          (True, put_file name \<lparr>fdata = take n (file_data w name), mtime = w_now w\<rparr> w))"

text \<open>\<^verbatim>\<open>f.Write(bs)\<close> at the handle's position; returns the new position.\<close>

definition os_write :: "string \<Rightarrow> nat \<Rightarrow> bytes \<Rightarrow> world \<Rightarrow> bool \<times> nat \<times> world" where
  "os_write name pos bs w =
     (case io_next w of
        (IoFail n, w) \<Rightarrow>
          (False, pos + length (take n bs),
           put_file name \<lparr>fdata = overwrite pos (take n bs) (file_data w name), mtime = w_now w\<rparr> w)
      | (IoOk, w) \<Rightarrow>
          (True, pos + length bs,
           put_file name \<lparr>fdata = overwrite pos bs (file_data w name), mtime = w_now w\<rparr> w))"

text \<open>\<^verbatim>\<open>f.ReadAt(buf, pos)\<close>: \<open>None\<close> is an error other than end of file.\<close>

definition os_read :: "string \<Rightarrow> nat \<Rightarrow> nat \<Rightarrow> world \<Rightarrow> bytes option \<times> world" where
  "os_read name pos n w =
     (case io_next w of
        (IoFail _, w) \<Rightarrow> (None, w)
      | (IoOk, w) \<Rightarrow> (Some (take n (drop pos (file_data w name))), w))"

definition os_remove :: "string \<Rightarrow> world \<Rightarrow> bool \<times> world" where
  "os_remove name w =
     (case io_next w of
        (IoFail _, w) \<Rightarrow> (False, w)
      | (IoOk, w) \<Rightarrow> (True, w\<lparr>w_dir := AList.delete name (w_dir w)\<rparr>))"

lemma io_next_Nil [os_simps]: "w_plan w = [] \<Longrightarrow> io_next w = (IoOk, w)"
  by (simp add: io_next_def)

lemma io_next_frame:
  "io_next w = (x, w') \<Longrightarrow> w_dir w' = w_dir w \<and> w_now w' = w_now w \<and> w_paused w' = w_paused w"
  by (auto simp: io_next_def split: list.splits)

lemma put_file_sel [os_simps]:
  "w_plan (put_file n f w) = w_plan w" "w_now (put_file n f w) = w_now w"
  "w_paused (put_file n f w) = w_paused w"
  by (simp_all add: put_file_def)

lemma map_of_put_file [os_simps]: "map_of (w_dir (put_file n f w)) = (map_of (w_dir w))(n \<mapsto> f)"
  by (simp add: put_file_def update_conv')

lemma file_of_put_file [os_simps]: "file_of (put_file n f w) m = (if m = n then f else file_of w m)"
  by (simp add: file_of_def os_simps split: option.splits)

lemma file_data_put_file [os_simps]:
  "file_data (put_file n f w) m = (if m = n then fdata f else file_data w m)"
  by (simp add: file_data_def os_simps)

lemma overwrite_end [simp]: "overwrite (length data) bs data = data @ bs"
  by (simp add: overwrite_def)

lemma os_ok [os_simps]:
  assumes "w_plan w = []"
  shows "os_open name w = (True, put_file name (file_of w name) w)"
    "os_ctl w = (True, w)"
    "os_truncate name n w = (True, put_file name \<lparr>fdata = take n (file_data w name), mtime = w_now w\<rparr> w)"
    "os_write name pos bs w = (True, pos + length bs,
       put_file name \<lparr>fdata = overwrite pos bs (file_data w name), mtime = w_now w\<rparr> w)"
    "os_read name pos n w = (Some (take n (drop pos (file_data w name))), w)"
    "os_remove name w = (True, w\<lparr>w_dir := AList.delete name (w_dir w)\<rparr>)"
  using assms
  by (simp_all add: os_open_def os_ctl_def os_truncate_def os_write_def os_read_def os_remove_def io_next_Nil)

section \<open>Frames: what an operation may touch\<close>

text \<open>
  \<open>alters P w w'\<close>: from \<open>w\<close> to \<open>w'\<close> only files in \<open>P\<close> changed, clock and disk-guard flag are the
  same, and a world without faults stays one. \<open>touches P w w'\<close> says in addition that no file was
  removed.
\<close>

definition alters :: "string set \<Rightarrow> world \<Rightarrow> world \<Rightarrow> bool" where
  "alters P w w' \<longleftrightarrow>
     w_now w' = w_now w \<and> w_paused w' = w_paused w \<and> (w_plan w = [] \<longrightarrow> w_plan w' = []) \<and>
     (\<forall>p. p \<notin> P \<longrightarrow> map_of (w_dir w') p = map_of (w_dir w) p)"

definition touches :: "string set \<Rightarrow> world \<Rightarrow> world \<Rightarrow> bool" where
  "touches P w w' \<longleftrightarrow> alters P w w' \<and> (\<forall>p. map_of (w_dir w) p \<noteq> None \<longrightarrow> map_of (w_dir w') p \<noteq> None)"

lemma alters_refl [simp, intro]: "alters P w w"
  by (simp add: alters_def)

lemma alters_trans: "alters P w w' \<Longrightarrow> alters P w' w'' \<Longrightarrow> alters P w w''"
  by (simp add: alters_def)

lemma alters_mono: "alters P w w' \<Longrightarrow> P \<subseteq> Q \<Longrightarrow> alters Q w w'"
  by (auto simp: alters_def)

lemma alters_file: "alters P w w' \<Longrightarrow> p \<notin> P \<Longrightarrow> file_of w' p = file_of w p"
  by (simp add: alters_def file_of_def split: option.splits)

lemma alters_data: "alters P w w' \<Longrightarrow> p \<notin> P \<Longrightarrow> file_data w' p = file_data w p"
  by (simp add: file_data_def alters_file)

lemma alters_plan: "alters P w w' \<Longrightarrow> w_plan w = [] \<Longrightarrow> w_plan w' = []"
  by (simp add: alters_def)

lemma touches_alters: "touches P w w' \<Longrightarrow> alters P w w'"
  by (simp add: touches_def)

lemma touches_exists: "touches P w w' \<Longrightarrow> map_of (w_dir w) p \<noteq> None \<Longrightarrow> map_of (w_dir w') p \<noteq> None"
  unfolding touches_def by blast

lemma touches_map_of: "touches P w w' \<Longrightarrow> p \<notin> P \<Longrightarrow> map_of (w_dir w') p = map_of (w_dir w) p"
  by (simp add: touches_def alters_def)

lemma touches_refl [simp, intro]: "touches P w w"
  by (simp add: touches_def)

lemma touches_trans: "touches P w w' \<Longrightarrow> touches P w' w'' \<Longrightarrow> touches P w w''"
  unfolding touches_def by (blast intro: alters_trans)

lemma touches_mono: "touches P w w' \<Longrightarrow> P \<subseteq> Q \<Longrightarrow> touches Q w w'"
  unfolding touches_def by (blast intro: alters_mono)

lemma touches_file: "touches P w w' \<Longrightarrow> p \<notin> P \<Longrightarrow> file_of w' p = file_of w p"
  by (rule alters_file [OF touches_alters])

lemma touches_data: "touches P w w' \<Longrightarrow> p \<notin> P \<Longrightarrow> file_data w' p = file_data w p"
  by (rule alters_data [OF touches_alters])

lemma touches_plan: "touches P w w' \<Longrightarrow> w_plan w = [] \<Longrightarrow> w_plan w' = []"
  by (rule alters_plan [OF touches_alters])

lemma touches_now: "touches P w w' \<Longrightarrow> w_now w' = w_now w \<and> w_paused w' = w_paused w"
  by (simp add: touches_def alters_def)

lemma touches_put_file [intro]: "name \<in> P \<Longrightarrow> touches P w (put_file name f w)"
  by (auto simp: touches_def alters_def os_simps)

lemma touches_io_next: "io_next w = (x, w') \<Longrightarrow> touches P w w'"
  by (auto simp: touches_def alters_def io_next_def split: list.splits)

lemma touches_os_ctl: "os_ctl w = (ok, w') \<Longrightarrow> touches P w w'"
  by (auto simp: os_ctl_def touches_io_next split: prod.splits io_out.splits)

lemma touches_os_open: "os_open name w = (ok, w') \<Longrightarrow> name \<in> P \<Longrightarrow> touches P w w'"
  by (auto simp: os_open_def split: prod.splits io_out.splits
      intro: touches_trans [OF touches_io_next touches_put_file] touches_io_next)

lemma touches_os_truncate: "os_truncate name n w = (ok, w') \<Longrightarrow> name \<in> P \<Longrightarrow> touches P w w'"
  by (auto simp: os_truncate_def split: prod.splits io_out.splits
      intro: touches_trans [OF touches_io_next touches_put_file] touches_io_next)

lemma touches_os_write: "os_write name pos bs w = (ok, c, w') \<Longrightarrow> name \<in> P \<Longrightarrow> touches P w w'"
  by (auto simp: os_write_def split: prod.splits io_out.splits
      intro: touches_trans [OF touches_io_next touches_put_file])

lemma touches_os_read: "os_read name pos n w = (r, w') \<Longrightarrow> touches P w w'"
  by (auto simp: os_read_def touches_io_next split: prod.splits io_out.splits)

lemma alters_os_remove: "os_remove name w = (ok, w') \<Longrightarrow> name \<in> P \<Longrightarrow> alters P w w'"
proof -
  assume r: "os_remove name w = (ok, w')" and P: "name \<in> P"
  obtain x w1 where n: "io_next w = (x, w1)" by fastforce
  then have t: "alters P w w1" by (intro touches_alters touches_io_next)
  have "alters P w1 (w1\<lparr>w_dir := AList.delete name (w_dir w1)\<rparr>)"
    using P by (auto simp: alters_def delete_conv')
  with t r n show "alters P w w'"
    by (auto simp: os_remove_def intro: alters_trans split: io_out.splits)
qed

lemmas touches_os = touches_os_ctl touches_os_open touches_os_truncate touches_os_write
  touches_os_read

lemma io_next_file_data: "io_next w = (x, w') \<Longrightarrow> file_data w' p = file_data w p"
  by (rule touches_data [OF touches_io_next [where P = "{}"]]) simp_all

lemma os_write_ok:
  "os_write name pos bs w = (True, c, w') \<Longrightarrow>
   c = pos + length bs \<and> file_data w' name = overwrite pos bs (file_data w name)"
  by (auto simp: os_write_def os_simps io_next_file_data split: prod.splits io_out.splits)

end
