(* ===== verification/Json_Store.thy ===== *)
theory Json_Store
  imports Kw_Prelude "HOL-Library.Char_ord" "HOL-Library.List_Lexorder" "HOL-Library.Multiset"
begin

text \<open>
  The small JSON files the broker keeps beside the logs (ACLs, committed offsets, topics, the archive
  manifest). A file holds a JSON value or text that is not JSON; what \<^verbatim>\<open>encoding/json\<close> does with struct
  tags, nulls, missing and repeated fields is modelled on values, the text layer is not. All of them
  are written the same way: \<^verbatim>\<open>os.WriteFile\<close> of a temporary file, then \<^verbatim>\<open>os.Rename\<close>. The locale
  \<open>json_doc\<close> is the contract between an encoder and a decoder; it yields that a save that succeeds
  is read back and that a save that fails leaves the old document.
\<close>

named_theorems json_simps \<open>decoding of encoded values\<close>

section \<open>Values\<close>

text \<open>
  \<open>JBytes bs\<close> is the string with the base64 text of \<open>bs\<close> and \<open>JTime t\<close> the string with the RFC 3339 text of
  \<open>t\<close> (nanoseconds since 1970), the forms in which byte slices and times are written.
\<close>

datatype json = JNull | JBool bool | JNum int | JStr string | JBytes bytes | JTime int | JArr "json list" | JObj "(string \<times> json) list"

text \<open>
  Field names match without regard to ASCII case; every occurrence of a field assigns it, so the last
  one counts.
\<close>

definition lower :: "char \<Rightarrow> char" where
  "lower c = (if CHR ''A'' \<le> c \<and> c \<le> CHR ''Z'' then char_of (of_char c + 32 :: nat) else c)"

definition same_key :: "string \<Rightarrow> string \<Rightarrow> bool" where
  "same_key k name \<longleftrightarrow> k = name \<or> map lower k = map lower name"

fun jfield :: "string \<Rightarrow> (string \<times> json) list \<Rightarrow> json" where
  "jfield name [] = JNull"
| "jfield name ((k, v) # kvs) =
     (if same_key k name \<and> \<not> (\<exists>x \<in> set kvs. same_key (fst x) name) then v else jfield name kvs)"

declare jfield.simps [simp del]

text \<open>Decoding into a Go value: \<open>None\<close> is a type mismatch, a null leaves the zero value.\<close>

fun dec_str :: "json \<Rightarrow> string option" where
  "dec_str JNull = Some []" | "dec_str (JStr s) = Some s" | "dec_str _ = None"

fun dec_int_w :: "nat \<Rightarrow> json \<Rightarrow> int option" where
  "dec_int_w w JNull = Some 0"
| "dec_int_w w (JNum n) = (if wrap_s w n = n then Some n else None)"
| "dec_int_w w _ = None"

fun dec_bytes :: "json \<Rightarrow> bytes option" where
  "dec_bytes JNull = Some []" | "dec_bytes (JBytes b) = Some b" | "dec_bytes _ = None"

text \<open>The zero \<^verbatim>\<open>time.Time\<close> is midnight of January 1 of the year 1.\<close>

abbreviation zero_time :: int where "zero_time \<equiv> - 62135596800000000000"

fun dec_time :: "json \<Rightarrow> int option" where
  "dec_time JNull = Some zero_time" | "dec_time (JTime t) = Some t" | "dec_time _ = None"

fun dec_strptr :: "json \<Rightarrow> string option option" where
  "dec_strptr JNull = Some None" | "dec_strptr (JStr s) = Some (Some s)" | "dec_strptr _ = None"

fun dec_all :: "('a \<Rightarrow> 'b option) \<Rightarrow> 'a list \<Rightarrow> 'b list option" where
  "dec_all f [] = Some []"
| "dec_all f (x # xs) =
     (case f x of None \<Rightarrow> None | Some y \<Rightarrow> (case dec_all f xs of None \<Rightarrow> None | Some ys \<Rightarrow> Some (y # ys)))"

fun dec_list :: "(json \<Rightarrow> 'a option) \<Rightarrow> json \<Rightarrow> 'a list option" where
  "dec_list f JNull = Some []" | "dec_list f (JArr xs) = dec_all f xs" | "dec_list f _ = None"

text \<open>A Go map as an association list; \<open>AList.update\<close> is the assignment of each decoded key.\<close>

fun dec_map :: "(json \<Rightarrow> 'a option) \<Rightarrow> json \<Rightarrow> (string \<times> 'a) list option" where
  "dec_map f JNull = Some []"
| "dec_map f (JObj kvs) =
     map_option (foldl (\<lambda>m (k, v). AList.update k v m) []) (dec_all (\<lambda>(k, v). map_option (Pair k) (f v)) kvs)"
| "dec_map f _ = None"

fun fields_of :: "json \<Rightarrow> (string \<times> json) list option" where
  "fields_of JNull = Some []" | "fields_of (JObj kvs) = Some kvs" | "fields_of _ = None"

definition enc_list :: "('a \<Rightarrow> json) \<Rightarrow> 'a list \<Rightarrow> json" where
  "enc_list f xs = JArr (map f xs)"

text \<open>\<^verbatim>\<open>json.Marshal\<close> writes map keys in increasing order.\<close>

definition enc_map :: "('a \<Rightarrow> json) \<Rightarrow> (string \<times> 'a) list \<Rightarrow> json" where
  "enc_map f m = JObj (map (\<lambda>(k, v). (k, f v)) (sort_key fst m))"

text \<open>\<^verbatim>\<open>strconv.ParseInt(s, 10, w)\<close>, which reads the keys of a map with integer keys.\<close>

definition parse_nat :: "string \<Rightarrow> nat option" where
  "parse_nat s = (if s \<noteq> [] \<and> (\<forall>c \<in> set s. is_digit c) then Some (parse_dec s) else None)"

definition parse_int :: "nat \<Rightarrow> string \<Rightarrow> int option" where
  "parse_int w s =
     (let x = (case s of
          [] \<Rightarrow> None
        | c # r \<Rightarrow>
            if c = CHR ''-'' then map_option (\<lambda>n. - int n) (parse_nat r)
            else if c = CHR ''+'' then map_option int (parse_nat r)
            else map_option int (parse_nat s))
      in case x of None \<Rightarrow> None | Some v \<Rightarrow> if wrap_s w v = v then Some v else None)"

definition enc_int_map :: "('a \<Rightarrow> json) \<Rightarrow> (int \<times> 'a) list \<Rightarrow> json" where
  "enc_int_map f m = enc_map f (map (\<lambda>(k, v). (dec_int k, v)) m)"

fun dec_int_map :: "nat \<Rightarrow> (json \<Rightarrow> 'a option) \<Rightarrow> json \<Rightarrow> (int \<times> 'a) list option" where
  "dec_int_map w f JNull = Some []"
| "dec_int_map w f (JObj kvs) =
     map_option (foldl (\<lambda>m (k, v). AList.update k v m) [])
       (dec_all (\<lambda>(k, v). case parse_int w k of None \<Rightarrow> None | Some i \<Rightarrow> map_option (Pair i) (f v)) kvs)"
| "dec_int_map w f _ = None"

lemma dec_ne [simp]: "dec n \<noteq> []"
  by (subst dec.simps) simp

lemma parse_nat_dec: "parse_nat (dec n) = Some n"
  using is_digit_dec by (auto simp: parse_nat_def parse_dec_dec)

lemma dec_head: "dec n = c # r \<Longrightarrow> c \<noteq> CHR ''-'' \<and> c \<noteq> CHR ''+''"
  using is_digit_dec [of c n] by (auto simp: is_digit_def)

lemma parse_int_dec_int:
  assumes "wrap_s w x = x"
  shows "parse_int w (dec_int x) = Some x"
proof (cases "x < 0")
  case True
  then show ?thesis using assms by (simp add: parse_int_def dec_int_def parse_nat_dec Let_def)
next
  case False
  obtain c r where "dec (nat x) = c # r" by (meson dec_ne neq_Nil_conv)
  then show ?thesis
    using assms False dec_head [of "nat x" c r] parse_nat_dec [of "nat x"] by (simp add: parse_int_def dec_int_def)
qed

lemma dec_inject [simp]: "dec m = dec n \<longleftrightarrow> m = n"
  by (metis parse_dec_dec)

lemma dec_int_inject [simp]: "dec_int x = dec_int y \<longleftrightarrow> x = y"
  by (auto simp: dec_int_def dest: dec_head dec_head [OF sym] split: if_splits)

lemma dec_all_map [json_simps]: "(\<And>x. x \<in> set xs \<Longrightarrow> f (g x) = Some (h x)) \<Longrightarrow> dec_all f (map g xs) = Some (map h xs)"
  by (induction xs) auto

lemma dec_list_enc [json_simps]: "(\<And>x. x \<in> set xs \<Longrightarrow> f (g x) = Some x) \<Longrightarrow> dec_list f (enc_list g xs) = Some xs"
  using dec_all_map [of xs f g id] by (simp add: enc_list_def)

lemma map_of_foldl_update:
  "map_of (foldl (\<lambda>m (k, v). AList.update k v m) m0 kvs) = map_of m0 ++ map_of (rev kvs)"
  by (induction kvs arbitrary: m0) (auto simp: update_conv' map_add_def fun_eq_iff split: option.splits)

lemma set_update_subset: "set (AList.update k v al) \<subseteq> insert (k, v) (set al)"
  by (induction al) auto

lemma map_of_rev_distinct: "distinct (map fst xs) \<Longrightarrow> map_of (rev xs) = map_of xs"
  by (subst map_of_inject_set) (simp_all add: rev_map [symmetric])

lemma distinct_foldl_update:
  "distinct (map fst m0) \<Longrightarrow> distinct (map fst (foldl (\<lambda>m (k, v). AList.update k v m) m0 kvs))"
  by (induction kvs arbitrary: m0) (auto intro: distinct_update)

lemma dec_map_distinct: "dec_map f j = Some m \<Longrightarrow> distinct (map fst m)"
  by (cases j) (auto intro: distinct_foldl_update)

lemma dec_map_enc:
  assumes "\<And>k v. (k, v) \<in> set m \<Longrightarrow> f (g v) = Some (h v)" "distinct (map fst m)"
  obtains m' where "dec_map f (enc_map g m) = Some m'" "map_of m' = map_option h \<circ> map_of m" "distinct (map fst m')"
proof -
  let ?s = "sort_key fst m"
  have s: "set ?s = set m" "distinct (map fst ?s)"
    using assms(2) by (auto simp: distinct_map)
  have "dec_all (\<lambda>(k, v). map_option (Pair k) (f v)) (map (\<lambda>(k, v). (k, g v)) ?s) = Some (map (\<lambda>(k, v). (k, h v)) ?s)"
    using assms(1) by (intro dec_all_map) auto
  then obtain m' where m': "dec_map f (enc_map g m) = Some m'"
    "m' = foldl (\<lambda>m (k, v). AList.update k v m) [] (map (\<lambda>(k, v). (k, h v)) ?s)"
    by (simp add: enc_map_def)
  have d: "distinct (map fst (map (\<lambda>(k, v). (k, h v)) ?s))" using s(2) by (simp add: comp_def case_prod_beta')
  have "map_of m' = map_of (map (\<lambda>(k, v). (k, h v)) ?s)"
    unfolding m'(2) map_of_foldl_update by (simp only: map_of_rev_distinct [OF d] map_of.simps empty_map_add)
  also have "\<dots> = map_option h \<circ> map_of ?s" by (rule map_of_map)
  also have "map_of ?s = map_of m"
    using s assms(2) by (intro map_of_inject_set [THEN iffD2]) auto
  finally have "map_of m' = map_option h \<circ> map_of m" .
  moreover have "distinct (map fst m')" unfolding m'(2) by (rule distinct_foldl_update) simp
  ultimately show ?thesis by (rule that [OF m'(1)])
qed

lemma dec_int_map_enc:
  assumes "\<And>k v. (k, v) \<in> set m \<Longrightarrow> wrap_s w k = k \<and> f (g v) = Some (h v)" "distinct (map fst m)"
  obtains m' where "dec_int_map w f (enc_int_map g m) = Some m'" "map_of m' = map_option h \<circ> map_of m" "distinct (map fst m')"
proof -
  let ?s = "sort_key fst (map (\<lambda>(k, v). (dec_int k, v)) m)"
  let ?t = "map (\<lambda>(k, v). (the (parse_int w k), h v)) ?s"
  have "dec_all (\<lambda>(k, v). case parse_int w k of None \<Rightarrow> None | Some i \<Rightarrow> map_option (Pair i) (f v))
      (map (\<lambda>(k, v). (k, g v)) ?s) = Some ?t"
    by (rule dec_all_map) (use assms(1) in \<open>fastforce simp: parse_int_dec_int\<close>)
  then obtain m' where m': "dec_int_map w f (enc_int_map g m) = Some m'" "m' = foldl (\<lambda>m (k, v). AList.update k v m) [] ?t"
    by (simp add: enc_int_map_def enc_map_def)
  have t: "set ?t = set (map (\<lambda>(k, v). (k, h v)) m)"
    using assms(1) by (force simp: parse_int_dec_int image_iff)
  have "mset (map fst ?t) = mset (map fst m)"
  proof -
    have "mset (map fst ?t) = image_mset (the \<circ> parse_int w \<circ> fst) (mset (map (\<lambda>(k, v). (dec_int k, v)) m))"
      by (simp add: multiset.map_comp comp_def case_prod_beta')
    also have "\<dots> = mset (map (\<lambda>(k, v). the (parse_int w (dec_int k))) m)"
      by (simp add: multiset.map_comp comp_def case_prod_beta')
    also have "map (\<lambda>(k, v). the (parse_int w (dec_int k))) m = map fst m"
      using assms(1) by (auto simp: parse_int_dec_int)
    finally show ?thesis .
  qed
  then have d: "distinct (map fst ?t)" using assms(2) mset_eq_imp_distinct_iff by blast
  have "map_of m' = map_of ?t"
    unfolding m'(2) map_of_foldl_update by (simp only: map_of_rev_distinct [OF d] map_of.simps empty_map_add)
  also have "\<dots> = map_of (map (\<lambda>(k, v). (k, h v)) m)"
    using t d assms(2) by (intro map_of_inject_set [THEN iffD2]) (auto simp: comp_def case_prod_beta')
  also have "\<dots> = map_option h \<circ> map_of m" by (rule map_of_map)
  finally have "map_of m' = map_option h \<circ> map_of m" .
  moreover have "distinct (map fst m')" unfolding m'(2) by (rule distinct_foldl_update) simp
  ultimately show ?thesis by (rule that [OF m'(1)])
qed

section \<open>Files\<close>

text \<open>
  \<open>NotJson es\<close>: text that does not parse; \<open>es\<close> are the complete elements a streaming decoder gets out
  of its \<^verbatim>\<open>segments\<close> array. A failed \<^verbatim>\<open>WriteFile\<close> may have failed to open (\<open>IoFail 0\<close>) or leave a torn file.
\<close>

datatype doc = JsonDoc json | NotJson "json list"

record docs =
  dc_plan :: "io_out list"
  dc_files :: "(string \<times> doc) list"

datatype read_result = RdMissing | RdError | RdDoc doc

definition dc_next :: "docs \<Rightarrow> io_out \<times> docs" where
  "dc_next s = (case dc_plan s of [] \<Rightarrow> (IoOk, s) | x # xs \<Rightarrow> (x, s\<lparr>dc_plan := xs\<rparr>))"

definition MkdirAll :: "docs \<Rightarrow> bool \<times> docs" where
  "MkdirAll s = (case dc_next s of (IoOk, s) \<Rightarrow> (True, s) | (IoFail _, s) \<Rightarrow> (False, s))"

definition ReadFile :: "string \<Rightarrow> docs \<Rightarrow> read_result \<times> docs" where
  "ReadFile path s =
     (case dc_next s of
        (IoFail _, s) \<Rightarrow> (RdError, s)
      | (IoOk, s) \<Rightarrow> (case map_of (dc_files s) path of None \<Rightarrow> RdMissing | Some d \<Rightarrow> RdDoc d, s))"

definition WriteFile :: "string \<Rightarrow> doc \<Rightarrow> docs \<Rightarrow> bool \<times> docs" where
  "WriteFile path d s =
     (case dc_next s of
        (IoOk, s) \<Rightarrow> (True, s\<lparr>dc_files := AList.update path d (dc_files s)\<rparr>)
      | (IoFail 0, s) \<Rightarrow> (False, s)
      | (IoFail (Suc _), s) \<Rightarrow> (False, s\<lparr>dc_files := AList.update path (NotJson []) (dc_files s)\<rparr>))"

definition Rename :: "string \<Rightarrow> string \<Rightarrow> docs \<Rightarrow> bool \<times> docs" where
  "Rename a b s =
     (case dc_next s of
        (IoFail _, s) \<Rightarrow> (False, s)
      | (IoOk, s) \<Rightarrow>
          (case map_of (dc_files s) a of
             None \<Rightarrow> (False, s)
           | Some d \<Rightarrow> (True, s\<lparr>dc_files := AList.delete a (AList.update b d (dc_files s))\<rparr>)))"

abbreviation tmp_path :: "string \<Rightarrow> string" where "tmp_path path \<equiv> path @ ''.tmp''"

definition atomicWrite :: "string \<Rightarrow> json \<Rightarrow> docs \<Rightarrow> bool \<times> docs" where
  "atomicWrite path j s =
     (case WriteFile (tmp_path path) (JsonDoc j) s of
        (False, s) \<Rightarrow> (False, s)
      | (True, s) \<Rightarrow> Rename (tmp_path path) path s)"

lemma dc_next_frame [simp]: "dc_next s = (x, s') \<Longrightarrow> dc_files s' = dc_files s"
  by (auto simp: dc_next_def split: list.splits)

text \<open>Whatever fails, the document is the old one or the new one, and no other document changes.\<close>

lemma atomicWrite_result:
  assumes "atomicWrite path j s = (ok, s')"
  shows "map_of (dc_files s') path = (if ok then Some (JsonDoc j) else map_of (dc_files s) path)"
    "p \<noteq> path \<Longrightarrow> p \<noteq> tmp_path path \<Longrightarrow> map_of (dc_files s') p = map_of (dc_files s) p"
  using assms
  by (auto simp: atomicWrite_def WriteFile_def Rename_def update_conv' delete_conv'
      split: prod.splits io_out.splits nat.splits option.splits)

lemma atomicWrite_ok: "dc_plan s = [] \<Longrightarrow> \<exists>s'. atomicWrite path j s = (True, s') \<and> dc_plan s' = []"
  by (simp add: atomicWrite_def WriteFile_def Rename_def dc_next_def update_conv')

section \<open>The contract of an encoder\<close>

text \<open>
  \<open>same\<close> is equality up to what a file does not keep: the order in a Go map. \<open>load_doc\<close> is a reader
  that decodes what it finds.
\<close>

definition load_doc :: "(json \<Rightarrow> 'a option) \<Rightarrow> string \<Rightarrow> docs \<Rightarrow> ('a option) option" where
  "load_doc decj path s =
     (case map_of (dc_files s) path of
        None \<Rightarrow> Some None | Some (JsonDoc j) \<Rightarrow> map_option Some (decj j) | Some (NotJson _) \<Rightarrow> None)"

locale json_doc =
  fixes encj :: "'a \<Rightarrow> json"
    and decj :: "json \<Rightarrow> 'a option"
    and good :: "'a \<Rightarrow> bool"
    and same :: "'a \<Rightarrow> 'a \<Rightarrow> bool"
  assumes round_trip: "good x \<Longrightarrow> \<exists>y. decj (encj x) = Some y \<and> same x y"
begin

lemma save_then_load:
  assumes "good x" "atomicWrite path (encj x) s = (True, s')"
  shows "\<exists>y. load_doc decj path s' = Some (Some y) \<and> same x y"
  using round_trip [OF assms(1)] atomicWrite_result(1) [OF assms(2)] by (auto simp: load_doc_def)

lemma failed_save_keeps:
  assumes "atomicWrite path (encj x) s = (False, s')"
  shows "load_doc decj path s' = load_doc decj path s"
  using atomicWrite_result(1) [OF assms] by (simp add: load_doc_def)

end

end
