(* ===== verification/Names_Acl.thy ===== *)
theory Names_Acl
  imports Json_Store "HOL-Library.Sublist"
begin

text \<open>
  Names and access control (\<^verbatim>\<open>internal/broker/names.go\<close>, \<^verbatim>\<open>acl.go\<close>): which client-supplied names may
  become path components, and the persisted table of principals with its prefix rules. The
  authoriser is shown to decide exactly the relation the table describes, disjoint prefixes are shown
  to isolate tenants, and the table survives a restart.
\<close>

section \<open>Names\<close>

datatype name_err = NameEmpty | NameTooLong nat | NameDirReference | NameBadChar char

abbreviation MaxNameLength :: nat where "MaxNameLength \<equiv> 249"
abbreviation MaxPartitionsPerTopic :: int where "MaxPartitionsPerTopic \<equiv> 1024"

abbreviation char_between :: "char \<Rightarrow> char \<Rightarrow> char \<Rightarrow> bool" where
  "char_between lo hi c \<equiv> lo \<le> c \<and> c \<le> hi"

definition name_char :: "char \<Rightarrow> bool" where
  "name_char c \<longleftrightarrow>
     char_between (CHR ''a'') (CHR ''z'') c \<or> char_between (CHR ''A'') (CHR ''Z'') c \<or>
     char_between (CHR ''0'') (CHR ''9'') c \<or> c = CHR ''.'' \<or> c = CHR ''_'' \<or> c = CHR ''-''"

fun name_scan :: "string \<Rightarrow> name_err option" where
  "name_scan [] = None"
| "name_scan (c # cs) = (if name_char c then name_scan cs else Some (NameBadChar c))"

definition ValidateName :: "string \<Rightarrow> name_err option" where
  "ValidateName name =
     (if name = [] then Some NameEmpty
      else if length name > MaxNameLength then Some (NameTooLong (length name))
      else if name = ''.'' \<or> name = ''..'' then Some NameDirReference
      else name_scan name)"

lemma name_scan_None: "name_scan cs = None \<longleftrightarrow> (\<forall>c \<in> set cs. name_char c)"
  by (induction cs) auto

lemma ValidateName_None:
  "ValidateName name = None \<longleftrightarrow>
     name \<noteq> [] \<and> length name \<le> MaxNameLength \<and> name \<noteq> ''.'' \<and> name \<noteq> ''..'' \<and> (\<forall>c \<in> set name. name_char c)"
  by (auto simp: ValidateName_def name_scan_None)

lemma name_char_not_special: "name_char c \<Longrightarrow> c \<noteq> CHR ''/'' \<and> c \<noteq> CHR 0x5C \<and> c \<noteq> CHR 0x00"
  by (auto simp: name_char_def less_eq_char_def)

section \<open>Principals\<close>

abbreviation OpRead :: string where "OpRead \<equiv> ''read''"
abbreviation OpWrite :: string where "OpWrite \<equiv> ''write''"

record TopicPrefixACL =
  tp_Prefix :: string
  tp_Ops :: "string list"

record GroupPrefixACL =
  gp_IDPrefix :: string
  gp_Ops :: "string list"

record Principal =
  pr_Name :: string
  pr_TenantID :: "string option"
  pr_TopicPrefixes :: "TopicPrefixACL list"
  pr_Groups :: "GroupPrefixACL list"

record ACLStore =
  ac_dir :: string
  ac_state :: "(string \<times> Principal) list"

datatype acl_err = AclMkdir | AclRead | AclParse | AclNameRequired | AclTopicOp string | AclGroupOp string | AclSave

subsection \<open>The file\<close>

definition enc_topic_acl :: "TopicPrefixACL \<Rightarrow> json" where
  "enc_topic_acl a = JObj [(''prefix'', JStr (tp_Prefix a)), (''ops'', enc_list JStr (tp_Ops a))]"

definition dec_topic_acl :: "json \<Rightarrow> TopicPrefixACL option" where
  "dec_topic_acl j =
     (case fields_of j of
        None \<Rightarrow> None
      | Some fs \<Rightarrow>
          (case (dec_str (jfield ''prefix'' fs), dec_list dec_str (jfield ''ops'' fs)) of
             (Some p, Some ops) \<Rightarrow> Some \<lparr>tp_Prefix = p, tp_Ops = ops\<rparr>
           | _ \<Rightarrow> None))"

definition enc_group_acl :: "GroupPrefixACL \<Rightarrow> json" where
  "enc_group_acl a = JObj [(''id_prefix'', JStr (gp_IDPrefix a)), (''ops'', enc_list JStr (gp_Ops a))]"

definition dec_group_acl :: "json \<Rightarrow> GroupPrefixACL option" where
  "dec_group_acl j =
     (case fields_of j of
        None \<Rightarrow> None
      | Some fs \<Rightarrow>
          (case (dec_str (jfield ''id_prefix'' fs), dec_list dec_str (jfield ''ops'' fs)) of
             (Some p, Some ops) \<Rightarrow> Some \<lparr>gp_IDPrefix = p, gp_Ops = ops\<rparr>
           | _ \<Rightarrow> None))"

text \<open>\<^verbatim>\<open>tenant_id\<close> is omitted when nil; the name is the map key and is not written.\<close>

definition enc_principal :: "Principal \<Rightarrow> json" where
  "enc_principal p =
     JObj ((case pr_TenantID p of None \<Rightarrow> [] | Some t \<Rightarrow> [(''tenant_id'', JStr t)]) @
           [(''topic_prefixes'', enc_list enc_topic_acl (pr_TopicPrefixes p)),
            (''groups'', enc_list enc_group_acl (pr_Groups p))])"

text \<open>A null map value is a nil pointer.\<close>

definition dec_principal :: "json \<Rightarrow> Principal option option" where
  "dec_principal j =
     (if j = JNull then Some None
      else case fields_of j of
        None \<Rightarrow> None
      | Some fs \<Rightarrow>
          (case (dec_strptr (jfield ''tenant_id'' fs), dec_list dec_topic_acl (jfield ''topic_prefixes'' fs),
                 dec_list dec_group_acl (jfield ''groups'' fs)) of
             (Some t, Some tps, Some gps) \<Rightarrow>
               Some (Some \<lparr>pr_Name = [], pr_TenantID = t, pr_TopicPrefixes = tps, pr_Groups = gps\<rparr>)
           | _ \<Rightarrow> None))"

definition enc_acls :: "(string \<times> Principal) list \<Rightarrow> json" where
  "enc_acls st = JObj [(''format_version'', JNum 1), (''principals'', enc_map enc_principal st)]"

definition dec_acls :: "json \<Rightarrow> (string \<times> Principal option) list option" where
  "dec_acls j =
     (case fields_of j of
        None \<Rightarrow> None
      | Some fs \<Rightarrow>
          (case dec_int_w 64 (jfield ''format_version'' fs) of
             None \<Rightarrow> None | Some _ \<Rightarrow> dec_map dec_principal (jfield ''principals'' fs)))"

text \<open>The loop of \<^verbatim>\<open>load\<close> over the decoded map: nil entries are skipped, the key becomes the name.\<close>

definition acl_entries :: "(string \<times> Principal option) list \<Rightarrow> (string \<times> Principal) list" where
  "acl_entries m = List.map_filter (\<lambda>(name, p). map_option (\<lambda>p. (name, p\<lparr>pr_Name := name\<rparr>)) p) m"

definition acl_Path :: "ACLStore \<Rightarrow> string" where
  "acl_Path s = ac_dir s @ ''/acls.json''"

definition acl_load :: "ACLStore \<Rightarrow> docs \<Rightarrow> (acl_err + ACLStore) \<times> docs" where
  "acl_load s d =
     (case ReadFile (acl_Path s) d of
        (RdMissing, d) \<Rightarrow> (Inr s, d)
      | (RdError, d) \<Rightarrow> (Inl AclRead, d)
      | (RdDoc (NotJson _), d) \<Rightarrow> (Inl AclParse, d)
      | (RdDoc (JsonDoc j), d) \<Rightarrow>
          (case dec_acls j of
             None \<Rightarrow> (Inl AclParse, d)
           | Some m \<Rightarrow> (Inr (s\<lparr>ac_state := foldl (\<lambda>st (k, p). AList.update k p st) (ac_state s) (acl_entries m)\<rparr>), d)))"

definition NewACLStore :: "string \<Rightarrow> docs \<Rightarrow> (acl_err + ACLStore) \<times> docs" where
  "NewACLStore dataDir d =
     (case MkdirAll d of
        (False, d) \<Rightarrow> (Inl AclMkdir, d)
      | (True, d) \<Rightarrow> acl_load \<lparr>ac_dir = dataDir @ ''/metadata'', ac_state = []\<rparr> d)"

definition acl_Save :: "ACLStore \<Rightarrow> docs \<Rightarrow> acl_err option \<times> docs" where
  "acl_Save s d = (case atomicWrite (acl_Path s) (enc_acls (ac_state s)) d of (ok, d) \<Rightarrow> (if ok then None else Some AclSave, d))"

subsection \<open>Operations\<close>

definition Configured :: "ACLStore \<Rightarrow> bool" where
  "Configured s \<longleftrightarrow> ac_state s \<noteq> []"

definition acl_Get :: "ACLStore \<Rightarrow> string \<Rightarrow> Principal option" where
  "acl_Get s name = map_of (ac_state s) name"

definition acl_All :: "ACLStore \<Rightarrow> Principal list" where
  "acl_All s = map snd (ac_state s)"

definition acl_Upsert :: "Principal \<Rightarrow> ACLStore \<Rightarrow> docs \<Rightarrow> acl_err option \<times> ACLStore \<times> docs" where
  "acl_Upsert p s d =
     (if pr_Name p = [] then (Some AclNameRequired, s, d)
      else case find (\<lambda>a. a \<noteq> OpRead \<and> a \<noteq> OpWrite) (concat (map tp_Ops (pr_TopicPrefixes p))) of
        Some a \<Rightarrow> (Some (AclTopicOp a), s, d)
      | None \<Rightarrow>
          (case find (\<lambda>a. a \<noteq> OpRead) (concat (map gp_Ops (pr_Groups p))) of
             Some a \<Rightarrow> (Some (AclGroupOp a), s, d)
           | None \<Rightarrow>
               let s = s\<lparr>ac_state := AList.update (pr_Name p) p (ac_state s)\<rparr> in
               (case acl_Save s d of (e, d) \<Rightarrow> (e, s, d))))"

definition acl_Delete :: "string \<Rightarrow> ACLStore \<Rightarrow> docs \<Rightarrow> acl_err option \<times> ACLStore \<times> docs" where
  "acl_Delete name s d =
     (let s = s\<lparr>ac_state := AList.delete name (ac_state s)\<rparr> in
      case acl_Save s d of (e, d) \<Rightarrow> (e, s, d))"

fun topic_rules_allow :: "TopicPrefixACL list \<Rightarrow> string \<Rightarrow> string \<Rightarrow> bool" where
  "topic_rules_allow [] topic act = False"
| "topic_rules_allow (tp # tps) topic act =
     (if \<not> prefix (tp_Prefix tp) topic then topic_rules_allow tps topic act
      else if act \<in> set (tp_Ops tp) then True
      else topic_rules_allow tps topic act)"

definition AuthorizeTopic :: "ACLStore \<Rightarrow> string \<Rightarrow> string \<Rightarrow> string \<Rightarrow> bool" where
  "AuthorizeTopic s who topic act =
     (if \<not> Configured s then True
      else if who = [] then False
      else case acl_Get s who of None \<Rightarrow> False | Some p \<Rightarrow> topic_rules_allow (pr_TopicPrefixes p) topic act)"

fun group_rules_allow :: "GroupPrefixACL list \<Rightarrow> string \<Rightarrow> string \<Rightarrow> bool" where
  "group_rules_allow [] groupID act = False"
| "group_rules_allow (gp # gps) groupID act =
     (if \<not> prefix (gp_IDPrefix gp) groupID then group_rules_allow gps groupID act
      else if act \<in> set (gp_Ops gp) then True
      else group_rules_allow gps groupID act)"

definition AuthorizeGroup :: "ACLStore \<Rightarrow> string \<Rightarrow> string \<Rightarrow> string \<Rightarrow> bool" where
  "AuthorizeGroup s who groupID act =
     (if \<not> Configured s then True
      else if who = [] then False
      else case acl_Get s who of None \<Rightarrow> False | Some p \<Rightarrow> group_rules_allow (pr_Groups p) groupID act)"

definition TenantOf :: "ACLStore \<Rightarrow> string \<Rightarrow> string" where
  "TenantOf s who =
     (if who = [] then []
      else case acl_Get s who of
        None \<Rightarrow> []
      | Some p \<Rightarrow> (case pr_TenantID p of None \<Rightarrow> [] | Some t \<Rightarrow> t))"

section \<open>Persistence\<close>

lemma acl_fields [simp]:
  "jfield ''prefix'' [(''prefix'', a), (''ops'', b)] = a"
  "jfield ''ops'' [(''prefix'', a), (''ops'', b)] = b"
  "jfield ''id_prefix'' [(''id_prefix'', a), (''ops'', b)] = a"
  "jfield ''ops'' [(''id_prefix'', a), (''ops'', b)] = b"
  "jfield ''tenant_id'' [(''topic_prefixes'', a), (''groups'', b)] = JNull"
  "jfield ''topic_prefixes'' [(''topic_prefixes'', a), (''groups'', b)] = a"
  "jfield ''groups'' [(''topic_prefixes'', a), (''groups'', b)] = b"
  "jfield ''tenant_id'' [(''tenant_id'', c), (''topic_prefixes'', a), (''groups'', b)] = c"
  "jfield ''topic_prefixes'' [(''tenant_id'', c), (''topic_prefixes'', a), (''groups'', b)] = a"
  "jfield ''groups'' [(''tenant_id'', c), (''topic_prefixes'', a), (''groups'', b)] = b"
  "jfield ''format_version'' [(''format_version'', a), (''principals'', b)] = a"
  "jfield ''principals'' [(''format_version'', a), (''principals'', b)] = b"
  by code_simp+

lemma dec_topic_acl_enc [json_simps]: "dec_topic_acl (enc_topic_acl a) = Some a"
  by (simp add: dec_topic_acl_def enc_topic_acl_def json_simps)

lemma dec_group_acl_enc [json_simps]: "dec_group_acl (enc_group_acl a) = Some a"
  by (simp add: dec_group_acl_def enc_group_acl_def json_simps)

lemma dec_principal_enc [json_simps]: "dec_principal (enc_principal p) = Some (Some (p\<lparr>pr_Name := []\<rparr>))"
  by (cases "pr_TenantID p") (simp_all add: dec_principal_def enc_principal_def json_simps)

text \<open>The invariant of the table: one entry per name, and the entry carries its name.\<close>

definition acl_ok :: "(string \<times> Principal) list \<Rightarrow> bool" where
  "acl_ok st \<longleftrightarrow> distinct (map fst st) \<and> (\<forall>(k, p) \<in> set st. pr_Name p = k)"

lemma map_of_acl_entries:
  assumes "distinct (map fst m)"
  shows "map_of (acl_entries m) k = (case map_of m k of Some (Some p) \<Rightarrow> Some (p\<lparr>pr_Name := k\<rparr>) | _ \<Rightarrow> None)"
    "distinct (map fst (acl_entries m))" "(k, p) \<in> set (acl_entries m) \<Longrightarrow> pr_Name p = k"
    "fst ` set (acl_entries m) \<subseteq> fst ` set m"
proof -
  have "map_of (acl_entries m) k = (case map_of m k of Some (Some p) \<Rightarrow> Some (p\<lparr>pr_Name := k\<rparr>) | _ \<Rightarrow> None) \<and>
    distinct (map fst (acl_entries m)) \<and> ((k, p) \<in> set (acl_entries m) \<longrightarrow> pr_Name p = k) \<and>
    fst ` set (acl_entries m) \<subseteq> fst ` set m"
    using assms
  proof (induction m)
    case (Cons x m)
    obtain n q where x: "x = (n, q)" by fastforce
    show ?case
    proof (cases q)
      case None
      then show ?thesis
        using Cons x by (auto simp: acl_entries_def map_filter_simps map_of_eq_None_iff [symmetric] split: option.splits)
    next
      case (Some p')
      then show ?thesis
        using Cons x by (auto simp: acl_entries_def map_filter_simps)
    qed
  qed (simp add: acl_entries_def map_filter_simps)
  then show "map_of (acl_entries m) k = (case map_of m k of Some (Some p) \<Rightarrow> Some (p\<lparr>pr_Name := k\<rparr>) | _ \<Rightarrow> None)"
    "distinct (map fst (acl_entries m))" "(k, p) \<in> set (acl_entries m) \<Longrightarrow> pr_Name p = k"
    "fst ` set (acl_entries m) \<subseteq> fst ` set m" by blast+
qed

lemma acl_round_trip:
  assumes "acl_ok st"
  shows "\<exists>m. dec_acls (enc_acls st) = Some m \<and> map_of (acl_entries m) = map_of st"
proof -
  obtain m where m: "dec_map dec_principal (enc_map enc_principal st) = Some m"
    "map_of m = map_option (\<lambda>p. Some (p\<lparr>pr_Name := []\<rparr>)) \<circ> map_of st" "distinct (map fst m)"
    using assms dec_principal_enc
    by (auto simp: acl_ok_def intro: dec_map_enc [of st dec_principal enc_principal "\<lambda>p. Some (p\<lparr>pr_Name := []\<rparr>)"])
  have "map_of (acl_entries m) k = map_of st k" for k
  proof (cases "map_of st k")
    case (Some p)
    then have "pr_Name p = k" using assms by (auto simp: acl_ok_def dest: map_of_SomeD)
    then show ?thesis using Some m(2) map_of_acl_entries(1) [OF m(3), of k] by simp
  qed (simp add: map_of_acl_entries(1) [OF m(3)] m(2))
  then show ?thesis using m(1) by (auto simp: dec_acls_def enc_acls_def wrap_s_def)
qed

interpretation acl_doc: json_doc enc_acls "\<lambda>j. map_option acl_entries (dec_acls j)" acl_ok "\<lambda>st st'. map_of st = map_of st'"
  by unfold_locales (use acl_round_trip in fastforce)

definition acl_eq :: "ACLStore \<Rightarrow> ACLStore \<Rightarrow> bool" where
  "acl_eq s s' \<longleftrightarrow> (\<forall>who topic act. AuthorizeTopic s who topic act = AuthorizeTopic s' who topic act) \<and>
     (\<forall>who g act. AuthorizeGroup s who g act = AuthorizeGroup s' who g act) \<and> (\<forall>who. TenantOf s who = TenantOf s' who)"

lemma acl_eqI: "map_of (ac_state s) = map_of (ac_state s') \<Longrightarrow> acl_eq s s'"
proof -
  assume m: "map_of (ac_state s) = map_of (ac_state s')"
  have "Configured s = Configured s'"
    unfolding Configured_def by (metis m map_of_eq_empty_iff)
  then show ?thesis
    by (simp add: acl_eq_def AuthorizeTopic_def AuthorizeGroup_def TenantOf_def acl_Get_def m)
qed

lemma acl_load_result:
  assumes "load_doc (\<lambda>j. map_option acl_entries (dec_acls j)) (acl_Path s) d = Some (Some st)" "dc_plan d = []" "ac_state s = []"
  shows "\<exists>s' d'. acl_load s d = (Inr s', d') \<and> map_of (ac_state s') = map_of st"
proof -
  obtain j m where f: "map_of (dc_files d) (acl_Path s) = Some (JsonDoc j)" "dec_acls j = Some m" "st = acl_entries m"
    using assms(1) by (auto simp: load_doc_def split: option.splits doc.splits)
  have "distinct (map fst m)"
    using f(2) by (auto simp: dec_acls_def split: option.splits dest: dec_map_distinct)
  then have "map_of (rev st) = map_of st" using map_of_acl_entries(2) map_of_rev_distinct f(3) by blast
  then show ?thesis
    using f assms(2,3) by (simp add: acl_load_def ReadFile_def dc_next_def map_of_foldl_update)
qed

lemma acl_ok_update: "acl_ok st \<Longrightarrow> acl_ok (AList.update (pr_Name p) p st)"
  using distinct_update [of st "pr_Name p" p] set_update_subset [of "pr_Name p" p st] by (auto simp: acl_ok_def)

lemma acl_ok_delete: "acl_ok st \<Longrightarrow> acl_ok (AList.delete k st)"
  using distinct_delete [of st k] by (auto simp: acl_ok_def AList.delete_eq)

section \<open>Properties\<close>

lemma topic_rules_allow_iff:
  "topic_rules_allow tps topic act \<longleftrightarrow> (\<exists>tp \<in> set tps. prefix (tp_Prefix tp) topic \<and> act \<in> set (tp_Ops tp))"
  by (induction tps) auto

lemma group_rules_allow_iff:
  "group_rules_allow gps g act \<longleftrightarrow> (\<exists>gp \<in> set gps. prefix (gp_IDPrefix gp) g \<and> act \<in> set (gp_Ops gp))"
  by (induction gps) auto

text \<open>
  C30: tenants with disjoint prefixes are isolated. Once ACLs are configured, if no topic prefix of one
  principal is a prefix of one of another's, in either direction, then no topic exists on which both
  are allowed anything, whatever the operations.
\<close>

theorem disjoint_prefixes_isolate:
  assumes "Configured s" "acl_Get s p = Some P" "acl_Get s q = Some Q"
    "\<forall>a \<in> set (pr_TopicPrefixes P). \<forall>b \<in> set (pr_TopicPrefixes Q).
       \<not> prefix (tp_Prefix a) (tp_Prefix b) \<and> \<not> prefix (tp_Prefix b) (tp_Prefix a)"
  shows "\<not> (AuthorizeTopic s p topic act \<and> AuthorizeTopic s q topic act')"
  using assms prefix_same_cases by (auto simp: AuthorizeTopic_def topic_rules_allow_iff) blast


text \<open>
  C31: the ACL table survives a restart. When an upsert reports success, opening the store again from
  disk gives a table that authorises exactly the same topic and group operations and binds the same
  tenants; the table keeps its invariant.
\<close>

theorem acl_survives_restart:
  assumes "acl_ok (ac_state s)" "ac_dir s = dataDir @ ''/metadata''" "acl_Upsert p s d = (None, s', d')" "dc_plan d' = []"
  shows "acl_ok (ac_state s') \<and> (\<exists>s'' d''. NewACLStore dataDir d' = (Inr s'', d'') \<and> acl_eq s' s'')"
proof -
  have s': "s' = s\<lparr>ac_state := AList.update (pr_Name p) p (ac_state s)\<rparr>" "acl_Save s' d = (None, d')"
    using assms(3) by (auto simp: acl_Upsert_def Let_def split: if_splits option.splits prod.splits)
  then have ok: "acl_ok (ac_state s')" using acl_ok_update [OF assms(1)] by simp
  have "atomicWrite (acl_Path s') (enc_acls (ac_state s')) d = (True, d')"
    using s'(2) by (auto simp: acl_Save_def split: prod.splits if_splits)
  then obtain st where st: "load_doc (\<lambda>j. map_option acl_entries (dec_acls j)) (acl_Path s') d' = Some (Some st)"
    "map_of (ac_state s') = map_of st"
    using acl_doc.save_then_load [OF ok] by blast
  let ?s0 = "\<lparr>ac_dir = dataDir @ ''/metadata'', ac_state = []\<rparr>"
  have "acl_Path ?s0 = acl_Path s'" using assms(2) s'(1) by (simp add: acl_Path_def)
  then obtain s'' d'' where "acl_load ?s0 d' = (Inr s'', d'')" "map_of (ac_state s'') = map_of st"
    using acl_load_result [of ?s0 d' st] st(1) assms(4) by auto
  moreover have "NewACLStore dataDir d' = acl_load ?s0 d'"
    using assms(4) by (simp add: NewACLStore_def MkdirAll_def dc_next_def)
  ultimately show ?thesis using ok st(2) by (auto intro: acl_eqI)
qed

text \<open>Two tenants, as the documentation's example configures them.\<close>

definition tenant_principal :: "string \<Rightarrow> Principal" where
  "tenant_principal t = \<lparr>pr_Name = t, pr_TenantID = Some t,
     pr_TopicPrefixes = [\<lparr>tp_Prefix = t @ ''.'', tp_Ops = [OpRead, OpWrite]\<rparr>],
     pr_Groups = [\<lparr>gp_IDPrefix = t @ ''.'', gp_Ops = [OpRead]\<rparr>]\<rparr>"

definition two_tenants :: ACLStore where
  "two_tenants = \<lparr>ac_dir = ''data/metadata'',
     ac_state = [(''t1'', tenant_principal ''t1''), (''t2'', tenant_principal ''t2'')]\<rparr>"

theorem disjoint_prefixes_isolate_witness:
  "AuthorizeTopic two_tenants ''t1'' ''t1.orders'' OpWrite \<and> \<not> AuthorizeTopic two_tenants ''t2'' ''t1.orders'' OpRead"
proof -
  have "AuthorizeTopic two_tenants ''t1'' ''t1.orders'' OpWrite"
    by (simp add: two_tenants_def tenant_principal_def AuthorizeTopic_def Configured_def acl_Get_def)
  with disjoint_prefixes_isolate [of two_tenants "''t1''" "tenant_principal ''t1''" "''t2''" "tenant_principal ''t2''" "''t1.orders''" OpWrite OpRead]
  show ?thesis by (simp add: two_tenants_def tenant_principal_def Configured_def acl_Get_def)
qed

theorem acl_survives_restart_witness:
  "\<exists>s' d' s'' d''. acl_Upsert (tenant_principal ''t3'') two_tenants \<lparr>dc_plan = [], dc_files = []\<rparr> = (None, s', d') \<and>
     NewACLStore ''data'' d' = (Inr s'', d'') \<and> acl_eq s' s''"
proof -
  have ok: "acl_ok (ac_state two_tenants)" by (simp add: two_tenants_def acl_ok_def tenant_principal_def)
  obtain s' d' where u: "acl_Upsert (tenant_principal ''t3'') two_tenants \<lparr>dc_plan = [], dc_files = []\<rparr> = (None, s', d')" "dc_plan d' = []"
    using atomicWrite_ok [of "\<lparr>dc_plan = [], dc_files = []\<rparr>" "acl_Path (two_tenants\<lparr>ac_state := AList.update ''t3'' (tenant_principal ''t3'') (ac_state two_tenants)\<rparr>)"
        "enc_acls (AList.update ''t3'' (tenant_principal ''t3'') (ac_state two_tenants))"]
    by (auto simp: acl_Upsert_def tenant_principal_def acl_Save_def Let_def)
  from acl_survives_restart [OF ok _ u, of "''data''"] show ?thesis using u by (auto simp: two_tenants_def)
qed

end
