(* ===== verification/Offset_Store.thy ===== *)
theory Offset_Store
  imports Names_Acl
begin

text \<open>
  Committed offsets and persisted group state (\<^verbatim>\<open>internal/broker/offsets.go\<close>): one JSON file per group
  under \<^verbatim>\<open>groups/\<close>, read at start-up and rewritten atomically on every commit. A commit that
  returns success is shown to be visible to a fetch and to survive a restart.
\<close>

section \<open>State\<close>

record CommittedOffset =
  co_Offset :: int
  co_LeaderEpoch :: int
  co_Metadata :: string
  co_CommitTimestamp :: int

record MemberState =
  ms_MemberID :: string
  ms_ClientID :: string
  ms_ClientHost :: string
  ms_SessionTimeoutMS :: int
  ms_RebalanceTimeoutMS :: int
  ms_Subscription :: bytes
  ms_Assignment :: bytes
  ms_Protocols :: "string list"

record GroupState =
  gs_GroupID :: string
  gs_Generation :: int
  gs_ProtocolType :: string
  gs_Protocol :: string
  gs_Members :: "(string \<times> MemberState) list"
  gs_Offsets :: "(string \<times> (int \<times> CommittedOffset) list) list"
  gs_Leader :: string
  gs_UpdatedAt :: int

record OffsetStore =
  os_dir :: string
  os_groups :: "(string \<times> GroupState) list"

datatype offset_err = OffMkdir | OffReadDir | OffRead string | OffParse string | OffName name_err | OffWrite

section \<open>The file\<close>

definition enc_committed :: "CommittedOffset \<Rightarrow> json" where
  "enc_committed c = JObj [(''offset'', JNum (co_Offset c)), (''leader_epoch'', JNum (co_LeaderEpoch c)),
     (''metadata'', JStr (co_Metadata c)), (''commit_timestamp_ms'', JNum (co_CommitTimestamp c))]"

definition dec_committed :: "json \<Rightarrow> CommittedOffset option" where
  "dec_committed j =
     (case fields_of j of
        None \<Rightarrow> None
      | Some fs \<Rightarrow>
          (case (dec_int_w 64 (jfield ''offset'' fs), dec_int_w 32 (jfield ''leader_epoch'' fs),
                 dec_str (jfield ''metadata'' fs), dec_int_w 64 (jfield ''commit_timestamp_ms'' fs)) of
             (Some x, Some e, Some m, Some t) \<Rightarrow>
               Some \<lparr>co_Offset = x, co_LeaderEpoch = e, co_Metadata = m, co_CommitTimestamp = t\<rparr>
           | _ \<Rightarrow> None))"

definition enc_member :: "MemberState \<Rightarrow> json" where
  "enc_member m = JObj ([(''member_id'', JStr (ms_MemberID m)), (''client_id'', JStr (ms_ClientID m)),
     (''client_host'', JStr (ms_ClientHost m)), (''session_timeout_ms'', JNum (ms_SessionTimeoutMS m)),
     (''rebalance_timeout_ms'', JNum (ms_RebalanceTimeoutMS m)), (''subscription'', JBytes (ms_Subscription m)),
     (''assignment'', JBytes (ms_Assignment m))] @
     (if ms_Protocols m = [] then [] else [(''protocols'', enc_list JStr (ms_Protocols m))]))"

text \<open>A null member, which the store never writes, is refused here; Go would keep a nil pointer.\<close>

definition dec_member :: "json \<Rightarrow> MemberState option" where
  "dec_member j =
     (case fields_of j of
        None \<Rightarrow> None
      | Some fs \<Rightarrow>
          (case (dec_str (jfield ''member_id'' fs), dec_str (jfield ''client_id'' fs), dec_str (jfield ''client_host'' fs),
                 dec_int_w 32 (jfield ''session_timeout_ms'' fs), dec_int_w 32 (jfield ''rebalance_timeout_ms'' fs),
                 dec_bytes (jfield ''subscription'' fs), dec_bytes (jfield ''assignment'' fs),
                 dec_list dec_str (jfield ''protocols'' fs)) of
             (Some a, Some b, Some c, Some d, Some e, Some f, Some g, Some h) \<Rightarrow>
               if j = JNull then None
               else Some \<lparr>ms_MemberID = a, ms_ClientID = b, ms_ClientHost = c, ms_SessionTimeoutMS = d,
                 ms_RebalanceTimeoutMS = e, ms_Subscription = f, ms_Assignment = g, ms_Protocols = h\<rparr>
           | _ \<Rightarrow> None))"

definition enc_group :: "GroupState \<Rightarrow> json" where
  "enc_group g = JObj [(''group_id'', JStr (gs_GroupID g)), (''generation'', JNum (gs_Generation g)),
     (''protocol_type'', JStr (gs_ProtocolType g)), (''protocol'', JStr (gs_Protocol g)),
     (''members'', enc_map enc_member (gs_Members g)),
     (''offsets'', enc_map (enc_int_map enc_committed) (gs_Offsets g)),
     (''leader'', JStr (gs_Leader g)), (''updated_at_ms'', JNum (gs_UpdatedAt g))]"

definition dec_group :: "json \<Rightarrow> GroupState option" where
  "dec_group j =
     (case fields_of j of
        None \<Rightarrow> None
      | Some fs \<Rightarrow>
          (case (dec_str (jfield ''group_id'' fs), dec_int_w 32 (jfield ''generation'' fs),
                 dec_str (jfield ''protocol_type'' fs), dec_str (jfield ''protocol'' fs),
                 dec_map dec_member (jfield ''members'' fs),
                 dec_map (dec_int_map 32 dec_committed) (jfield ''offsets'' fs),
                 dec_str (jfield ''leader'' fs), dec_int_w 64 (jfield ''updated_at_ms'' fs)) of
             (Some a, Some b, Some c, Some d, Some e, Some f, Some g, Some h) \<Rightarrow>
               Some \<lparr>gs_GroupID = a, gs_Generation = b, gs_ProtocolType = c, gs_Protocol = d, gs_Members = e,
                 gs_Offsets = f, gs_Leader = g, gs_UpdatedAt = h\<rparr>
           | _ \<Rightarrow> None))"

section \<open>Operations\<close>

text \<open>\<^verbatim>\<open>os.ReadDir\<close> lists the directory in name order.\<close>

definition ReadDir :: "string \<Rightarrow> docs \<Rightarrow> string list option \<times> docs" where
  "ReadDir dir d =
     (case dc_next d of
        (IoFail _, d) \<Rightarrow> (None, d)
      | (IoOk, d) \<Rightarrow>
          (Some (sort (remdups [drop (length dir + 1) p. p \<leftarrow> map fst (dc_files d),
              take (length dir + 1) p = dir @ ''/'', CHR ''/'' \<notin> set (drop (length dir + 1) p)])), d))"

fun load_groups :: "string \<Rightarrow> string list \<Rightarrow> (string \<times> GroupState) list \<Rightarrow> docs \<Rightarrow>
    (offset_err + (string \<times> GroupState) list) \<times> docs" where
  "load_groups dir [] gs d = (Inr gs, d)"
| "load_groups dir (name # names) gs d =
     (if \<not> suffix ''.json'' name then load_groups dir names gs d
      else
        let path = dir @ ''/'' @ name in
        (case ReadFile path d of
           (RdDoc (JsonDoc j), d) \<Rightarrow>
             (case dec_group j of
                None \<Rightarrow> (Inl (OffParse path), d)
              | Some g \<Rightarrow>
                  let g = (if gs_GroupID g = [] then g\<lparr>gs_GroupID := take (length name - 5) name\<rparr> else g) in
                  load_groups dir names (AList.update (gs_GroupID g) g gs) d)
         | (RdDoc (NotJson _), d) \<Rightarrow> (Inl (OffParse path), d)
         | (_, d) \<Rightarrow> (Inl (OffRead path), d)))"

definition NewOffsetStore :: "string \<Rightarrow> docs \<Rightarrow> (offset_err + OffsetStore) \<times> docs" where
  "NewOffsetStore dataDir d =
     (let dir = dataDir @ ''/groups'' in
      case MkdirAll d of
        (False, d) \<Rightarrow> (Inl OffMkdir, d)
      | (True, d) \<Rightarrow>
          (case ReadDir dir d of
             (None, d) \<Rightarrow> (Inl OffReadDir, d)
           | (Some names, d) \<Rightarrow>
               (case load_groups dir names [] d of
                  (Inl e, d) \<Rightarrow> (Inl e, d)
                | (Inr gs, d) \<Rightarrow> (Inr \<lparr>os_dir = dir, os_groups = gs\<rparr>, d))))"

definition new_group :: "string \<Rightarrow> int \<Rightarrow> GroupState" where
  "new_group groupID now = \<lparr>gs_GroupID = groupID, gs_Generation = 0, gs_ProtocolType = [], gs_Protocol = [],
     gs_Members = [], gs_Offsets = [], gs_Leader = [], gs_UpdatedAt = now\<rparr>"

text \<open>The clock argument is \<^verbatim>\<open>time.Now().UnixMilli()\<close>.\<close>

definition store_Get :: "string \<Rightarrow> int \<Rightarrow> OffsetStore \<Rightarrow> GroupState \<times> OffsetStore" where
  "store_Get groupID now s =
     (case map_of (os_groups s) groupID of
        Some g \<Rightarrow> (g, s)
      | None \<Rightarrow> let g = new_group groupID now in (g, s\<lparr>os_groups := AList.update groupID g (os_groups s)\<rparr>))"

definition store_All :: "OffsetStore \<Rightarrow> GroupState list" where
  "store_All s = map snd (os_groups s)"

definition group_path :: "OffsetStore \<Rightarrow> string \<Rightarrow> string" where
  "group_path s groupID = os_dir s @ ''/'' @ groupID @ ''.json''"

text \<open>\<^verbatim>\<open>Persist\<close> stamps the shared group record, then writes its file.\<close>

definition Persist :: "GroupState \<Rightarrow> int \<Rightarrow> OffsetStore \<Rightarrow> docs \<Rightarrow> offset_err option \<times> OffsetStore \<times> docs" where
  "Persist g now s d =
     (let g = g\<lparr>gs_UpdatedAt := now\<rparr>;
          s = s\<lparr>os_groups := AList.update (gs_GroupID g) g (os_groups s)\<rparr> in
      case atomicWrite (group_path s (gs_GroupID g)) (enc_group g) d of
        (ok, d) \<Rightarrow> (if ok then None else Some OffWrite, s, d))"

definition commit_in_group :: "string \<Rightarrow> int \<Rightarrow> CommittedOffset \<Rightarrow> GroupState \<Rightarrow> GroupState" where
  "commit_in_group topic part co g =
     (let parts = (case map_of (gs_Offsets g) topic of None \<Rightarrow> [] | Some ps \<Rightarrow> ps) in
      g\<lparr>gs_Offsets := AList.update topic (AList.update part co parts) (gs_Offsets g)\<rparr>)"

definition CommitOffset ::
  "string \<Rightarrow> string \<Rightarrow> int \<Rightarrow> int \<Rightarrow> int \<Rightarrow> string \<Rightarrow> int \<Rightarrow> OffsetStore \<Rightarrow> docs \<Rightarrow> offset_err option \<times> OffsetStore \<times> docs" where
  "CommitOffset groupID topic part off leaderEpoch metadata now s d =
     (case ValidateName groupID of
        Some e \<Rightarrow> (Some (OffName e), s, d)
      | None \<Rightarrow>
          (case ValidateName topic of
             Some e \<Rightarrow> (Some (OffName e), s, d)
           | None \<Rightarrow>
               (case store_Get groupID now s of
                  (g, s) \<Rightarrow>
                    Persist (commit_in_group topic part
                        \<lparr>co_Offset = off, co_LeaderEpoch = leaderEpoch, co_Metadata = metadata, co_CommitTimestamp = now\<rparr> g)
                      now s d)))"

definition no_offset :: CommittedOffset where
  "no_offset = \<lparr>co_Offset = - 1, co_LeaderEpoch = 0, co_Metadata = [], co_CommitTimestamp = 0\<rparr>"

definition FetchOffset :: "string \<Rightarrow> string \<Rightarrow> int \<Rightarrow> OffsetStore \<Rightarrow> CommittedOffset" where
  "FetchOffset groupID topic part s =
     (case map_of (os_groups s) groupID of
        None \<Rightarrow> no_offset
      | Some g \<Rightarrow>
          (case map_of (gs_Offsets g) topic of
             None \<Rightarrow> no_offset
           | Some parts \<Rightarrow> (case map_of parts part of None \<Rightarrow> no_offset | Some co \<Rightarrow> co)))"

definition AllOffsets :: "string \<Rightarrow> OffsetStore \<Rightarrow> (string \<times> (int \<times> CommittedOffset) list) list" where
  "AllOffsets groupID s = (case map_of (os_groups s) groupID of None \<Rightarrow> [] | Some g \<Rightarrow> gs_Offsets g)"

section \<open>Round trip of a group file\<close>

lemma committed_fields [simp]:
  "jfield ''offset'' [(''offset'', a), (''leader_epoch'', b), (''metadata'', c), (''commit_timestamp_ms'', d)] = a"
  "jfield ''leader_epoch'' [(''offset'', a), (''leader_epoch'', b), (''metadata'', c), (''commit_timestamp_ms'', d)] = b"
  "jfield ''metadata'' [(''offset'', a), (''leader_epoch'', b), (''metadata'', c), (''commit_timestamp_ms'', d)] = c"
  "jfield ''commit_timestamp_ms'' [(''offset'', a), (''leader_epoch'', b), (''metadata'', c), (''commit_timestamp_ms'', d)] = d"
  by code_simp+

lemma group_fields [simp]:
  fixes a b c d e f g h
  defines "fs \<equiv> [(''group_id'', a), (''generation'', b), (''protocol_type'', c), (''protocol'', d), (''members'', e),
    (''offsets'', f), (''leader'', g), (''updated_at_ms'', h)]"
  shows "jfield ''group_id'' fs = a" "jfield ''generation'' fs = b" "jfield ''protocol_type'' fs = c"
    "jfield ''protocol'' fs = d" "jfield ''members'' fs = e" "jfield ''offsets'' fs = f" "jfield ''leader'' fs = g"
    "jfield ''updated_at_ms'' fs = h"
  unfolding fs_def by code_simp+

lemma member_fields [simp]:
  fixes a b c d e f g
  defines "fs \<equiv> [(''member_id'', a), (''client_id'', b), (''client_host'', c), (''session_timeout_ms'', d),
    (''rebalance_timeout_ms'', e), (''subscription'', f), (''assignment'', g)]"
  shows "jfield ''member_id'' fs = a" "jfield ''client_id'' fs = b" "jfield ''client_host'' fs = c"
    "jfield ''session_timeout_ms'' fs = d" "jfield ''rebalance_timeout_ms'' fs = e" "jfield ''subscription'' fs = f"
    "jfield ''assignment'' fs = g" "jfield ''protocols'' fs = JNull"
    "jfield ''member_id'' (fs @ [(''protocols'', h)]) = a" "jfield ''client_id'' (fs @ [(''protocols'', h)]) = b"
    "jfield ''client_host'' (fs @ [(''protocols'', h)]) = c" "jfield ''session_timeout_ms'' (fs @ [(''protocols'', h)]) = d"
    "jfield ''rebalance_timeout_ms'' (fs @ [(''protocols'', h)]) = e" "jfield ''subscription'' (fs @ [(''protocols'', h)]) = f"
    "jfield ''assignment'' (fs @ [(''protocols'', h)]) = g" "jfield ''protocols'' (fs @ [(''protocols'', h)]) = h"
  unfolding fs_def by code_simp+

text \<open>Values a Go struct can hold, and Go maps: one entry per key.\<close>

definition committed_ok :: "CommittedOffset \<Rightarrow> bool" where
  "committed_ok c \<longleftrightarrow> i64 (co_Offset c) = co_Offset c \<and> i32 (co_LeaderEpoch c) = co_LeaderEpoch c \<and>
     i64 (co_CommitTimestamp c) = co_CommitTimestamp c"

definition parts_ok :: "(int \<times> CommittedOffset) list \<Rightarrow> bool" where
  "parts_ok ps \<longleftrightarrow> distinct (map fst ps) \<and> (\<forall>(p, c) \<in> set ps. i32 p = p \<and> committed_ok c)"

definition group_ok :: "GroupState \<Rightarrow> bool" where
  "group_ok g \<longleftrightarrow> i32 (gs_Generation g) = gs_Generation g \<and> i64 (gs_UpdatedAt g) = gs_UpdatedAt g \<and>
     distinct (map fst (gs_Members g)) \<and>
     (\<forall>(k, m) \<in> set (gs_Members g). i32 (ms_SessionTimeoutMS m) = ms_SessionTimeoutMS m \<and>
        i32 (ms_RebalanceTimeoutMS m) = ms_RebalanceTimeoutMS m) \<and>
     distinct (map fst (gs_Offsets g)) \<and> (\<forall>(t, ps) \<in> set (gs_Offsets g). parts_ok ps)"

definition group_same :: "GroupState \<Rightarrow> GroupState \<Rightarrow> bool" where
  "group_same g g' \<longleftrightarrow> gs_GroupID g' = gs_GroupID g \<and> gs_Generation g' = gs_Generation g \<and>
     gs_ProtocolType g' = gs_ProtocolType g \<and> gs_Protocol g' = gs_Protocol g \<and> gs_Leader g' = gs_Leader g \<and>
     gs_UpdatedAt g' = gs_UpdatedAt g \<and> map_of (gs_Members g') = map_of (gs_Members g) \<and>
     (\<forall>t. map_option map_of (map_of (gs_Offsets g') t) = map_option map_of (map_of (gs_Offsets g) t))"

lemma dec_committed_enc: "committed_ok c \<Longrightarrow> dec_committed (enc_committed c) = Some c"
  by (simp add: dec_committed_def enc_committed_def committed_ok_def)

lemma dec_member_enc:
  "i32 (ms_SessionTimeoutMS m) = ms_SessionTimeoutMS m \<Longrightarrow> i32 (ms_RebalanceTimeoutMS m) = ms_RebalanceTimeoutMS m \<Longrightarrow>
   dec_member (enc_member m) = Some m"
  using member_fields(9-16) by (auto simp: dec_member_def enc_member_def json_simps)

lemma group_round_trip:
  assumes "group_ok g"
  shows "\<exists>g'. dec_group (enc_group g) = Some g' \<and> group_same g g'"
proof -
  let ?h = "\<lambda>ps. the (dec_int_map 32 dec_committed (enc_int_map enc_committed ps))"
  have parts: "dec_int_map 32 dec_committed (enc_int_map enc_committed ps) = Some (?h ps) \<and> map_of (?h ps) = map_of ps"
    if ok: "parts_ok ps" for ps
  proof -
    obtain ps' where "dec_int_map 32 dec_committed (enc_int_map enc_committed ps) = Some ps'"
      "map_of ps' = map_option (\<lambda>c. c) \<circ> map_of ps" "distinct (map fst ps')"
      by (rule dec_int_map_enc [of ps 32 dec_committed enc_committed "\<lambda>c. c"])
        (use ok dec_committed_enc in \<open>auto simp: parts_ok_def\<close>)
    then show ?thesis by (simp add: option.map_ident comp_def)
  qed
  obtain os where os: "dec_map (dec_int_map 32 dec_committed) (enc_map (enc_int_map enc_committed) (gs_Offsets g)) = Some os"
    "map_of os = map_option ?h \<circ> map_of (gs_Offsets g)" "distinct (map fst os)"
    by (rule dec_map_enc [of "gs_Offsets g" "dec_int_map 32 dec_committed" "enc_int_map enc_committed" ?h])
      (use assms parts in \<open>auto simp: group_ok_def\<close>)
  obtain ms where ms: "dec_map dec_member (enc_map enc_member (gs_Members g)) = Some ms"
    "map_of ms = map_option (\<lambda>m. m) \<circ> map_of (gs_Members g)" "distinct (map fst ms)"
    by (rule dec_map_enc [of "gs_Members g" dec_member enc_member "\<lambda>m. m"])
      (use assms dec_member_enc in \<open>auto simp: group_ok_def\<close>)
  have "map_option map_of (map_of os t) = map_option map_of (map_of (gs_Offsets g) t)" for t
  proof (cases "map_of (gs_Offsets g) t")
    case (Some ps)
    then have "parts_ok ps" using assms by (auto simp: group_ok_def dest: map_of_SomeD)
    then have "map_of (?h ps) = map_of ps" using parts by blast
    moreover have "map_of os t = Some (?h ps)" using os(2) Some by simp
    ultimately show ?thesis using Some by simp
  qed (simp add: os(2))
  then show ?thesis
    using assms os(1) ms by (simp add: dec_group_def enc_group_def group_same_def group_ok_def option.map_ident comp_def)
qed

interpretation group_doc: json_doc enc_group dec_group group_ok group_same
  by unfold_locales (rule group_round_trip)

section \<open>Loading the directory\<close>

definition groups_file :: "string \<Rightarrow> string \<Rightarrow> string" where
  "groups_file dir gid = dir @ ''/'' @ gid @ ''.json''"

definition disk_group :: "string \<Rightarrow> docs \<Rightarrow> string \<Rightarrow> GroupState option" where
  "disk_group dir d gid = (case map_of (dc_files d) (groups_file dir gid) of Some (JsonDoc j) \<Rightarrow> dec_group j | _ \<Rightarrow> None)"

text \<open>Every group file parses and names its group.\<close>

definition groups_dir_ok :: "string \<Rightarrow> docs \<Rightarrow> bool" where
  "groups_dir_ok dir d \<longleftrightarrow>
     (\<forall>gid. CHR ''/'' \<notin> set gid \<longrightarrow> map_of (dc_files d) (groups_file dir gid) \<noteq> None \<longrightarrow>
        (\<exists>g. disk_group dir d gid = Some g \<and> gs_GroupID g = gid \<and> gid \<noteq> []))"

lemma ReadDir_ok:
  assumes "dc_plan d = []"
  obtains names where "ReadDir dir d = (Some names, d)"
    "\<And>name. name \<in> set names \<longleftrightarrow> CHR ''/'' \<notin> set name \<and> map_of (dc_files d) (dir @ ''/'' @ name) \<noteq> None"
proof -
  define names where "names = sort (remdups [drop (length dir + 1) p. p \<leftarrow> map fst (dc_files d),
              take (length dir + 1) p = dir @ ''/'', CHR ''/'' \<notin> set (drop (length dir + 1) p)])"
  have "name \<in> set names \<longleftrightarrow> CHR ''/'' \<notin> set name \<and> map_of (dc_files d) (dir @ ''/'' @ name) \<noteq> None" for name
  proof -
    have "name \<in> set names \<longleftrightarrow> (\<exists>p \<in> fst ` set (dc_files d). take (length dir + 1) p = dir @ ''/'' \<and>
        CHR ''/'' \<notin> set (drop (length dir + 1) p) \<and> name = drop (length dir + 1) p)"
      by (auto simp: names_def)
    also have "\<dots> \<longleftrightarrow> CHR ''/'' \<notin> set name \<and> dir @ ''/'' @ name \<in> fst ` set (dc_files d)" (is "?L \<longleftrightarrow> ?R")
    proof
      assume ?L
      then obtain p where p: "p \<in> fst ` set (dc_files d)" "take (length dir + 1) p = dir @ ''/''"
        "CHR ''/'' \<notin> set name" "name = drop (length dir + 1) p" by blast
      have "p = dir @ ''/'' @ name" using append_take_drop_id [of "length dir + 1" p] unfolding p(2) p(4) [symmetric] by simp
      then show ?R using p by simp
    next
      assume ?R
      then show ?L by (intro bexI [of _ "dir @ ''/'' @ name"]) auto
    qed
    finally show ?thesis by (metis map_of_eq_None_iff)
  qed
  then show ?thesis using that [of names] assms by (simp add: ReadDir_def dc_next_def names_def)
qed

lemma load_groups_ok:
  assumes "dc_plan d = []" "groups_dir_ok dir d"
    "\<And>name. name \<in> set names \<Longrightarrow> CHR ''/'' \<notin> set name \<and> map_of (dc_files d) (dir @ ''/'' @ name) \<noteq> None"
  shows "\<exists>gs'. load_groups dir names gs d = (Inr gs', d) \<and>
    (\<forall>gid. map_of gs' gid = (if gid @ ''.json'' \<in> set names then disk_group dir d gid else map_of gs gid))"
  using assms(3)
proof (induction names arbitrary: gs)
  case (Cons name names)
  show ?case
  proof (cases "suffix ''.json'' name")
    case False
    then have "gid @ ''.json'' \<noteq> name" for gid by (auto simp: suffix_def)
    then show ?thesis using Cons False by simp
  next
    case True
    then obtain gid where n: "name = gid @ ''.json''" by (auto simp: suffix_def)
    have "CHR ''/'' \<notin> set gid" "map_of (dc_files d) (groups_file dir gid) \<noteq> None"
      using Cons.prems [of name] n by (auto simp: groups_file_def)
    then obtain g where g: "disk_group dir d gid = Some g" "gs_GroupID g = gid" "gid \<noteq> []"
      using assms(2) unfolding groups_dir_ok_def by blast
    then obtain j where j: "map_of (dc_files d) (dir @ ''/'' @ name) = Some (JsonDoc j)" "dec_group j = Some g"
      by (auto simp: disk_group_def groups_file_def n split: option.splits doc.splits)
    obtain gs' where I: "load_groups dir names (AList.update gid g gs) d = (Inr gs', d)"
      "\<And>x. map_of gs' x = (if x @ ''.json'' \<in> set names then disk_group dir d x else map_of (AList.update gid g gs) x)"
      using Cons.IH [of "AList.update gid g gs"] Cons.prems by auto
    have "load_groups dir (name # names) gs d = (Inr gs', d)"
      using True j g I(1) assms(1) by (simp add: ReadFile_def dc_next_def Let_def)
    moreover have "map_of gs' x = (if x @ ''.json'' \<in> set (name # names) then disk_group dir d x else map_of gs x)" for x
      using I(2) [of x] g(1) n by (auto simp: update_conv')
    ultimately show ?thesis by blast
  qed
qed simp

lemma NewOffsetStore_ok:
  assumes "dc_plan d = []" "groups_dir_ok (dataDir @ ''/groups'') d"
  obtains s where "NewOffsetStore dataDir d = (Inr s, d)" "os_dir s = dataDir @ ''/groups''"
    "\<And>gid. CHR ''/'' \<notin> set gid \<Longrightarrow> map_of (os_groups s) gid = disk_group (dataDir @ ''/groups'') d gid"
proof -
  let ?dir = "dataDir @ ''/groups''"
  obtain names where R: "ReadDir ?dir d = (Some names, d)"
    "\<And>name. name \<in> set names \<longleftrightarrow> CHR ''/'' \<notin> set name \<and> map_of (dc_files d) (?dir @ ''/'' @ name) \<noteq> None"
    using ReadDir_ok [OF assms(1)] by blast
  obtain gs where L: "load_groups ?dir names [] d = (Inr gs, d)"
    "\<And>gid. map_of gs gid = (if gid @ ''.json'' \<in> set names then disk_group ?dir d gid else None)"
    using load_groups_ok [OF assms, of names "[]"] R(2) by auto
  have "map_of gs gid = disk_group ?dir d gid" if "CHR ''/'' \<notin> set gid" for gid
    using L(2) [of gid] R(2) [of "gid @ ''.json''"] that by (auto simp: disk_group_def groups_file_def)
  then show ?thesis
    using that [of "\<lparr>os_dir = ?dir, os_groups = gs\<rparr>"] L(1) R(1) assms(1)
    by (simp add: NewOffsetStore_def MkdirAll_def dc_next_def Let_def)
qed

section \<open>Properties\<close>

text \<open>The invariant of the store in memory: each entry is well-formed and carries its key as its id.\<close>

definition store_ok :: "OffsetStore \<Rightarrow> bool" where
  "store_ok s \<longleftrightarrow> (\<forall>gid g. map_of (os_groups s) gid = Some g \<longrightarrow> group_ok g \<and> gs_GroupID g = gid)"

lemma commit_in_group_ok:
  assumes "group_ok g" "i32 part = part" "committed_ok co"
  shows "group_ok (commit_in_group topic part co g)"
proof -
  let ?ps = "case map_of (gs_Offsets g) topic of None \<Rightarrow> [] | Some ps \<Rightarrow> ps"
  have "parts_ok ?ps"
    using assms(1) by (auto simp: group_ok_def parts_ok_def dest: map_of_SomeD split: option.splits)
  then have "parts_ok (AList.update part co ?ps)"
    using assms(2,3) set_update_subset [of part co ?ps] distinct_update [of ?ps part co] by (auto simp: parts_ok_def)
  then show ?thesis
    using assms(1) set_update_subset [of topic "AList.update part co ?ps" "gs_Offsets g"]
      distinct_update [of "gs_Offsets g" topic]
    by (auto simp: group_ok_def commit_in_group_def Let_def)
qed

lemma new_group_ok: "i64 now = now \<Longrightarrow> group_ok (new_group gid now) \<and> gs_GroupID (new_group gid now) = gid"
  by (simp add: new_group_def group_ok_def i32_id)

lemma store_Get_ok: "store_ok s \<Longrightarrow> i64 now = now \<Longrightarrow> store_Get gid now s = (g, s') \<Longrightarrow>
    group_ok g \<and> gs_GroupID g = gid \<and> store_ok s' \<and> os_dir s' = os_dir s \<and> map_of (os_groups s') gid = Some g \<and>
    (\<forall>x. x \<noteq> gid \<longrightarrow> map_of (os_groups s') x = map_of (os_groups s) x)"
  using new_group_ok [of now gid]
  by (cases "map_of (os_groups s) gid") (auto simp: store_ok_def store_Get_def update_conv' Let_def split: if_splits)

lemma CommitOffset_result:
  assumes "store_ok s" "CommitOffset gid topic part off epoch md now s d = (None, s', d')" "i64 now = now"
    "i64 off = off" "i32 part = part" "i32 epoch = epoch"
  obtains g where "group_ok g" "gs_GroupID g = gid" "gid \<noteq> []" "CHR ''/'' \<notin> set gid" "store_ok s'" "os_dir s' = os_dir s"
    "map_of (os_groups s') gid = Some g" "atomicWrite (groups_file (os_dir s) gid) (enc_group g) d = (True, d')"
    "\<forall>x. x \<noteq> gid \<longrightarrow> map_of (os_groups s') x = map_of (os_groups s) x"
    "\<exists>ps. map_of (gs_Offsets g) topic = Some ps \<and>
       map_of ps part = Some \<lparr>co_Offset = off, co_LeaderEpoch = epoch, co_Metadata = md, co_CommitTimestamp = now\<rparr>"
proof -
  let ?co = "\<lparr>co_Offset = off, co_LeaderEpoch = epoch, co_Metadata = md, co_CommitTimestamp = now\<rparr>"
  obtain g0 s0 where G: "store_Get gid now s = (g0, s0)" by fastforce
  note g0 = store_Get_ok [OF assms(1,3) G]
  define g where "g = (commit_in_group topic part ?co g0)\<lparr>gs_UpdatedAt := now\<rparr>"
  have "committed_ok ?co" using assms(3,4,6) by (simp add: committed_ok_def)
  then have g: "group_ok g" "gs_GroupID g = gid"
    using commit_in_group_ok [of g0 part ?co topic] g0 assms(3,5)
    by (auto simp: g_def group_ok_def commit_in_group_def Let_def)
  have v: "ValidateName gid = None"
    using assms(2) by (auto simp: CommitOffset_def split: option.splits)
  then have P: "Persist g0' now s0 d = (None, s', d')" if "g0' = commit_in_group topic part ?co g0" for g0'
    using assms(2) G that by (auto simp: CommitOffset_def split: option.splits)
  have s': "s' = s0\<lparr>os_groups := AList.update gid g (os_groups s0)\<rparr>"
    "atomicWrite (groups_file (os_dir s) gid) (enc_group g) d = (True, d')"
    using P [OF refl] g(2) g0
    by (auto simp: Persist_def Let_def g_def group_path_def groups_file_def commit_in_group_def split: prod.splits if_splits)
  have gid: "gid \<noteq> []" "CHR ''/'' \<notin> set gid"
    using v name_char_not_special by (auto simp: ValidateName_None)
  show ?thesis
  proof (rule that [of g])
    show "store_ok s'" using g0 g s'(1) by (auto simp: store_ok_def update_conv')
    show "\<exists>ps. map_of (gs_Offsets g) topic = Some ps \<and> map_of ps part = Some ?co"
      by (auto simp: g_def commit_in_group_def Let_def update_conv')
  qed (use g0 g s' gid in \<open>auto simp: update_conv'\<close>)
qed

text \<open>
  A committed offset is what a fetch returns. After a successful commit the offset, epoch and
  metadata are returned for that group, topic and partition, every other group's answers are
  unchanged, and the store keeps its invariant.
\<close>

theorem commit_then_fetch:
  assumes "store_ok s" "CommitOffset gid topic part off epoch md now s d = (None, s', d')" "i64 now = now"
    "i64 off = off" "i32 part = part" "i32 epoch = epoch"
  shows "store_ok s' \<and>
    FetchOffset gid topic part s' = \<lparr>co_Offset = off, co_LeaderEpoch = epoch, co_Metadata = md, co_CommitTimestamp = now\<rparr> \<and>
    (\<forall>gid' t p. gid' \<noteq> gid \<longrightarrow> FetchOffset gid' t p s' = FetchOffset gid' t p s)"
  by (rule CommitOffset_result [OF assms]) (auto simp: FetchOffset_def)

lemma groups_file_inject [simp]: "groups_file dir a = groups_file dir b \<longleftrightarrow> a = b"
  by (simp add: groups_file_def)

lemma groups_file_not_tmp: "groups_file dir a \<noteq> tmp_path (groups_file dir b)"
proof
  assume "groups_file dir a = tmp_path (groups_file dir b)"
  then have "last (groups_file dir a) = last (tmp_path (groups_file dir b))" by simp
  then show False by (simp add: groups_file_def)
qed


text \<open>A first commit into an empty data directory.\<close>

definition empty_store :: OffsetStore where
  "empty_store = \<lparr>os_dir = ''data/groups'', os_groups = []\<rparr>"

lemma commit_example:
  obtains s' d' where "CommitOffset ''g'' ''t'' 0 42 0 [] 5 empty_store \<lparr>dc_plan = [], dc_files = []\<rparr> = (None, s', d')" "dc_plan d' = []"
proof -
  have "ValidateName ''g'' = None" "ValidateName ''t'' = None" by code_simp+
  then show ?thesis
    using that by (simp add: CommitOffset_def Persist_def store_Get_def empty_store_def Let_def atomicWrite_def
        WriteFile_def Rename_def dc_next_def update_conv')
qed

theorem commit_then_fetch_witness:
  "\<exists>s' d'. CommitOffset ''g'' ''t'' 0 42 0 [] 5 empty_store \<lparr>dc_plan = [], dc_files = []\<rparr> = (None, s', d') \<and>
     co_Offset (FetchOffset ''g'' ''t'' 0 s') = 42"
proof -
  obtain s' d' where c: "CommitOffset ''g'' ''t'' 0 42 0 [] 5 empty_store \<lparr>dc_plan = [], dc_files = []\<rparr> = (None, s', d')"
    using commit_example by blast
  have "store_ok empty_store" by (simp add: store_ok_def empty_store_def)
  from commit_then_fetch [OF this c] show ?thesis using c by (auto simp: wrap_s_def)
qed


end
