(* ===== verification/Group_Coordinator.thy ===== *)
theory Group_Coordinator
  imports Offset_Store
begin

text \<open>
  The consumer-group coordinator (\<^verbatim>\<open>internal/broker/group.go\<close>). Every section that holds the
  coordinator's mutex is one atomic operation: a \<^verbatim>\<open>JoinGroup\<close> or \<^verbatim>\<open>SyncGroup\<close> call that blocks is an
  entering operation and a waking one, with any other operations between. Rebalance rounds live in a
  heap, because a blocked caller keeps its pointer after the group has moved on to the next round.
  The central result is that in every interleaving each generation has one leader that sees all of it.
\<close>

section \<open>State\<close>

datatype GroupStatus = GroupEmpty | GroupPreparingRebalance | GroupCompletingRebalance | GroupStable | GroupDead

fun GroupStatus_String :: "GroupStatus \<Rightarrow> string" where
  "GroupStatus_String GroupEmpty = ''Empty''"
| "GroupStatus_String GroupPreparingRebalance = ''PreparingRebalance''"
| "GroupStatus_String GroupCompletingRebalance = ''CompletingRebalance''"
| "GroupStatus_String GroupStable = ''Stable''"
| "GroupStatus_String GroupDead = ''Dead''"

record GroupProtocol =
  pt_Name :: string
  pt_Metadata :: bytes

record JoinGroupMember =
  jm_MemberID :: string
  jm_Metadata :: bytes

record JoinGroupResult =
  jr_GroupID :: string
  jr_Generation :: int
  jr_ProtocolType :: string
  jr_Protocol :: string
  jr_LeaderID :: string
  jr_MemberID :: string
  jr_IsLeader :: bool
  jr_Members :: "JoinGroupMember list"
  jr_ErrorCode :: int
  jr_NeedRejoin :: bool

record JoinGroupArgs =
  ja_GroupID :: string
  ja_MemberID :: string
  ja_GroupInstanceID :: string
  ja_ClientID :: string
  ja_ClientHost :: string
  ja_SessionTimeoutMS :: int
  ja_RebalanceTimeoutMS :: int
  ja_ProtocolType :: string
  ja_Protocols :: "GroupProtocol list"
  ja_APIVersion :: int

text \<open>\<open>rr_closed\<close> and \<open>rr_synced\<close> are also the state of the channels \<^verbatim>\<open>done\<close> and \<^verbatim>\<open>sync\<close>.\<close>

record rebalanceRound =
  rr_results :: "(string \<times> JoinGroupResult) list"
  rr_joined :: "string list"
  rr_expected :: "string list"
  rr_deadline :: int
  rr_closed :: bool
  rr_synced :: bool

text \<open>
  \<^verbatim>\<open>persisted\<close> points to the store's record of the group, so it is looked up there. The field
  \<^verbatim>\<open>pending\<close> is never used.
\<close>

record liveGroup =
  lv_state :: GroupStatus
  lv_heartbeats :: "(string \<times> int) list"
  lv_leader :: string
  lv_protocolType :: string
  lv_protocols :: "GroupProtocol list"
  lv_round :: "nat option"

record GroupCoordinator =
  gc_store :: OffsetStore
  gc_live :: "(string \<times> liveGroup) list"
  gc_rounds :: "(nat \<times> rebalanceRound) list"
  gc_next :: nat

abbreviation invalidGroupID :: int where "invalidGroupID \<equiv> 24"
abbreviation memberIDRequired :: int where "memberIDRequired \<equiv> 79"
abbreviation illegalGeneration :: int where "illegalGeneration \<equiv> 22"
abbreviation unknownMember :: int where "unknownMember \<equiv> 25"
abbreviation rebalanceInProgress :: int where "rebalanceInProgress \<equiv> 27"

abbreviation unix_milli :: "int \<Rightarrow> int" where "unix_milli now \<equiv> now div 1000000"

definition new_live :: liveGroup where
  "new_live = \<lparr>lv_state = GroupEmpty, lv_heartbeats = [], lv_leader = [], lv_protocolType = [], lv_protocols = [],
     lv_round = None\<rparr>"

definition NewGroupCoordinator :: "OffsetStore \<Rightarrow> GroupCoordinator" where
  "NewGroupCoordinator store =
     \<lparr>gc_store = store, gc_live = map (\<lambda>g. (gs_GroupID g, new_live)) (store_All store), gc_rounds = [], gc_next = 0\<rparr>"

definition put_group :: "GroupState \<Rightarrow> GroupCoordinator \<Rightarrow> GroupCoordinator" where
  "put_group g c = c\<lparr>gc_store := (gc_store c)\<lparr>os_groups := AList.update (gs_GroupID g) g (os_groups (gc_store c))\<rparr>\<rparr>"

definition put_live :: "string \<Rightarrow> liveGroup \<Rightarrow> GroupCoordinator \<Rightarrow> GroupCoordinator" where
  "put_live gid lg c = c\<lparr>gc_live := AList.update gid lg (gc_live c)\<rparr>"

definition put_round :: "nat \<Rightarrow> rebalanceRound \<Rightarrow> GroupCoordinator \<Rightarrow> GroupCoordinator" where
  "put_round rid r c = c\<lparr>gc_rounds := AList.update rid r (gc_rounds c)\<rparr>"

definition group_of :: "string \<Rightarrow> GroupCoordinator \<Rightarrow> GroupState" where
  "group_of gid c = (case map_of (os_groups (gc_store c)) gid of Some g \<Rightarrow> g | None \<Rightarrow> new_group gid 0)"

definition findOrCreate :: "string \<Rightarrow> int \<Rightarrow> GroupCoordinator \<Rightarrow> liveGroup \<times> GroupState \<times> GroupCoordinator" where
  "findOrCreate gid now c =
     (case map_of (gc_live c) gid of
        Some lg \<Rightarrow> (lg, group_of gid c, c)
      | None \<Rightarrow>
          (case store_Get gid (unix_milli now) (gc_store c) of
             (g, store) \<Rightarrow> (new_live, g, put_live gid new_live (c\<lparr>gc_store := store\<rparr>))))"

section \<open>Members\<close>

text \<open>\<^verbatim>\<open>delete(members, id); delete(heartbeats, id); if leader == id \{leader = ""\}\<close>, as several places do it.\<close>

definition drop_member :: "string \<Rightarrow> liveGroup \<times> GroupState \<Rightarrow> liveGroup \<times> GroupState" where
  "drop_member mid = (\<lambda>(lg, g).
     (lg\<lparr>lv_heartbeats := AList.delete mid (lv_heartbeats lg),
         lv_leader := (if lv_leader lg = mid then [] else lv_leader lg)\<rparr>,
      g\<lparr>gs_Members := AList.delete mid (gs_Members g)\<rparr>))"

definition evict_after :: "MemberState \<Rightarrow> int" where
  "evict_after m =
     (let sto = i64 (ms_SessionTimeoutMS m * 1000000);
          sto = (if sto \<le> 0 then 30 * 1000000000 else sto)
      in if 3 * 1000000000 < sto then 3 * 1000000000 else sto)"

text \<open>The loop ranges over the member map while deleting from it; a member without heartbeat has none to delete.\<close>

fun evict_loop :: "(string \<times> MemberState) list \<Rightarrow> int \<Rightarrow> bool \<Rightarrow> liveGroup \<times> GroupState \<Rightarrow> bool \<times> liveGroup \<times> GroupState" where
  "evict_loop [] now evicted s = (evicted, s)"
| "evict_loop ((memberID, m) # ms) now evicted (lg, g) =
     (case map_of (lv_heartbeats lg) memberID of
        None \<Rightarrow> evict_loop ms now True (drop_member memberID (lg, g))
      | Some hb \<Rightarrow>
          if time_sub now hb > evict_after m then evict_loop ms now True (drop_member memberID (lg, g))
          else evict_loop ms now evicted (lg, g))"

definition evictExpired :: "int \<Rightarrow> liveGroup \<times> GroupState \<Rightarrow> bool \<times> liveGroup \<times> GroupState" where
  "evictExpired now s =
     (if gs_Members (snd s) = [] then (False, s) else evict_loop (gs_Members (snd s)) now False s)"

text \<open>Prior incarnations of a fresh process: members with its client id.\<close>

fun drop_incarnations :: "(string \<times> MemberState) list \<Rightarrow> string \<Rightarrow> liveGroup \<times> GroupState \<Rightarrow> liveGroup \<times> GroupState" where
  "drop_incarnations [] clientID s = s"
| "drop_incarnations ((existingID, existing) # ms) clientID s =
     (if ms_ClientID existing \<noteq> clientID then drop_incarnations ms clientID s
      else drop_incarnations ms clientID (drop_member existingID s))"

definition sanitizeClientID :: "string \<Rightarrow> string" where
  "sanitizeClientID s =
     (if s = [] then ''client''
      else let out = filter name_char s in if out = [] then ''client'' else out)"

text \<open>\<open>rnd\<close> are the eight bytes \<^verbatim>\<open>crypto/rand\<close> delivers.\<close>

definition newMemberID :: "bytes \<Rightarrow> string \<Rightarrow> string" where
  "newMemberID rnd clientID = sanitizeClientID clientID @ ''-'' @ hex_encode rnd"

definition pickLeader :: "(string \<times> MemberState) list \<Rightarrow> string" where
  "pickLeader members = (if members = [] then [] else hd (sort (map fst members)))"

definition joinGroupSubscriptionBytes :: "GroupProtocol list \<Rightarrow> bytes" where
  "joinGroupSubscriptionBytes ps = (if ps = [] then [] else pt_Metadata (hd ps))"

section \<open>Protocol choice\<close>

definition decodeProtocolNames :: "MemberState \<Rightarrow> string list" where
  "decodeProtocolNames m = (if length (ms_Protocols m) > 0 then ms_Protocols m else [])"

text \<open>One member's names into the counts and the order of first appearance.\<close>

fun count_names :: "string list \<Rightarrow> string list \<Rightarrow> (string \<times> nat) list \<times> string list \<Rightarrow> (string \<times> nat) list \<times> string list" where
  "count_names [] seen acc = acc"
| "count_names (n # ns) seen (counts, order) =
     (if n \<in> set seen then count_names ns seen (counts, order)
      else
        let k = (case map_of counts n of None \<Rightarrow> 0 | Some k \<Rightarrow> k) in
        count_names ns (n # seen) (AList.update n (k + 1) counts, (if k = 0 then order @ [n] else order)))"

text \<open>The association list's order stands for Go's unspecified order of iteration over the members.\<close>

definition pickCommonProtocol :: "(string \<times> MemberState) list \<Rightarrow> GroupProtocol list \<Rightarrow> string" where
  "pickCommonProtocol members protocols =
     (case foldl (\<lambda>acc (id, m). count_names (decodeProtocolNames m) [] acc) ([], []) members of
        (counts, order) \<Rightarrow>
          (case find (\<lambda>n. map_of counts n = Some (length members)) order of
             Some n \<Rightarrow> n
           | None \<Rightarrow> (if protocols \<noteq> [] then pt_Name (hd protocols) else [])))"

section \<open>Rounds\<close>

definition allRejoined :: "rebalanceRound \<Rightarrow> bool" where
  "allRejoined r \<longleftrightarrow> (\<forall>id \<in> set (rr_expected r). id \<in> set (rr_joined r))"

fun drop_absent :: "string list \<Rightarrow> string list \<Rightarrow> liveGroup \<times> GroupState \<Rightarrow> liveGroup \<times> GroupState" where
  "drop_absent [] joined s = s"
| "drop_absent (mid # ids) joined s =
     (if mid \<in> set joined then drop_absent ids joined s else drop_absent ids joined (drop_member mid s))"

definition join_result :: "string \<Rightarrow> liveGroup \<Rightarrow> GroupState \<Rightarrow> JoinGroupMember list \<Rightarrow> string \<Rightarrow> JoinGroupResult" where
  "join_result gid lg g members mid =
     \<lparr>jr_GroupID = gid, jr_Generation = gs_Generation g, jr_ProtocolType = gs_ProtocolType g, jr_Protocol = gs_Protocol g,
      jr_LeaderID = lv_leader lg, jr_MemberID = mid, jr_IsLeader = (mid = lv_leader lg),
      jr_Members = (if mid = lv_leader lg then members else []), jr_ErrorCode = 0, jr_NeedRejoin = False\<rparr>"

text \<open>\<open>settle\<close> is \<^verbatim>\<open>closeRound\<close> up to the result map: prune, elect, count the generation.\<close>

definition settle :: "rebalanceRound \<Rightarrow> liveGroup \<times> GroupState \<Rightarrow> liveGroup \<times> GroupState" where
  "settle r s =
     (case drop_absent (map fst (gs_Members (snd s))) (rr_joined r) s of
        (lg, g) \<Rightarrow>
          let lg = (if lv_leader lg = [] \<or> map_of (gs_Members g) (lv_leader lg) = None
                    then lg\<lparr>lv_leader := pickLeader (gs_Members g)\<rparr> else lg);
              g = g\<lparr>gs_Generation := i32 (gs_Generation g + 1), gs_Leader := lv_leader lg,
                    gs_ProtocolType := lv_protocolType lg,
                    gs_Protocol := pickCommonProtocol (gs_Members g) (lv_protocols lg)\<rparr>
          in (lg\<lparr>lv_state := GroupCompletingRebalance\<rparr>, g))"

definition group_members :: "GroupState \<Rightarrow> JoinGroupMember list" where
  "group_members g =
     sort_key jm_MemberID (map (\<lambda>(id, mm). \<lparr>jm_MemberID = ms_MemberID mm, jm_Metadata = ms_Subscription mm\<rparr>) (gs_Members g))"

definition round_results ::
  "string \<Rightarrow> liveGroup \<Rightarrow> GroupState \<Rightarrow> rebalanceRound \<Rightarrow> (string \<times> JoinGroupResult) list" where
  "round_results gid lg g r =
     foldl (\<lambda>res id. if map_of (gs_Members g) id = None then res
                     else AList.update id (join_result gid lg g (group_members g) id) res)
       (rr_results r) (rr_joined r)"

definition closeRound :: "string \<Rightarrow> nat \<Rightarrow> rebalanceRound \<Rightarrow> liveGroup \<Rightarrow> GroupState \<Rightarrow> int \<Rightarrow> GroupCoordinator \<Rightarrow> docs \<Rightarrow>
    GroupCoordinator \<times> docs" where
  "closeRound gid rid r lg g now c d =
     (if rr_closed r then (c, d)
      else
        case settle r (lg, g) of
          (lg, g) \<Rightarrow>
            let r = r\<lparr>rr_closed := True, rr_results := round_results gid lg g r\<rparr> in
            (case Persist g (unix_milli now) (gc_store c) d of
               (_, store, d) \<Rightarrow> (put_round rid r (put_live gid lg (c\<lparr>gc_store := store\<rparr>)), d)))"

section \<open>JoinGroup\<close>

definition no_result :: JoinGroupResult where
  "no_result = \<lparr>jr_GroupID = [], jr_Generation = 0, jr_ProtocolType = [], jr_Protocol = [], jr_LeaderID = [], jr_MemberID = [],
     jr_IsLeader = False, jr_Members = [], jr_ErrorCode = 0, jr_NeedRejoin = False\<rparr>"

definition join_error :: "string \<Rightarrow> string \<Rightarrow> int \<Rightarrow> JoinGroupResult" where
  "join_error gid memberID err = no_result\<lparr>jr_GroupID := gid, jr_MemberID := memberID, jr_ErrorCode := err\<rparr>"

definition round_wait :: "JoinGroupArgs \<Rightarrow> int" where
  "round_wait args =
     (let wait = 3 * 1000000000; t = i64 (ja_RebalanceTimeoutMS args * 1000000)
      in if ja_RebalanceTimeoutMS args > 0 \<and> t < wait then t else wait)"

text \<open>The group's open round, or a new one whose expected members are the present ones.\<close>

definition open_round :: "JoinGroupArgs \<Rightarrow> int \<Rightarrow> liveGroup \<Rightarrow> GroupState \<Rightarrow> GroupCoordinator \<Rightarrow>
    nat \<times> rebalanceRound \<times> liveGroup \<times> GroupCoordinator" where
  "open_round args now lg g c =
     (let fresh = \<lparr>rr_results = [], rr_joined = [], rr_expected = map fst (gs_Members g), rr_deadline = now + round_wait args,
                   rr_closed = False, rr_synced = False\<rparr>;
          start = (gc_next c, fresh, lg\<lparr>lv_round := Some (gc_next c), lv_state := GroupPreparingRebalance\<rparr>,
                   c\<lparr>gc_next := Suc (gc_next c)\<rparr>)
      in case lv_round lg of
           None \<Rightarrow> start
         | Some rid \<Rightarrow>
             (case map_of (gc_rounds c) rid of
                None \<Rightarrow> start
              | Some r \<Rightarrow> (if rr_closed r then start else (rid, r, lg, c))))"

definition join_member :: "JoinGroupArgs \<Rightarrow> string \<Rightarrow> MemberState" where
  "join_member args memberID =
     \<lparr>ms_MemberID = memberID, ms_ClientID = ja_ClientID args, ms_ClientHost = ja_ClientHost args,
      ms_SessionTimeoutMS = ja_SessionTimeoutMS args, ms_RebalanceTimeoutMS = ja_RebalanceTimeoutMS args,
      ms_Subscription = joinGroupSubscriptionBytes (ja_Protocols args), ms_Assignment = [],
      ms_Protocols = map pt_Name (ja_Protocols args)\<rparr>"

text \<open>From opening the round to releasing the mutex; the caller then waits for round \<open>rid\<close>.\<close>

definition join_round :: "JoinGroupArgs \<Rightarrow> string \<Rightarrow> int \<Rightarrow> liveGroup \<Rightarrow> GroupState \<Rightarrow> GroupCoordinator \<Rightarrow> docs \<Rightarrow>
    nat \<times> GroupCoordinator \<times> docs" where
  "join_round args memberID now lg g c d =
     (case open_round args now lg g c of
        (rid, r, lg, c) \<Rightarrow>
          let g = g\<lparr>gs_Members := AList.update memberID (join_member args memberID) (gs_Members g)\<rparr>;
              lg = lg\<lparr>lv_heartbeats := AList.update memberID now (lv_heartbeats lg),
                      lv_protocolType := ja_ProtocolType args, lv_protocols := ja_Protocols args\<rparr>;
              r = r\<lparr>rr_joined := List.insert memberID (rr_joined r)\<rparr>;
              c = put_round rid r (put_live (ja_GroupID args) lg (put_group g c))
          in if rr_expected r \<noteq> [] \<and> allRejoined r
             then (case closeRound (ja_GroupID args) rid r lg g now c d of (c, d) \<Rightarrow> (rid, c, d))
             else (rid, c, d))"

definition JoinGroup_enter :: "JoinGroupArgs \<Rightarrow> int \<Rightarrow> bytes \<Rightarrow> GroupCoordinator \<Rightarrow> docs \<Rightarrow>
    (JoinGroupResult + string \<times> nat) \<times> GroupCoordinator \<times> docs" where
  "JoinGroup_enter args now rnd c d =
     (let gid = ja_GroupID args in
      if ValidateName gid \<noteq> None then (Inl (no_result\<lparr>jr_ErrorCode := invalidGroupID\<rparr>), c, d)
      else case findOrCreate gid now c of
        (lg, g, c) \<Rightarrow>
          (case evictExpired now (lg, g) of
             (_, lg, g) \<Rightarrow>
               if ja_MemberID args = [] then
                 let (lg, g) = (if ja_ClientID args \<noteq> [] then drop_incarnations (gs_Members g) (ja_ClientID args) (lg, g) else (lg, g));
                     memberID = newMemberID rnd (ja_ClientID args)
                 in if ja_APIVersion args \<ge> 4
                    then (Inl ((join_error gid memberID memberIDRequired)\<lparr>jr_NeedRejoin := True\<rparr>), put_live gid lg (put_group g c), d)
                    else (case join_round args memberID now lg g c d of (rid, c, d) \<Rightarrow> (Inr (memberID, rid), c, d))
               else (case join_round args (ja_MemberID args) now lg g c d of (rid, c, d) \<Rightarrow> (Inr (ja_MemberID args, rid), c, d))))"

text \<open>
  The \<^verbatim>\<open>select\<close> takes the timer's branch (\<open>timeout\<close>) or that of the decided round; while the round is
  open the latter is not ready (\<open>None\<close>).
\<close>

definition JoinGroup_wake :: "string \<Rightarrow> string \<Rightarrow> nat \<Rightarrow> bool \<Rightarrow> GroupCoordinator \<Rightarrow> JoinGroupResult option" where
  "JoinGroup_wake gid memberID rid timeout c =
     (if timeout then Some (join_error gid memberID rebalanceInProgress)
      else case map_of (gc_rounds c) rid of
        None \<Rightarrow> None
      | Some r \<Rightarrow>
          if \<not> rr_closed r then None
          else case map_of (rr_results r) memberID of
            None \<Rightarrow> Some (join_error gid memberID rebalanceInProgress)
          | Some res \<Rightarrow> Some res)"

text \<open>The timer goroutine of a round, run once its deadline has passed.\<close>

definition expireRound :: "string \<Rightarrow> nat \<Rightarrow> int \<Rightarrow> GroupCoordinator \<Rightarrow> docs \<Rightarrow> GroupCoordinator \<times> docs" where
  "expireRound gid rid now c d =
     (case (map_of (gc_live c) gid, map_of (gc_rounds c) rid) of
        (Some lg, Some r) \<Rightarrow>
          if lv_round lg \<noteq> Some rid \<or> rr_closed r then (c, d)
          else closeRound gid rid r lg (group_of gid c) now c d
      | _ \<Rightarrow> (c, d))"

section \<open>SyncGroup, Heartbeat, LeaveGroup\<close>

record SyncGroupResult =
  sr_Assignment :: bytes
  sr_ErrorCode :: int

datatype sync_out = SyncDone SyncGroupResult | SyncFail offset_err | SyncWait nat

abbreviation sync_error :: "int \<Rightarrow> SyncGroupResult" where
  "sync_error err \<equiv> \<lparr>sr_Assignment = [], sr_ErrorCode = err\<rparr>"

fun assign_members :: "(string \<times> bytes) list \<Rightarrow> (string \<times> MemberState) list \<Rightarrow> (string \<times> MemberState) list" where
  "assign_members [] ms = ms"
| "assign_members ((mid, a) # as) ms =
     assign_members as (case map_of ms mid of None \<Rightarrow> ms | Some mm \<Rightarrow> AList.update mid (mm\<lparr>ms_Assignment := a\<rparr>) ms)"

definition SyncGroup_enter :: "string \<Rightarrow> int \<Rightarrow> string \<Rightarrow> (string \<times> bytes) list \<Rightarrow> int \<Rightarrow> GroupCoordinator \<Rightarrow> docs \<Rightarrow>
    sync_out \<times> GroupCoordinator \<times> docs" where
  "SyncGroup_enter gid generation memberID assignments now c d =
     (case map_of (gc_live c) gid of
        None \<Rightarrow> (SyncDone (sync_error invalidGroupID), c, d)
      | Some lg \<Rightarrow>
          let g = group_of gid c in
          if gs_Generation g \<noteq> generation then (SyncDone (sync_error illegalGeneration), c, d)
          else case map_of (gs_Members g) memberID of
            None \<Rightarrow> (SyncDone (sync_error unknownMember), c, d)
          | Some m \<Rightarrow>
              let lg = lg\<lparr>lv_heartbeats := AList.update memberID now (lv_heartbeats lg)\<rparr>;
                  cur = (case lv_round lg of None \<Rightarrow> None | Some rid \<Rightarrow> map_option (Pair rid) (map_of (gc_rounds c) rid))
              in if memberID = lv_leader lg then
                   let g = g\<lparr>gs_Members := assign_members assignments (gs_Members g)\<rparr>;
                       lg = lg\<lparr>lv_state := GroupStable\<rparr>
                   in (case Persist g (unix_milli now) (gc_store c) d of
                         (Some e, store, d) \<Rightarrow> (SyncFail e, put_live gid lg (c\<lparr>gc_store := store\<rparr>), d)
                       | (None, store, d) \<Rightarrow>
                           let c = put_live gid lg (c\<lparr>gc_store := store\<rparr>);
                               c = (case cur of None \<Rightarrow> c
                                    | Some (rid, r) \<Rightarrow> (if rr_synced r then c else put_round rid (r\<lparr>rr_synced := True\<rparr>) c));
                               assignment = (case map_of (gs_Members g) memberID of None \<Rightarrow> [] | Some m \<Rightarrow> ms_Assignment m)
                           in (SyncDone \<lparr>sr_Assignment = assignment, sr_ErrorCode = 0\<rparr>, c, d))
                 else
                   (case cur of
                      None \<Rightarrow> (SyncDone \<lparr>sr_Assignment = ms_Assignment m, sr_ErrorCode = 0\<rparr>, put_live gid lg c, d)
                    | Some (rid, r) \<Rightarrow>
                        if rr_synced r then (SyncDone \<lparr>sr_Assignment = ms_Assignment m, sr_ErrorCode = 0\<rparr>, put_live gid lg c, d)
                        else (SyncWait rid, put_live gid lg c, d)))"

definition SyncGroup_wake :: "string \<Rightarrow> int \<Rightarrow> string \<Rightarrow> nat \<Rightarrow> bool \<Rightarrow> GroupCoordinator \<Rightarrow> SyncGroupResult option" where
  "SyncGroup_wake gid generation memberID rid timeout c =
     (if timeout then Some (sync_error rebalanceInProgress)
      else case map_of (gc_rounds c) rid of
        None \<Rightarrow> None
      | Some r \<Rightarrow>
          if \<not> rr_synced r then None
          else
            let g = group_of gid c in
            if gs_Generation g \<noteq> generation then Some (sync_error illegalGeneration)
            else case map_of (gs_Members g) memberID of
              None \<Rightarrow> Some (sync_error unknownMember)
            | Some mm \<Rightarrow> Some \<lparr>sr_Assignment = ms_Assignment mm, sr_ErrorCode = 0\<rparr>)"

definition Heartbeat :: "string \<Rightarrow> string \<Rightarrow> int \<Rightarrow> int \<Rightarrow> GroupCoordinator \<Rightarrow> int \<times> GroupCoordinator" where
  "Heartbeat gid memberID generation now c =
     (case map_of (gc_live c) gid of
        None \<Rightarrow> (invalidGroupID, c)
      | Some lg \<Rightarrow>
          let g = group_of gid c in
          if gs_Generation g \<noteq> generation then (illegalGeneration, c)
          else if map_of (gs_Members g) memberID = None then (unknownMember, c)
          else
            let c = put_live gid (lg\<lparr>lv_heartbeats := AList.update memberID now (lv_heartbeats lg)\<rparr>) c
            in if lv_state lg = GroupPreparingRebalance then (rebalanceInProgress, c) else (0, c))"

definition LeaveGroup :: "string \<Rightarrow> string \<Rightarrow> int \<Rightarrow> GroupCoordinator \<Rightarrow> docs \<Rightarrow> int \<times> GroupCoordinator \<times> docs" where
  "LeaveGroup gid memberID now c d =
     (case map_of (gc_live c) gid of
        None \<Rightarrow> (invalidGroupID, c, d)
      | Some lg \<Rightarrow>
          let g = group_of gid c in
          if map_of (gs_Members g) memberID = None then (unknownMember, c, d)
          else
            let g = g\<lparr>gs_Members := AList.delete memberID (gs_Members g)\<rparr>;
                led = lv_leader lg = memberID;
                lg = lg\<lparr>lv_heartbeats := AList.delete memberID (lv_heartbeats lg),
                        lv_leader := (if led then pickLeader (gs_Members g) else lv_leader lg)\<rparr>;
                g = (if led then g\<lparr>gs_Leader := lv_leader lg\<rparr> else g);
                lg = lg\<lparr>lv_state := (if gs_Members g = [] then GroupEmpty else GroupPreparingRebalance)\<rparr>
            in (case Persist g (unix_milli now) (gc_store c) d of
                  (_, store, d) \<Rightarrow> (0, put_live gid lg (c\<lparr>gc_store := store\<rparr>), d)))"

record MemberSnapshot =
  sn_MemberID :: string
  sn_ClientID :: string
  sn_ClientHost :: string
  sn_SessionTimeoutMS :: int
  sn_LastHeartbeat :: "int option"

record Snapshot =
  sn_GroupID :: string
  sn_State :: string
  sn_Generation :: int
  sn_Protocol :: string
  sn_Members :: "MemberSnapshot list"

definition AllGroups :: "GroupCoordinator \<Rightarrow> Snapshot list" where
  "AllGroups c = map (\<lambda>(gid, lg).
     \<lparr>sn_GroupID = gid, sn_State = GroupStatus_String (lv_state lg), sn_Generation = gs_Generation (group_of gid c),
      sn_Protocol = gs_Protocol (group_of gid c),
      sn_Members = map (\<lambda>(id, m). \<lparr>sn_MemberID = ms_MemberID m, sn_ClientID = ms_ClientID m, sn_ClientHost = ms_ClientHost m,
        sn_SessionTimeoutMS = ms_SessionTimeoutMS m, sn_LastHeartbeat = map_of (lv_heartbeats lg) (ms_MemberID m)\<rparr>)
        (gs_Members (group_of gid c))\<rparr>) (gc_live c)"

section \<open>Members, generations and rounds under each operation\<close>

named_theorems gc_simps

declare put_group_def [gc_simps] put_live_def [gc_simps] put_round_def [gc_simps]

definition members_ok :: "GroupState \<Rightarrow> bool" where
  "members_ok g \<longleftrightarrow> distinct (map fst (gs_Members g)) \<and> (\<forall>(k, m) \<in> set (gs_Members g). ms_MemberID m = k)"

definition trims :: "liveGroup \<times> GroupState \<Rightarrow> liveGroup \<times> GroupState \<Rightarrow> bool" where
  "trims s s' \<longleftrightarrow> gs_GroupID (snd s') = gs_GroupID (snd s) \<and> gs_Generation (snd s') = gs_Generation (snd s) \<and>
     (members_ok (snd s) \<longrightarrow> members_ok (snd s'))"

lemma trims_refl: "trims s s"
  by (simp add: trims_def)

lemma trims_trans: "trims s t \<Longrightarrow> trims t u \<Longrightarrow> trims s u"
  by (auto simp: trims_def)

lemma drop_member_members: "gs_Members (snd (drop_member mid s)) = filter (\<lambda>(k, m). k \<noteq> mid) (gs_Members (snd s))"
  by (cases s) (auto simp: drop_member_def AList.delete_eq intro!: filter_cong)

lemma members_ok_filter: "members_ok g \<Longrightarrow> gs_Members g' = filter P (gs_Members g) \<Longrightarrow> members_ok g'"
  by (auto simp: members_ok_def distinct_map_filter)

lemma trims_drop: "trims s (drop_member mid s)"
  using members_ok_filter [OF _ drop_member_members, of s mid] by (cases s) (auto simp: trims_def drop_member_def)

lemma trims_evict_loop: "trims s (snd (evict_loop ms now e s))"
  by (induction ms now e s rule: evict_loop.induct)
    (auto simp: trims_refl Let_def split: option.splits intro: trims_trans [OF trims_drop])

lemma trims_evictExpired: "trims s (snd (evictExpired now s))"
  by (simp add: evictExpired_def trims_refl trims_evict_loop)

lemma trims_drop_incarnations: "trims s (drop_incarnations ms cid s)"
  by (induction ms cid s rule: drop_incarnations.induct) (auto simp: trims_refl intro: trims_trans [OF trims_drop])

lemma trims_drop_absent: "trims s (drop_absent ids joined s)"
  by (induction ids joined s rule: drop_absent.induct) (auto simp: trims_refl intro: trims_trans [OF trims_drop])

lemma drop_absent_members:
  "gs_Members (snd (drop_absent ids joined s)) = filter (\<lambda>(k, m). k \<in> set joined \<or> k \<notin> set ids) (gs_Members (snd s))"
  by (induction ids joined s rule: drop_absent.induct) (auto simp: drop_member_members intro!: filter_cong)

lemma pickLeader_in: "ms \<noteq> [] \<Longrightarrow> pickLeader ms \<in> fst ` set ms"
proof -
  assume "ms \<noteq> []"
  then have "sort (map fst ms) \<noteq> []" by (metis length_0_conv length_map length_sort)
  then have "hd (sort (map fst ms)) \<in> set (sort (map fst ms))" by (rule hd_in_set)
  then show ?thesis using \<open>ms \<noteq> []\<close> by (simp add: pickLeader_def)
qed

lemma settle_result:
  assumes "settle r (lg, g) = (lg', g')" "members_ok g"
  shows "gs_GroupID g' = gs_GroupID g" "gs_Generation g' = i32 (gs_Generation g + 1)" "members_ok g'"
    "gs_Members g' = filter (\<lambda>(k, m). k \<in> set (rr_joined r)) (gs_Members g)"
    "gs_Members g' \<noteq> [] \<Longrightarrow> lv_leader lg' \<in> fst ` set (gs_Members g')" "gs_Leader g' = lv_leader lg'"
    "lv_round lg' = lv_round lg"
proof -
  obtain lg1 g1 where d: "drop_absent (map fst (gs_Members g)) (rr_joined r) (lg, g) = (lg1, g1)" by fastforce
  have t: "trims (lg, g) (lg1, g1)" using trims_drop_absent [of "(lg, g)"] d by metis
  have m: "gs_Members g1 = filter (\<lambda>(k, m). k \<in> set (rr_joined r)) (gs_Members g)"
    using drop_absent_members [of "map fst (gs_Members g)" "rr_joined r" "(lg, g)"] d by (force intro!: filter_cong)
  have e: "gs_Members g' = gs_Members g1" "gs_GroupID g' = gs_GroupID g1" "gs_Generation g' = i32 (gs_Generation g1 + 1)"
    "gs_Leader g' = lv_leader lg'"
    "lv_leader lg' = (if lv_leader lg1 = [] \<or> map_of (gs_Members g1) (lv_leader lg1) = None
       then pickLeader (gs_Members g1) else lv_leader lg1)" "lv_round lg' = lv_round lg1"
    using assms(1) by (auto simp: settle_def d Let_def)
  show "gs_GroupID g' = gs_GroupID g" "gs_Generation g' = i32 (gs_Generation g + 1)" "members_ok g'"
    "gs_Members g' = filter (\<lambda>(k, m). k \<in> set (rr_joined r)) (gs_Members g)" "gs_Leader g' = lv_leader lg'"
    using e t m assms(2) by (auto simp: trims_def members_ok_def)
  show "gs_Members g' \<noteq> [] \<Longrightarrow> lv_leader lg' \<in> fst ` set (gs_Members g')"
    using e pickLeader_in [of "gs_Members g1"] by (auto simp: map_of_eq_None_iff)
  have "lv_round (fst (drop_absent ids j s)) = lv_round (fst s)" for ids j s
    by (induction ids j s rule: drop_absent.induct) (auto simp: drop_member_def split: prod.splits)
  from this [of "map fst (gs_Members g)" "rr_joined r" "(lg, g)"] show "lv_round lg' = lv_round lg"
    using e(6) d by simp
qed

lemma round_results_map:
  assumes "rr_results r = []"
  shows "map_of (round_results gid lg g r) mid =
    (if mid \<in> set (rr_joined r) \<and> map_of (gs_Members g) mid \<noteq> None
     then Some (join_result gid lg g (group_members g) mid) else None)"
proof -
  have "map_of (foldl (\<lambda>res i. if map_of (gs_Members g) i = None then res
          else AList.update i (join_result gid lg g (group_members g) i) res) acc ids) mid =
     (if mid \<in> set ids \<and> map_of (gs_Members g) mid \<noteq> None
      then Some (join_result gid lg g (group_members g) mid) else map_of acc mid)" for acc ids
    by (induction ids arbitrary: acc) (auto simp: update_conv')
  then show ?thesis by (simp add: round_results_def assms)
qed

lemma group_members_ids:
  assumes "members_ok g"
  shows "set (map jm_MemberID (group_members g)) = fst ` set (gs_Members g)"
    "distinct (map jm_MemberID (group_members g))"
proof -
  let ?l = "map (\<lambda>(i, mm). \<lparr>jm_MemberID = ms_MemberID mm, jm_Metadata = ms_Subscription mm\<rparr>) (gs_Members g)"
  have eq: "map jm_MemberID ?l = map fst (gs_Members g)"
    using assms by (auto simp: members_ok_def)
  show "set (map jm_MemberID (group_members g)) = fst ` set (gs_Members g)"
    using arg_cong [OF eq, of set] by (simp add: group_members_def image_image)
  have "mset (map jm_MemberID (group_members g)) = mset (map jm_MemberID ?l)"
    by (simp only: group_members_def mset_map mset_sort)
  then have "mset (map jm_MemberID (group_members g)) = mset (map fst (gs_Members g))"
    unfolding eq .
  then show "distinct (map jm_MemberID (group_members g))"
    using assms by (metis members_ok_def mset_eq_imp_distinct_iff)
qed

section \<open>The coordinator invariant\<close>

definition gen_of :: "string \<Rightarrow> GroupCoordinator \<Rightarrow> int" where
  "gen_of gid c = gs_Generation (group_of gid c)"

text \<open>One decided round: a single generation, protocol and leader, and the leader's list is the round.\<close>

definition round_agrees :: "(string \<rightharpoonup> JoinGroupResult) \<Rightarrow> bool" where
  "round_agrees res \<longleftrightarrow> (\<exists>gid gen p ldr ms.
     (\<forall>mid x. res mid = Some x \<longrightarrow> jr_GroupID x = gid \<and> jr_Generation x = gen \<and> jr_Protocol x = p \<and> jr_LeaderID x = ldr \<and>
        jr_MemberID x = mid \<and> jr_IsLeader x = (mid = ldr) \<and> jr_Members x = (if mid = ldr then ms else []) \<and> jr_ErrorCode x = 0) \<and>
     (dom res \<noteq> {} \<longrightarrow> ldr \<in> dom res) \<and> set (map jm_MemberID ms) = dom res \<and> distinct (map jm_MemberID ms))"

definition results_of :: "GroupCoordinator \<Rightarrow> nat \<Rightarrow> string \<rightharpoonup> JoinGroupResult" where
  "results_of c rid = (case map_of (gc_rounds c) rid of None \<Rightarrow> Map.empty | Some r \<Rightarrow> map_of (rr_results r))"

definition groups_inv :: "GroupCoordinator \<Rightarrow> bool" where
  "groups_inv c \<longleftrightarrow> (\<forall>gid. gs_GroupID (group_of gid c) = gid \<and> members_ok (group_of gid c))"

definition rounds_inv :: "GroupCoordinator \<Rightarrow> bool" where
  "rounds_inv c \<longleftrightarrow>
     (\<forall>rid r. map_of (gc_rounds c) rid = Some r \<longrightarrow> rid < gc_next c \<and> (\<not> rr_closed r \<longrightarrow> rr_results r = [])) \<and>
     (\<forall>rid. round_agrees (results_of c rid)) \<and>
     (\<forall>rid mid x. results_of c rid mid = Some x \<longrightarrow> jr_Generation x \<le> gen_of (jr_GroupID x) c) \<and>
     (\<forall>rid rid' mid mid' x y. results_of c rid mid = Some x \<longrightarrow> results_of c rid' mid' = Some y \<longrightarrow>
        jr_GroupID x = jr_GroupID y \<longrightarrow> jr_Generation x = jr_Generation y \<longrightarrow> rid = rid')"

abbreviation gc_inv :: "GroupCoordinator \<Rightarrow> bool" where
  "gc_inv c \<equiv> groups_inv c \<and> rounds_inv c"

text \<open>What every operation but \<^verbatim>\<open>closeRound\<close> leaves alone.\<close>

definition quiet_round :: "nat \<Rightarrow> nat \<Rightarrow> rebalanceRound option \<Rightarrow> rebalanceRound option \<Rightarrow> nat \<Rightarrow> bool" where
  "quiet_round n n' before after rid =
     (case (before, after) of
        (None, None) \<Rightarrow> True
      | (Some r, None) \<Rightarrow> False
      | (None, Some r') \<Rightarrow> n \<le> rid \<and> rid < n' \<and> rr_results r' = []
      | (Some r, Some r') \<Rightarrow> rr_results r' = rr_results r \<and> rr_closed r' = rr_closed r)"

definition quiet :: "GroupCoordinator \<Rightarrow> GroupCoordinator \<Rightarrow> bool" where
  "quiet c c' \<longleftrightarrow> gc_next c \<le> gc_next c' \<and> (\<forall>gid. gen_of gid c' = gen_of gid c) \<and>
     (\<forall>rid. quiet_round (gc_next c) (gc_next c') (map_of (gc_rounds c) rid) (map_of (gc_rounds c') rid) rid)"

lemma quietD:
  "quiet c c' \<Longrightarrow> quiet_round (gc_next c) (gc_next c') (map_of (gc_rounds c) rid) (map_of (gc_rounds c') rid) rid"
  by (simp add: quiet_def)

lemma quiet_results: "quiet c c' \<Longrightarrow> results_of c' rid = results_of c rid"
  using quietD [of c c' rid] by (auto simp: quiet_round_def results_of_def split: option.splits)

lemma quiet_inv:
  assumes "rounds_inv c" "quiet c c'"
  shows "rounds_inv c'"
proof -
  have r: "rid < gc_next c' \<and> (\<not> rr_closed r \<longrightarrow> rr_results r = [])" if "map_of (gc_rounds c') rid = Some r" for rid r
  proof -
    have "map_of (gc_rounds c) rid = Some r0 \<Longrightarrow> rid < gc_next c \<and> (\<not> rr_closed r0 \<longrightarrow> rr_results r0 = [])" for r0
      using assms(1) by (simp add: rounds_inv_def)
    moreover have "gc_next c \<le> gc_next c'" using assms(2) by (simp add: quiet_def)
    ultimately show ?thesis using quietD [OF assms(2), of rid] that by (auto simp: quiet_round_def split: option.splits)
  qed
  have "gen_of gid c' = gen_of gid c" for gid using assms(2) by (simp add: quiet_def)
  then show ?thesis
    using assms(1) r unfolding rounds_inv_def quiet_results [OF assms(2)] by auto
qed


lemma quiet_refl: "quiet c c"
  by (auto simp: quiet_def quiet_round_def split: option.splits)

lemma quiet_trans:
  assumes "quiet a b" "quiet b c"
  shows "quiet a c"
proof -
  have n: "gc_next a \<le> gc_next b" "gc_next b \<le> gc_next c" and g: "\<forall>gid. gen_of gid c = gen_of gid a"
    using assms by (simp_all add: quiet_def)
  have q: "quiet_round (gc_next a) (gc_next b) (map_of (gc_rounds a) rid) (map_of (gc_rounds b) rid) rid"
    "quiet_round (gc_next b) (gc_next c) (map_of (gc_rounds b) rid) (map_of (gc_rounds c) rid) rid" for rid
    using assms by (simp_all add: quiet_def)
  have "quiet_round (gc_next a) (gc_next c) (map_of (gc_rounds a) rid) (map_of (gc_rounds c) rid) rid" for rid
    using q [of rid] n by (auto simp: quiet_round_def split: option.splits)
  then show ?thesis using n g by (simp add: quiet_def)
qed

text \<open>Writing a group record of the same generation, or anything about a live group, is quiet.\<close>

lemma put_fields [simp]:
  "gc_next (put_live gid lg c) = gc_next c" "gc_rounds (put_live gid lg c) = gc_rounds c"
  "gc_next (put_group g c) = gc_next c" "gc_rounds (put_group g c) = gc_rounds c"
  "gc_next (put_round rid r c) = gc_next c" "gc_rounds (put_round rid r c) = AList.update rid r (gc_rounds c)"
  by (simp_all add: gc_simps)

lemma group_of_put_group:
  "group_of gid (put_group g c) = (if gid = gs_GroupID g then g else group_of gid c)"
  by (simp add: group_of_def put_group_def update_conv')

lemma group_of_put_live: "group_of gid (put_live gid' lg c) = group_of gid c"
  by (simp add: group_of_def put_live_def)

lemma group_of_put_round: "group_of gid (put_round rid r c) = group_of gid c"
  by (simp add: group_of_def put_round_def)

lemmas group_of_puts = group_of_put_group group_of_put_live group_of_put_round

lemma quiet_put_live: "quiet c (put_live gid lg c)"
  by (auto simp: quiet_def quiet_round_def gen_of_def group_of_put_live split: option.splits)

lemma quiet_put_group: "gs_Generation g = gen_of (gs_GroupID g) c \<Longrightarrow> quiet c (put_group g c)"
  by (auto simp: quiet_def quiet_round_def gen_of_def group_of_put_group split: option.splits)

lemma groups_inv_put_group:
  "groups_inv c \<Longrightarrow> members_ok g \<Longrightarrow> groups_inv (put_group g c)"
  by (simp add: groups_inv_def group_of_put_group)

lemma groups_inv_put_live: "groups_inv (put_live gid lg c) = groups_inv c"
  by (simp add: groups_inv_def group_of_put_live)

lemma groups_inv_put_round: "groups_inv (put_round rid r c) = groups_inv c"
  by (simp add: groups_inv_def group_of_put_round)

lemmas groups_inv_puts = groups_inv_put_group groups_inv_put_live groups_inv_put_round

lemma Persist_puts:
  "Persist g now (gc_store c) d = (e, store, d') \<Longrightarrow> c\<lparr>gc_store := store\<rparr> = put_group (g\<lparr>gs_UpdatedAt := now\<rparr>) c"
  by (auto simp: Persist_def put_group_def Let_def split: prod.splits)

lemma members_ok_update [simp]: "members_ok (g\<lparr>gs_UpdatedAt := t\<rparr>) = members_ok g"
  by (simp add: members_ok_def)

lemma findOrCreate_quiet:
  assumes "findOrCreate gid now c = (lg, g, c')" "groups_inv c"
  shows "quiet c c'" "groups_inv c'" "g = group_of gid c'"
proof -
  have "c' = c \<and> g = group_of gid c \<or>
      c' = put_live gid new_live (put_group (new_group gid (unix_milli now)) c) \<and>
      map_of (os_groups (gc_store c)) gid = None \<and> g = new_group gid (unix_milli now) \<or>
      c' = put_live gid new_live c \<and> g = group_of gid c"
    using assms(1) by (auto simp: findOrCreate_def store_Get_def put_group_def group_of_def new_group_def Let_def
        split: option.splits prod.splits)
  moreover have "gs_GroupID (new_group gid t) = gid" "members_ok (new_group gid t)" for t
    by (simp_all add: new_group_def members_ok_def)
  moreover have "map_of (os_groups (gc_store c)) gid = None \<Longrightarrow> gs_Generation (new_group gid t) = gen_of gid c" for t
    by (simp add: new_group_def gen_of_def group_of_def)
  ultimately show "quiet c c'" "groups_inv c'" "g = group_of gid c'"
    using assms(2) quiet_trans [OF quiet_put_group quiet_put_live]
    by (auto simp: quiet_refl quiet_put_live groups_inv_puts group_of_puts)
qed

lemma open_round_result:
  assumes "open_round args now lg g c = (rid, r, lg', c')" "rounds_inv c"
  obtains "c' = c" "map_of (gc_rounds c) rid = Some r" "\<not> rr_closed r" "lg' = lg"
  | "c' = c\<lparr>gc_next := Suc (gc_next c)\<rparr>" "rid = gc_next c" "map_of (gc_rounds c) rid = None" "\<not> rr_closed r" "rr_results r = []"
proof -
  have "map_of (gc_rounds c) (gc_next c) = None"
    using assms(2) by (cases "map_of (gc_rounds c) (gc_next c)") (auto simp: rounds_inv_def)
  then have "c' = c \<and> map_of (gc_rounds c) rid = Some r \<and> \<not> rr_closed r \<and> lg' = lg \<or>
      c' = c\<lparr>gc_next := Suc (gc_next c)\<rparr> \<and> rid = gc_next c \<and> map_of (gc_rounds c) rid = None \<and> \<not> rr_closed r \<and> rr_results r = []"
    using assms(1) by (auto simp: open_round_def Let_def split: option.splits if_splits)
  then show ?thesis by (elim disjE conjE) (erule (3) that(1), erule (4) that(2))
qed

text \<open>Up to a possible \<^verbatim>\<open>closeRound\<close> the join only registers the member in its round.\<close>

lemma join_round_quiet:
  assumes "open_round args now lg g c = (rid, r, lg1, c1)" "rounds_inv c" "groups_inv c"
    "gs_GroupID g = gid" "gs_Generation g = gen_of gid c" "members_ok g" "ms_MemberID m = mid"
    "c2 = put_round rid (r\<lparr>rr_joined := j\<rparr>) (put_live gid lg2 (put_group (g\<lparr>gs_Members := AList.update mid m (gs_Members g)\<rparr>) c1))"
  shows "quiet c c2" "groups_inv c2" "map_of (gc_rounds c2) rid = Some (r\<lparr>rr_joined := j\<rparr>)"
    "group_of gid c2 = g\<lparr>gs_Members := AList.update mid m (gs_Members g)\<rparr>" "\<not> rr_closed r"
proof -
  let ?g = "g\<lparr>gs_Members := AList.update mid m (gs_Members g)\<rparr>"
  have g: "group_of i c1 = group_of i c" for i
    using open_round_result [OF assms(1,2)] by cases (auto simp: group_of_def)
  have ok: "members_ok ?g"
    using assms(6,7) set_update_subset [of mid m "gs_Members g"] by (auto simp: members_ok_def distinct_update)
  have gi: "groups_inv c1" using assms(3) g by (simp add: groups_inv_def)
  show "groups_inv c2" unfolding assms(8) groups_inv_puts using groups_inv_put_group [OF gi ok] by simp
  show "group_of gid c2 = ?g" using assms(4) by (simp add: assms(8) group_of_puts)
  show "map_of (gc_rounds c2) rid = Some (r\<lparr>rr_joined := j\<rparr>)" by (simp add: assms(8) update_conv')
  show "\<not> rr_closed r" using open_round_result [OF assms(1,2)] by cases auto
  have gens: "gen_of i c2 = gen_of i c" for i
    using assms(4,5) by (simp add: assms(8) gen_of_def group_of_puts g)
  have rest: "gc_next c2 = gc_next c1" "gc_rounds c2 = AList.update rid (r\<lparr>rr_joined := j\<rparr>) (gc_rounds c1)"
    by (simp_all add: assms(8))
  show "quiet c c2"
    using open_round_result [OF assms(1,2)]
    by cases (auto simp: quiet_def quiet_round_def gens rest update_conv' split: option.splits)
qed


text \<open>Deciding a round publishes one generation, one above the group's last.\<close>

lemma closeRound_result:
  assumes "closeRound gid rid r lg g now c d = (c', d')" "\<not> rr_closed r"
  obtains lg' g' where "settle r (lg, g) = (lg', g')"
    "c' = put_round rid (r\<lparr>rr_closed := True, rr_results := round_results gid lg' g' r\<rparr>)
       (put_live gid lg' (put_group (g'\<lparr>gs_UpdatedAt := unix_milli now\<rparr>) c))"
proof -
  obtain lg' g' where s: "settle r (lg, g) = (lg', g')" by fastforce
  obtain e store d1 where p: "Persist g' (unix_milli now) (gc_store c) d = (e, store, d1)" by (cases "Persist g' (unix_milli now) (gc_store c) d") auto
  have "c' = put_round rid (r\<lparr>rr_closed := True, rr_results := round_results gid lg' g' r\<rparr>) (put_live gid lg' (c\<lparr>gc_store := store\<rparr>))"
    using assms by (simp add: closeRound_def s p Let_def)
  then show ?thesis using s that unfolding Persist_puts [OF p] by blast
qed

lemma round_results_agree:
  assumes "settle r (lg, g) = (lg', g')" "members_ok g" "rr_results r = []"
  shows "round_agrees (map_of (round_results gid lg' g' r))"
proof -
  note s = settle_result [OF assms(1,2)]
  have ids: "fst ` set (gs_Members g') \<subseteq> set (rr_joined r)" by (auto simp: s(4))
  have dom: "dom (map_of (round_results gid lg' g' r)) = fst ` set (gs_Members g')"
    using ids by (auto simp: dom_def round_results_map [OF assms(3)] map_of_eq_None_iff split: if_splits)
  have ldr: "fst ` set (gs_Members g') \<noteq> {} \<longrightarrow> lv_leader lg' \<in> fst ` set (gs_Members g')" using s(5) by auto
  have all: "\<forall>mid x. map_of (round_results gid lg' g' r) mid = Some x \<longrightarrow> jr_GroupID x = gid \<and> jr_Generation x = gs_Generation g' \<and>
      jr_Protocol x = gs_Protocol g' \<and> jr_LeaderID x = lv_leader lg' \<and> jr_MemberID x = mid \<and> jr_IsLeader x = (mid = lv_leader lg') \<and>
      jr_Members x = (if mid = lv_leader lg' then group_members g' else []) \<and> jr_ErrorCode x = 0"
    by (auto simp: round_results_map [OF assms(3)] join_result_def)
  show ?thesis
    unfolding round_agrees_def dom
    by (rule exI [of _ gid], rule exI [of _ "gs_Generation g'"], rule exI [of _ "gs_Protocol g'"], rule exI [of _ "lv_leader lg'"],
        rule exI [of _ "group_members g'"]) (intro conjI all ldr group_members_ids [OF s(3)])
qed

lemma closeRound_inv:
  assumes "gc_inv c" "map_of (gc_rounds c) rid = Some r" "\<not> rr_closed r" "g = group_of gid c"
    "- (2 ^ 31) \<le> gen_of gid c" "gen_of gid c < 2 ^ 31 - 1" "closeRound gid rid r lg g now c d = (c', d')"
  shows "gc_inv c'" "gen_of i c' = (if i = gid then gen_of gid c + 1 else gen_of i c)"
proof -
  obtain lg' g' where s: "settle r (lg, g) = (lg', g')"
    and c': "c' = put_round rid (r\<lparr>rr_closed := True, rr_results := round_results gid lg' g' r\<rparr>)
       (put_live gid lg' (put_group (g'\<lparr>gs_UpdatedAt := unix_milli now\<rparr>) c))"
    using closeRound_result [OF assms(7,3)] by blast
  have g: "gs_GroupID g = gid" "members_ok g" using assms(1,4) by (simp_all add: groups_inv_def)
  note st = settle_result [OF s g(2)]
  have gen: "gs_Generation g' = gen_of gid c + 1"
    using st(2) assms(4,5,6) by (simp add: gen_of_def i32_id)
  show gens: "gen_of i c' = (if i = gid then gen_of gid c + 1 else gen_of i c)" for i
    using st(1) g(1) gen by (simp add: c' gen_of_def group_of_puts)
  have gi: "groups_inv c'" using assms(1) st(3) by (simp add: c' groups_inv_puts)
  have empty: "rr_results r = []" using assms(1,2,3) by (auto simp: rounds_inv_def)
  let ?R = "map_of (round_results gid lg' g' r)"
  have res: "results_of c' i = (if i = rid then ?R else results_of c i)" for i
    by (simp add: results_of_def c' update_conv')
  have R: "jr_GroupID x = gid \<and> jr_Generation x = gen_of gid c + 1" if "?R mid = Some x" for mid x
    using that gen by (auto simp: round_results_map [OF empty] join_result_def split: if_splits)
  have old: "jr_Generation x \<le> gen_of (jr_GroupID x) c" if "results_of c i mid = Some x" for i mid x
    using assms(1) that by (auto simp: rounds_inv_def)
  have nodup: "i = j" if "results_of c i m = Some x" "results_of c j n = Some y" "jr_GroupID x = jr_GroupID y"
      "jr_Generation x = jr_Generation y" for i j m n x y
    using assms(1) that unfolding rounds_inv_def by blast
  have agree: "round_agrees (results_of c' i)" for i
    using round_results_agree [OF s g(2) empty, of gid] assms(1) by (cases "i = rid") (simp_all add: res rounds_inv_def)
  have below: "jr_Generation x \<le> gen_of (jr_GroupID x) c'" if "results_of c' i mid = Some x" for i mid x
  proof (cases "i = rid")
    case True then show ?thesis using that R [of mid x] by (simp add: res gens)
  next
    case False then show ?thesis using that old [of i mid x] by (auto simp: res gens)
  qed
  have unique: "i = j" if "results_of c' i m = Some x" "results_of c' j n = Some y" "jr_GroupID x = jr_GroupID y"
      "jr_Generation x = jr_Generation y" for i j m n x y
  proof (cases "i = rid"; cases "j = rid")
    assume "i = rid" "j \<noteq> rid"
    then show ?thesis using that R [of m x] old [of j n y] by (simp add: res)
  next
    assume "i \<noteq> rid" "j = rid"
    then show ?thesis using that R [of n y] old [of i m x] by (simp add: res)
  next
    assume "i \<noteq> rid" "j \<noteq> rid"
    then show ?thesis using that nodup [of i m x j n y] by (simp add: res)
  qed simp
  have was: "i < gc_next c \<and> (\<not> rr_closed r' \<longrightarrow> rr_results r' = [])" if "map_of (gc_rounds c) i = Some r'" for i r'
    using assms(1) that by (simp add: rounds_inv_def)
  have rounds: "i < gc_next c' \<and> (\<not> rr_closed r' \<longrightarrow> rr_results r' = [])" if "map_of (gc_rounds c') i = Some r'" for i r'
    using that was [of i r'] was [OF assms(2)] by (auto simp: c' update_conv' split: if_splits)
  have "rounds_inv c'"
    unfolding rounds_inv_def using rounds agree below unique by (intro conjI allI impI) (assumption | blast)+
  then show "gc_inv c'" using gi by simp
qed

section \<open>Runs of the coordinator\<close>

text \<open>
  Any interleaving of the coordinator's critical sections with offset commits. \<open>expire\<close> is the timer
  goroutine; \<open>wake\<close>s change nothing and are questions asked of a reached state.
\<close>

inductive gc_step :: "GroupCoordinator \<times> docs \<Rightarrow> GroupCoordinator \<times> docs \<Rightarrow> bool" where
  join: "JoinGroup_enter args now rnd c d = (res, c', d') \<Longrightarrow> gc_step (c, d) (c', d')"
| expire: "expireRound gid rid now c d = (c', d') \<Longrightarrow> gc_step (c, d) (c', d')"
| sync: "SyncGroup_enter gid gen mid as now c d = (out, c', d') \<Longrightarrow> gc_step (c, d) (c', d')"
| beat: "Heartbeat gid mid gen now c = (code, c') \<Longrightarrow> gc_step (c, d) (c', d)"
| leave: "LeaveGroup gid mid now c d = (code, c', d') \<Longrightarrow> gc_step (c, d) (c', d')"
| commit: "CommitOffset gid topic part off epoch meta now (gc_store c) d = (e, s', d') \<Longrightarrow>
    gc_step (c, d) (c\<lparr>gc_store := s'\<rparr>, d')"

inductive_cases gc_stepE: "gc_step (c, d) (c', d')"

inductive gc_run :: "nat \<Rightarrow> GroupCoordinator \<times> docs \<Rightarrow> GroupCoordinator \<times> docs \<Rightarrow> bool" where
  gc_stop: "gc_run 0 s s"
| gc_next_step: "gc_run n s t \<Longrightarrow> gc_step t u \<Longrightarrow> gc_run (Suc n) s u"

definition calm :: "GroupCoordinator \<Rightarrow> GroupCoordinator \<Rightarrow> bool" where
  "calm c c' \<longleftrightarrow> quiet c c' \<and> groups_inv c'"

definition in_gen :: "GroupCoordinator \<Rightarrow> bool" where
  "in_gen c \<longleftrightarrow> (\<forall>gid. - (2 ^ 31) \<le> gen_of gid c \<and> gen_of gid c < 2 ^ 31 - 1)"

text \<open>An operation keeps the invariant and counts no generation up by more than one.\<close>

definition advances :: "GroupCoordinator \<Rightarrow> GroupCoordinator \<Rightarrow> bool" where
  "advances c c' \<longleftrightarrow> gc_inv c' \<and> (\<forall>gid. gen_of gid c \<le> gen_of gid c' \<and> gen_of gid c' \<le> gen_of gid c + 1)"

lemma calm_advances: "gc_inv c \<Longrightarrow> calm c c' \<Longrightarrow> advances c c'"
  using quiet_inv [of c c'] by (auto simp: calm_def advances_def quiet_def)

lemma calm_put_live: "calm c c' \<Longrightarrow> calm c (put_live gid lg c')"
  using quiet_trans [OF _ quiet_put_live] by (auto simp: calm_def groups_inv_puts)

lemma calm_put_group:
  assumes "calm c c'" "gs_Generation g = gen_of (gs_GroupID g) c" "members_ok g"
  shows "calm c (put_group g c')"
proof -
  have "gs_Generation g = gen_of (gs_GroupID g) c'" using assms(1,2) by (simp add: calm_def quiet_def)
  then show ?thesis using assms quiet_trans [OF _ quiet_put_group] by (auto simp: calm_def groups_inv_puts)
qed

lemma calm_sync_round:
  assumes "calm c c'" "map_of (gc_rounds c') rid = Some r"
  shows "calm c (put_round rid (r\<lparr>rr_synced := True\<rparr>) c')"
proof -
  have "quiet c' (put_round rid (r\<lparr>rr_synced := True\<rparr>) c')"
    using assms(2) by (auto simp: quiet_def quiet_round_def gen_of_def group_of_puts update_conv' split: option.splits)
  then show ?thesis using assms(1) quiet_trans by (auto simp: calm_def groups_inv_puts)
qed

lemma calm_refl: "groups_inv c \<Longrightarrow> calm c c"
  by (simp add: calm_def quiet_refl)

lemma join_round_advances:
  assumes "join_round args mid now lg g c d = (rid, c', d')" "gc_inv c" "in_gen c" "gs_GroupID g = ja_GroupID args"
    "gs_Generation g = gen_of (ja_GroupID args) c" "members_ok g"
  shows "advances c c'"
proof -
  obtain rid' r lg1 c1 where o: "open_round args now lg g c = (rid', r, lg1, c1)" by (metis prod_cases4)
  define r2 where "r2 = r\<lparr>rr_joined := List.insert mid (rr_joined r)\<rparr>"
  define g2 where "g2 = g\<lparr>gs_Members := AList.update mid (join_member args mid) (gs_Members g)\<rparr>"
  define lg2 where "lg2 = lg1\<lparr>lv_heartbeats := AList.update mid now (lv_heartbeats lg1),
     lv_protocolType := ja_ProtocolType args, lv_protocols := ja_Protocols args\<rparr>"
  define c2 where "c2 = put_round rid' r2 (put_live (ja_GroupID args) lg2 (put_group g2 c1))"
  have m: "ms_MemberID (join_member args mid) = mid" by (simp add: join_member_def)
  note j = join_round_quiet [OF o _ _ assms(4-6) m c2_def [unfolded r2_def g2_def]]
  have q: "quiet c c2" "groups_inv c2" "map_of (gc_rounds c2) rid' = Some r2" "group_of (ja_GroupID args) c2 = g2" "\<not> rr_closed r2"
    using j assms(2) by (simp_all add: r2_def g2_def)
  have adv: "advances c c2" using calm_advances [of c c2] q(1,2) assms(2) by (simp add: calm_def)
  consider "c' = c2" | "closeRound (ja_GroupID args) rid' r2 lg2 g2 now c2 d = (c', d')"
    using assms(1) by (auto simp: join_round_def o Let_def r2_def [symmetric] g2_def [symmetric] lg2_def [symmetric]
        c2_def [symmetric] split: if_splits prod.splits)
  then show ?thesis
  proof cases
    case 1 then show ?thesis using adv by simp
  next
    case 2
    have e: "gen_of i c2 = gen_of i c" for i using q(1) by (simp add: quiet_def)
    have i: "gc_inv c2" using adv by (simp add: advances_def)
    have b: "- (2 ^ 31) \<le> gen_of (ja_GroupID args) c2" "gen_of (ja_GroupID args) c2 < 2 ^ 31 - 1"
      using assms(3) by (simp_all add: in_gen_def e)
    note cl = closeRound_inv [OF i q(3,5) q(4) [symmetric] b 2]
    show ?thesis using cl by (simp add: advances_def e)
  qed
qed


lemma advances_after_calm: "calm c c' \<Longrightarrow> advances c' c'' \<Longrightarrow> advances c c''"
  by (simp add: calm_def quiet_def advances_def)

lemma JoinGroup_advances:
  assumes "JoinGroup_enter args now rnd c d = (res, c', d')" "gc_inv c" "in_gen c"
  shows "advances c c'"
proof (cases "ValidateName (ja_GroupID args) = None")
  case False
  then show ?thesis using assms calm_advances [OF _ calm_refl] by (auto simp: JoinGroup_enter_def Let_def)
next
  case valid: True
  let ?gid = "ja_GroupID args"
  obtain lg0 g0 c0 where f: "findOrCreate ?gid now c = (lg0, g0, c0)" by (metis prod_cases3)
  have c0: "calm c c0" "g0 = group_of ?gid c0" using findOrCreate_quiet [OF f] assms(2) by (simp_all add: calm_def)
  have inv: "gc_inv c0" using calm_advances [OF assms(2) c0(1)] by (simp add: advances_def)
  have bounds: "in_gen c0" using assms(3) c0(1) by (simp add: in_gen_def calm_def quiet_def)
  obtain e lg1 g1 where ev: "evictExpired now (lg0, g0) = (e, lg1, g1)" by (metis prod_cases3)
  define s2 where "s2 = (if ja_MemberID args = [] \<and> ja_ClientID args \<noteq> []
     then drop_incarnations (gs_Members g1) (ja_ClientID args) (lg1, g1) else (lg1, g1))"
  have "trims (lg0, g0) (lg1, g1)" using trims_evictExpired [of "(lg0, g0)" now] ev by simp
  moreover have "trims (lg1, g1) s2" unfolding s2_def by (simp add: trims_refl trims_drop_incarnations)
  ultimately have "trims (lg0, g0) s2" by (rule trims_trans)
  then have g2: "gs_GroupID (snd s2) = ?gid" "gs_Generation (snd s2) = gen_of ?gid c0" "members_ok (snd s2)"
    using inv c0(2) by (simp_all add: trims_def groups_inv_def gen_of_def)
  consider "c' = put_live ?gid (fst s2) (put_group (snd s2) c0)"
    | mid rid where "join_round args mid now (fst s2) (snd s2) c0 d = (rid, c', d')"
    using assms(1) valid by (auto simp: JoinGroup_enter_def f ev s2_def Let_def split: if_splits prod.splits)
  then show ?thesis
  proof cases
    case 1
    have "calm c0 (put_live ?gid (fst s2) (put_group (snd s2) c0))"
      by (intro calm_put_live calm_put_group calm_refl) (use g2 inv in simp_all)
    then show ?thesis using advances_after_calm [OF c0(1) calm_advances [OF inv]] 1 by simp
  next
    case 2
    then show ?thesis using advances_after_calm [OF c0(1) join_round_advances [OF 2 inv bounds g2]] by simp
  qed
qed

lemma expireRound_advances:
  assumes "expireRound gid rid now c d = (c', d')" "gc_inv c" "in_gen c"
  shows "advances c c'"
proof -
  consider "c' = c" | lg r where "map_of (gc_rounds c) rid = Some r" "\<not> rr_closed r"
      "closeRound gid rid r lg (group_of gid c) now c d = (c', d')"
    using assms(1) by (auto simp: expireRound_def split: option.splits if_splits)
  then show ?thesis
  proof cases
    case 1 then show ?thesis using calm_advances [OF assms(2) calm_refl] assms(2) by simp
  next
    case 2
    have b: "- (2 ^ 31) \<le> gen_of gid c" "gen_of gid c < 2 ^ 31 - 1" using assms(3) by (simp_all add: in_gen_def)
    show ?thesis using closeRound_inv [OF assms(2) 2(1,2) refl b 2(3)] by (simp add: advances_def)
  qed
qed

lemma assign_members_ok:
  "distinct (map fst ms) \<and> (\<forall>(k, m) \<in> set ms. ms_MemberID m = k) \<Longrightarrow>
   distinct (map fst (assign_members as ms)) \<and> (\<forall>(k, m) \<in> set (assign_members as ms). ms_MemberID m = k)"
proof (induction as ms rule: assign_members.induct)
  case (2 mid a as ms)
  show ?case
  proof (cases "map_of ms mid")
    case None then show ?thesis using 2 by simp
  next
    case (Some mm)
    have "ms_MemberID mm = mid" using 2(2) map_of_SomeD [OF Some] by auto
    then have "distinct (map fst (AList.update mid (mm\<lparr>ms_Assignment := a\<rparr>) ms)) \<and>
        (\<forall>(k, m) \<in> set (AList.update mid (mm\<lparr>ms_Assignment := a\<rparr>) ms). ms_MemberID m = k)"
      using 2(2) set_update_subset [of mid "mm\<lparr>ms_Assignment := a\<rparr>" ms] by (auto simp: distinct_update)
    then show ?thesis using 2(1) Some by simp
  qed
qed simp

lemma Persist_calm:
  assumes "Persist g now (gc_store c) d = (e, store, d')" "groups_inv c" "gs_Generation g = gen_of (gs_GroupID g) c" "members_ok g"
  shows "calm c (c\<lparr>gc_store := store\<rparr>)"
  unfolding Persist_puts [OF assms(1)] by (rule calm_put_group [OF calm_refl [OF assms(2)]]) (use assms(3,4) in simp_all)

lemma SyncGroup_shape:
  assumes "SyncGroup_enter gid gen mid as now c d = (out, c', d')"
    "Persist ((group_of gid c)\<lparr>gs_Members := assign_members as (gs_Members (group_of gid c))\<rparr>) (unix_milli now) (gc_store c) d =
       (e, store, d1)"
  shows "c' = c \<or> (\<exists>lg0 lg. map_of (gc_live c) gid = Some lg0 \<and> lv_round lg = lv_round lg0 \<and>
     (c' = put_live gid lg c \<or> c' = put_live gid lg (c\<lparr>gc_store := store\<rparr>) \<or>
      (\<exists>k r. map_of (gc_rounds c) k = Some r \<and>
        c' = put_round k (r\<lparr>rr_synced := True\<rparr>) (put_live gid lg (c\<lparr>gc_store := store\<rparr>)))))"
proof (cases "map_of (gc_live c) gid")
  case None
  then show ?thesis using assms(1) by (simp add: SyncGroup_enter_def)
next
  case live: (Some lg0)
  let ?g = "group_of gid c"
  define lg1 where "lg1 = lg0\<lparr>lv_heartbeats := AList.update mid now (lv_heartbeats lg0)\<rparr>"
  define lg2 where "lg2 = lg1\<lparr>lv_state := GroupStable\<rparr>"
  have rd: "lv_round lg1 = lv_round lg0" "lv_round lg2 = lv_round lg0" by (simp_all add: lg1_def lg2_def)
  show ?thesis
  proof (cases "gs_Generation ?g = gen \<and> map_of (gs_Members ?g) mid \<noteq> None")
    case False
    then have "c' = c"
      using assms(1) live by (cases "map_of (gs_Members ?g) mid") (auto simp: SyncGroup_enter_def Let_def split: if_splits)
    then show ?thesis by simp
  next
    case known: True
    then obtain m where m: "map_of (gs_Members ?g) mid = Some m" by blast
    have "c' = put_live gid lg1 c \<or> c' = put_live gid lg2 (c\<lparr>gc_store := store\<rparr>) \<or>
        (\<exists>k r. map_of (gc_rounds c) k = Some r \<and> c' = put_round k (r\<lparr>rr_synced := True\<rparr>) (put_live gid lg2 (c\<lparr>gc_store := store\<rparr>)))"
      using assms(1) known
      by (cases e; cases "lv_round lg0"; cases "map_of (gc_rounds c) (the (lv_round lg0))")
        (auto simp: SyncGroup_enter_def live m Let_def assms(2) lg1_def lg2_def split: if_splits)
    then show ?thesis using live rd by blast
  qed
qed

lemma SyncGroup_calm:
  assumes "SyncGroup_enter gid gen mid as now c d = (out, c', d')" "groups_inv c"
  shows "calm c c'"
proof -
  let ?g = "(group_of gid c)\<lparr>gs_Members := assign_members as (gs_Members (group_of gid c))\<rparr>"
  have g: "gs_GroupID ?g = gid" "gs_Generation ?g = gen_of gid c" "members_ok ?g"
    using assms(2) assign_members_ok [of "gs_Members (group_of gid c)" as]
    by (simp_all add: groups_inv_def gen_of_def members_ok_def)
  obtain e store d1 where p: "Persist ?g (unix_milli now) (gc_store c) d = (e, store, d1)" by (metis prod_cases3)
  have calm: "calm c (c\<lparr>gc_store := store\<rparr>)" using Persist_calm [OF p assms(2)] g by simp
  from SyncGroup_shape [OF assms(1) p] show ?thesis
  proof (elim disjE exE conjE)
    fix lg k r assume "map_of (gc_rounds c) k = Some r"
      and c': "c' = put_round k (r\<lparr>rr_synced := True\<rparr>) (put_live gid lg (c\<lparr>gc_store := store\<rparr>))"
    then have "map_of (gc_rounds (put_live gid lg (c\<lparr>gc_store := store\<rparr>))) k = Some r" by simp
    then show ?thesis unfolding c' by (rule calm_sync_round [OF calm_put_live [OF calm]])
  qed (simp_all add: calm calm_put_live calm_refl [OF assms(2)])
qed

lemma Heartbeat_calm: "Heartbeat gid mid gen now c = (code, c') \<Longrightarrow> groups_inv c \<Longrightarrow> calm c c'"
  by (auto simp: Heartbeat_def Let_def split: option.splits if_splits intro: calm_refl calm_put_live)

lemma LeaveGroup_calm:
  assumes "LeaveGroup gid mid now c d = (code, c', d')" "groups_inv c"
  shows "calm c c'"
proof -
  consider "c' = c" | lg g e store d1 where "c' = put_live gid lg (c\<lparr>gc_store := store\<rparr>)"
      "Persist g (unix_milli now) (gc_store c) d = (e, store, d1)" "gs_GroupID g = gs_GroupID (group_of gid c)"
      "gs_Generation g = gs_Generation (group_of gid c)" "gs_Members g = AList.delete mid (gs_Members (group_of gid c))"
    using assms(1) by (force simp: LeaveGroup_def Let_def split: option.splits if_splits prod.splits)
  then show ?thesis
  proof cases
    case 2
    have "members_ok g" using members_ok_filter [of "group_of gid c" g] assms(2) 2(5) by (simp add: groups_inv_def AList.delete_eq)
    then have "calm c (c\<lparr>gc_store := store\<rparr>)"
      using Persist_calm [OF 2(2) assms(2)] 2(3,4) assms(2) by (simp add: groups_inv_def gen_of_def)
    then show ?thesis using calm_put_live 2(1) by simp
  qed (use assms(2) calm_refl in simp)
qed

lemma CommitOffset_calm:
  assumes "CommitOffset gid topic part off epoch meta now (gc_store c) d = (e, s', d')" "groups_inv c"
  shows "calm c (c\<lparr>gc_store := s'\<rparr>)"
proof (cases "ValidateName gid = None \<and> ValidateName topic = None")
  case False
  then have "s' = gc_store c" using assms(1) by (auto simp: CommitOffset_def split: option.splits)
  then show ?thesis using calm_refl [OF assms(2)] by simp
next
  case valid: True
  obtain g s where get: "store_Get gid now (gc_store c) = (g, s)" by fastforce
  let ?c = "c\<lparr>gc_store := s\<rparr>"
  have new: "gs_GroupID (new_group gid now) = gid \<and> gs_Generation (new_group gid now) = 0 \<and> members_ok (new_group gid now)"
    by (simp add: new_group_def members_ok_def)
  have g: "gs_GroupID g = gid" "gs_Generation g = gen_of gid c" "members_ok g"
    using get assms(2) new by (auto simp: store_Get_def groups_inv_def gen_of_def group_of_def Let_def new_group_def
        split: option.splits dest!: spec [of _ gid])
  have "?c = c \<or> ?c = put_group g c" using get by (auto simp: store_Get_def put_group_def Let_def new_group_def split: option.splits)
  then have calm: "calm c ?c" using calm_refl [OF assms(2)] calm_put_group [OF calm_refl [OF assms(2)], of g] g by auto
  let ?g = "commit_in_group topic part \<lparr>co_Offset = off, co_LeaderEpoch = epoch, co_Metadata = meta, co_CommitTimestamp = now\<rparr> g"
  have g': "gs_GroupID ?g = gid" "gs_Generation ?g = gen_of gid c" "members_ok ?g"
    using g by (simp_all add: commit_in_group_def Let_def members_ok_def)
  have "Persist ?g now (gc_store ?c) d = (e, s', d')"
    using assms(1) valid get by (simp add: CommitOffset_def)
  note p = Persist_puts [OF this]
  show ?thesis using calm_put_group [OF calm, of "?g\<lparr>gs_UpdatedAt := now\<rparr>"] g' p by simp
qed

lemma gc_step_advances:
  assumes "gc_step (c, d) (c', d')" "gc_inv c" "in_gen c"
  shows "advances c c'"
  using assms(1)
proof cases
  case join then show ?thesis using JoinGroup_advances assms(2,3) by blast
next
  case expire then show ?thesis using expireRound_advances assms(2,3) by blast
qed (use assms(2) in \<open>auto intro!: calm_advances intro: SyncGroup_calm Heartbeat_calm LeaveGroup_calm CommitOffset_calm\<close>)

lemma gc_run_advances:
  assumes "gc_run n (c, d) (c', d')" "gc_inv c" "\<forall>gid. 0 \<le> gen_of gid c \<and> gen_of gid c + int n < 2 ^ 31"
  shows "gc_inv c' \<and> (\<forall>gid. gen_of gid c \<le> gen_of gid c' \<and> gen_of gid c' \<le> gen_of gid c + int n)"
  using assms
proof (induction n "(c, d)" "(c', d')" arbitrary: c' d' rule: gc_run.induct)
  case (gc_next_step n t)
  obtain c1 d1 where t: "t = (c1, d1)" by fastforce
  have "0 \<le> gen_of gid c \<and> gen_of gid c + int n < 2 ^ 31" for gid using spec [OF gc_next_step(5), of gid] by simp
  then have ih: "gc_inv c1" "\<forall>gid. gen_of gid c \<le> gen_of gid c1 \<and> gen_of gid c1 \<le> gen_of gid c + int n"
    using gc_next_step(2) [OF t gc_next_step(4)] by auto
  have "in_gen c1"
    unfolding in_gen_def
  proof (rule allI)
    fix gid
    have "0 \<le> gen_of gid c \<and> gen_of gid c + int (Suc n) < 2 ^ 31" using gc_next_step(5) by blast
    then show "- (2 ^ 31) \<le> gen_of gid c1 \<and> gen_of gid c1 < 2 ^ 31 - 1" using ih(2) [rule_format, of gid] by simp
  qed
  then have adv: "advances c1 c'" using gc_step_advances gc_next_step(3) ih(1) t by blast
  have "gen_of gid c \<le> gen_of gid c' \<and> gen_of gid c' \<le> gen_of gid c + int (Suc n)" for gid
    using adv ih(2) [rule_format, of gid] by (auto simp: advances_def dest!: spec [of _ gid])
  then show ?case using adv by (simp add: advances_def)
qed simp


section \<open>The protocol every member speaks\<close>

definition name_count :: "(string \<times> nat) list \<Rightarrow> string \<Rightarrow> nat" where
  "name_count counts n = (case map_of counts n of None \<Rightarrow> 0 | Some k \<Rightarrow> k)"

definition tally :: "(string \<times> nat) list \<times> string list \<Rightarrow> (string \<Rightarrow> nat) \<Rightarrow> bool" where
  "tally acc f \<longleftrightarrow> (\<forall>n. name_count (fst acc) n = f n \<and> (n \<in> set (snd acc) \<longleftrightarrow> 0 < f n) \<and> map_of (fst acc) n \<noteq> Some 0)"

lemma count_names_tally:
  "tally acc f \<Longrightarrow> tally (count_names ns seen acc) (\<lambda>n. f n + (if n \<in> set ns \<and> n \<notin> set seen then 1 else 0))"
proof (induction ns seen acc arbitrary: f rule: count_names.induct)
  case (2 n ns seen counts order)
  let ?acc = "(AList.update n (name_count counts n + 1) counts, if name_count counts n = 0 then order @ [n] else order)"
  show ?case
  proof (cases "n \<in> set seen")
    case True
    then have eq: "(\<lambda>m. f m + (if m \<in> set (n # ns) \<and> m \<notin> set seen then 1 else 0)) =
        (\<lambda>m. f m + (if m \<in> set ns \<and> m \<notin> set seen then 1 else 0))" by auto
    show ?thesis using 2(1) [OF True 2(3)] True unfolding eq by simp
  next
    case False
    have "tally ?acc (\<lambda>m. f m + (if m = n then 1 else 0))"
      using 2(3) by (auto simp: tally_def name_count_def update_conv' split: if_splits option.splits)
    from 2(2) [OF False _ this] False
    have "tally (count_names (n # ns) seen (counts, order))
        (\<lambda>m. (f m + (if m = n then 1 else 0)) + (if m \<in> set ns \<and> m \<notin> set (n # seen) then 1 else 0))"
      by (simp add: name_count_def Let_def)
    moreover have "(\<lambda>m. (f m + (if m = n then 1 else 0)) + (if m \<in> set ns \<and> m \<notin> set (n # seen) then 1 else 0)) =
        (\<lambda>m. f m + (if m \<in> set (n # ns) \<and> m \<notin> set seen then 1 else 0))" using False by auto
    ultimately show ?thesis by metis
  qed
qed (simp add: tally_def)

definition supporters :: "(string \<times> MemberState) list \<Rightarrow> string \<Rightarrow> nat" where
  "supporters ms n = length (filter (\<lambda>(i, m). n \<in> set (ms_Protocols m)) ms)"

lemma members_tally:
  "tally acc f \<Longrightarrow> tally (foldl (\<lambda>acc (i, m). count_names (decodeProtocolNames m) [] acc) acc ms) (\<lambda>n. f n + supporters ms n)"
proof (induction ms arbitrary: acc f)
  case (Cons im ms)
  obtain i m where im: "im = (i, m)" by fastforce
  have "decodeProtocolNames m = ms_Protocols m" by (simp add: decodeProtocolNames_def)
  with count_names_tally [OF Cons(2), of "ms_Protocols m" "[]"]
  have "tally (count_names (decodeProtocolNames m) [] acc) (\<lambda>n. f n + (if n \<in> set (ms_Protocols m) then 1 else 0))" by simp
  note t = Cons(1) [OF this]
  have "(\<lambda>n. (f n + (if n \<in> set (ms_Protocols m) then 1 else 0)) + supporters ms n) = (\<lambda>n. f n + supporters (im # ms) n)"
    by (auto simp: supporters_def im)
  with t show ?case by (simp only: foldl_Cons im prod.case)
qed (simp add: supporters_def tally_def)

lemma supporters_all: "supporters ms n = length ms \<longleftrightarrow> (\<forall>(i, m) \<in> set ms. n \<in> set (ms_Protocols m))"
  unfolding supporters_def by (metis (mono_tags, lifting) filter_True length_filter_less less_irrefl)

lemma pickCommonProtocol_common:
  assumes "ms \<noteq> []" "\<forall>(i, m) \<in> set ms. p \<in> set (ms_Protocols m)"
  shows "\<forall>(i, m) \<in> set ms. pickCommonProtocol ms ps \<in> set (ms_Protocols m)"
proof -
  obtain counts order where f: "foldl (\<lambda>acc (i, m). count_names (decodeProtocolNames m) [] acc) ([], []) ms = (counts, order)"
    by fastforce
  have "tally ([], []) (\<lambda>n. 0)" by (simp add: tally_def name_count_def)
  from members_tally [OF this, of ms] have t: "tally (counts, order) (supporters ms)" by (simp add: f)
  have cnt: "map_of counts n = Some (length ms) \<longleftrightarrow> supporters ms n = length ms" for n
  proof -
    have "name_count counts n = supporters ms n" using t by (simp add: tally_def)
    then show ?thesis using assms(1) by (auto simp: name_count_def split: option.splits)
  qed
  have "p \<in> set order \<and> supporters ms p = length ms"
    using t assms supporters_all [of ms p] by (simp add: tally_def)
  then obtain q where q: "find (\<lambda>n. map_of counts n = Some (length ms)) order = Some q"
    by (cases "find (\<lambda>n. map_of counts n = Some (length ms)) order") (auto simp: find_None_iff cnt)
  then have "map_of counts q = Some (length ms)" by (auto simp: find_Some_iff)
  then have "supporters ms q = length ms" using cnt by simp
  moreover have "pickCommonProtocol ms ps = q" by (simp add: pickCommonProtocol_def f q)
  ultimately show ?thesis by (simp add: supporters_all)
qed


section \<open>Every round is decided\<close>

text \<open>A blocked caller's round is decided, or it is still the current round of its group.\<close>

definition follows :: "string \<Rightarrow> nat \<Rightarrow> GroupCoordinator \<Rightarrow> bool" where
  "follows gid rid c \<longleftrightarrow>
     (\<exists>r. map_of (gc_rounds c) rid = Some r \<and> (rr_closed r \<or> (\<exists>lg. map_of (gc_live c) gid = Some lg \<and> lv_round lg = Some rid)))"

lemma put_live_live [simp]:
  "map_of (gc_live (put_live gid lg c)) i = (if i = gid then Some lg else map_of (gc_live c) i)"
  "gc_live (put_group g c) = gc_live c" "gc_live (put_round rid r c) = gc_live c"
  by (simp_all add: gc_simps update_conv')

lemma follows_put_live:
  "follows gid rid c \<Longrightarrow> (\<And>lg0. map_of (gc_live c) i = Some lg0 \<Longrightarrow> lv_round lg = lv_round lg0) \<Longrightarrow> follows gid rid (put_live i lg c)"
  by (auto simp: follows_def)

lemma follows_store [simp]: "follows gid rid (c\<lparr>gc_store := s\<rparr>) = follows gid rid c"
  by (simp add: follows_def)

lemma follows_put_group [simp]: "follows gid rid (put_group g c) = follows gid rid c"
  by (simp add: follows_def)

lemma follows_put_round:
  "follows gid rid c \<Longrightarrow> (\<And>r0. map_of (gc_rounds c) i = Some r0 \<Longrightarrow> rr_closed r0 \<Longrightarrow> rr_closed r) \<Longrightarrow> follows gid rid (put_round i r c)"
  by (auto simp: follows_def update_conv')

lemma drop_member_round [simp]: "lv_round (fst (drop_member mid s)) = lv_round (fst s)"
  by (simp add: drop_member_def split: prod.splits)

lemma evict_loop_round: "lv_round (fst (snd (evict_loop ms now e s))) = lv_round (fst s)"
proof (induction ms now e s rule: evict_loop.induct)
  case (2 memberID m ms now e lg g)
  then show ?case
    using drop_member_round [of memberID "(lg, g)"] by (auto split: option.splits)
qed simp

lemma evictExpired_round: "evictExpired now (lg, g) = (e, lg', g') \<Longrightarrow> lv_round lg' = lv_round lg"
  using evict_loop_round [of "gs_Members g" now False "(lg, g)"] by (auto simp: evictExpired_def split: if_splits)

lemma drop_incarnations_round: "lv_round (fst (drop_incarnations ms cid s)) = lv_round (fst s)"
  by (induction ms cid s rule: drop_incarnations.induct) auto

lemma findOrCreate_follows:
  assumes "findOrCreate i now c = (lg, g, c')"
  shows "map_of (gc_live c') i = Some lg" "follows gid rid c \<Longrightarrow> follows gid rid c'"
  using assms by (auto simp: findOrCreate_def split: option.splits prod.splits intro!: follows_put_live)

lemma closeRound_follows:
  assumes "closeRound i rid' r lg g now c d = (c', d')" "map_of (gc_rounds c) rid' = Some r" "map_of (gc_live c) i = Some lg"
    "members_ok g"
  shows "follows gid rid c \<Longrightarrow> follows gid rid c'" "\<exists>r'. map_of (gc_rounds c') rid' = Some r' \<and> rr_closed r'"
proof -
  have "(follows gid rid c \<longrightarrow> follows gid rid c') \<and> (\<exists>r'. map_of (gc_rounds c') rid' = Some r' \<and> rr_closed r')"
  proof (cases "rr_closed r")
    case True
    then show ?thesis using assms(1,2) by (auto simp: closeRound_def)
  next
    case False
    obtain lg' g' where s: "settle r (lg, g) = (lg', g')"
      and c': "c' = put_round rid' (r\<lparr>rr_closed := True, rr_results := round_results i lg' g' r\<rparr>)
       (put_live i lg' (put_group (g'\<lparr>gs_UpdatedAt := unix_milli now\<rparr>) c))"
      using closeRound_result [OF assms(1) False] by blast
    have "lv_round lg' = lv_round lg" by (rule settle_result(7) [OF s assms(4)])
    then have "follows gid rid c \<longrightarrow> follows gid rid c'"
      unfolding c' using assms(3) by (auto intro!: follows_put_round follows_put_live)
    then show ?thesis by (simp add: c' update_conv')
  qed
  then show "follows gid rid c \<Longrightarrow> follows gid rid c'" "\<exists>r'. map_of (gc_rounds c') rid' = Some r' \<and> rr_closed r'" by auto
qed

lemma open_round_follows:
  assumes "open_round args now lg g c = (rid', r, lg', c')" "map_of (gc_live c) i = Some lg0" "lv_round lg0 = lv_round lg"
    "rounds_inv c"
  shows "lv_round lg' = Some rid'" "follows gid rid c \<Longrightarrow> lv_round lg2 = lv_round lg' \<Longrightarrow>
    follows gid rid (put_round rid' (r\<lparr>rr_joined := j\<rparr>) (put_live i lg2 (put_group g2 c')))"
proof -
  have fresh: "map_of (gc_rounds c) (gc_next c) = None"
    using assms(4) by (cases "map_of (gc_rounds c) (gc_next c)") (auto simp: rounds_inv_def)
  have d: "c' = c \<and> map_of (gc_rounds c) rid' = Some r \<and> lv_round lg = Some rid' \<and> lg' = lg \<or>
      rid' = gc_next c \<and> c' = c\<lparr>gc_next := Suc (gc_next c)\<rparr> \<and> lv_round lg' = Some rid' \<and>
      (\<forall>k q. lv_round lg = Some k \<longrightarrow> map_of (gc_rounds c) k = Some q \<longrightarrow> rr_closed q)"
    using assms(1) by (auto simp: open_round_def Let_def split: option.splits if_splits)
  then show "lv_round lg' = Some rid'" by auto
  assume f: "follows gid rid c" and lg2: "lv_round lg2 = lv_round lg'"
  from d show "follows gid rid (put_round rid' (r\<lparr>rr_joined := j\<rparr>) (put_live i lg2 (put_group g2 c')))"
  proof (elim disjE conjE)
    assume "c' = c" "map_of (gc_rounds c) rid' = Some r" "lv_round lg = Some rid'" "lg' = lg"
    then show ?thesis using f lg2 assms(2,3) by (intro follows_put_round follows_put_live) auto
  next
    assume n: "rid' = gc_next c" "c' = c\<lparr>gc_next := Suc (gc_next c)\<rparr>"
      and old: "\<forall>k q. lv_round lg = Some k \<longrightarrow> map_of (gc_rounds c) k = Some q \<longrightarrow> rr_closed q"
    from f obtain q where q: "map_of (gc_rounds c) rid = Some q"
      "rr_closed q \<or> (\<exists>l. map_of (gc_live c) gid = Some l \<and> lv_round l = Some rid)" by (auto simp: follows_def)
    have "rid \<noteq> gc_next c" using q(1) fresh by auto
    moreover have "rr_closed q \<or> i \<noteq> gid \<and> (\<exists>l. map_of (gc_live c) gid = Some l \<and> lv_round l = Some rid)"
      using q assms(2,3) old by auto
    ultimately show ?thesis using q(1) by (auto simp: follows_def n update_conv' gc_simps)
  qed
qed


lemma join_round_follows:
  assumes "join_round args mid now lg g c d = (rid', c', d')" "map_of (gc_live c) (ja_GroupID args) = Some lg0"
    "lv_round lg0 = lv_round lg" "rounds_inv c" "members_ok g"
  shows "follows (ja_GroupID args) rid' c'" "follows gid rid c \<Longrightarrow> follows gid rid c'"
proof -
  let ?i = "ja_GroupID args"
  obtain rid1 r lg1 c1 where o: "open_round args now lg g c = (rid1, r, lg1, c1)" by (metis prod_cases4)
  define r2 where "r2 = r\<lparr>rr_joined := List.insert mid (rr_joined r)\<rparr>"
  define g2 where "g2 = g\<lparr>gs_Members := AList.update mid (join_member args mid) (gs_Members g)\<rparr>"
  define lg2 where "lg2 = lg1\<lparr>lv_heartbeats := AList.update mid now (lv_heartbeats lg1),
     lv_protocolType := ja_ProtocolType args, lv_protocols := ja_Protocols args\<rparr>"
  define c2 where "c2 = put_round rid1 r2 (put_live ?i lg2 (put_group g2 c1))"
  note of = open_round_follows [OF o assms(2-4)]
  have lg2: "lv_round lg2 = Some rid1" using of(1) by (simp add: lg2_def)
  have keep: "follows gid rid c \<Longrightarrow> follows gid rid c2" for gid rid
    using of(2) [of gid rid lg2] lg2 of(1) unfolding c2_def r2_def by simp
  have new: "follows ?i rid1 c2" by (simp add: c2_def follows_def update_conv' lg2)
  have g2: "members_ok g2"
    using assms(5) set_update_subset [of mid "join_member args mid" "gs_Members g"]
    by (auto simp: g2_def members_ok_def distinct_update join_member_def)
  have c2: "map_of (gc_rounds c2) rid1 = Some r2" "map_of (gc_live c2) ?i = Some lg2" by (simp_all add: c2_def update_conv')
  have "rid' = rid1 \<and> c' = c2 \<or> rid' = rid1 \<and> closeRound ?i rid1 r2 lg2 g2 now c2 d = (c', d')"
    using assms(1) by (auto simp: join_round_def o Let_def r2_def [symmetric] g2_def [symmetric] lg2_def [symmetric]
        c2_def [symmetric] split: if_splits prod.splits)
  then have "rid' = rid1 \<and> (\<forall>gid rid. follows gid rid c2 \<longrightarrow> follows gid rid c')"
  proof
    assume cl: "rid' = rid1 \<and> closeRound ?i rid1 r2 lg2 g2 now c2 d = (c', d')"
    show ?thesis using closeRound_follows(1) [OF conjunct2 [OF cl] c2 g2] cl by blast
  qed simp
  then show "follows ?i rid' c'" "follows gid rid c \<Longrightarrow> follows gid rid c'" using keep new by auto
qed

lemma JoinGroup_follows:
  assumes "JoinGroup_enter args now rnd c d = (res, c', d')" "gc_inv c"
  shows "follows gid rid c \<Longrightarrow> follows gid rid c'" "res = Inr (mid, rid') \<Longrightarrow> follows (ja_GroupID args) rid' c'"
proof -
  let ?gid = "ja_GroupID args"
  have "(follows gid rid c \<longrightarrow> follows gid rid c') \<and> (res = Inr (mid, rid') \<longrightarrow> follows ?gid rid' c')"
  proof (cases "ValidateName ?gid = None")
    case False
    then show ?thesis using assms by (auto simp: JoinGroup_enter_def Let_def)
  next
    case valid: True
    obtain lg0 g0 c0 where f: "findOrCreate ?gid now c = (lg0, g0, c0)" by (metis prod_cases3)
    have c0: "calm c c0" "g0 = group_of ?gid c0" using findOrCreate_quiet [OF f] assms(2) by (simp_all add: calm_def)
    have inv: "gc_inv c0" using calm_advances [OF assms(2) c0(1)] by (simp add: advances_def)
    obtain e lg1 g1 where ev: "evictExpired now (lg0, g0) = (e, lg1, g1)" by (metis prod_cases3)
    define s2 where "s2 = (if ja_MemberID args = [] \<and> ja_ClientID args \<noteq> []
       then drop_incarnations (gs_Members g1) (ja_ClientID args) (lg1, g1) else (lg1, g1))"
    have "trims (lg0, g0) (lg1, g1)" using trims_evictExpired [of "(lg0, g0)" now] ev by simp
    then have "trims (lg0, g0) s2" unfolding s2_def using trims_trans [OF _ trims_drop_incarnations] by simp
    then have ok: "members_ok (snd s2)" using inv c0(2) by (simp add: trims_def groups_inv_def)
    have rd: "lv_round lg0 = lv_round (fst s2)"
      using evictExpired_round [OF ev] drop_incarnations_round [of "gs_Members g1" "ja_ClientID args" "(lg1, g1)"]
      by (simp add: s2_def)
    note live = findOrCreate_follows(1) [OF f]
    note keep = findOrCreate_follows(2) [OF f]
    have "(\<exists>x. res = Inl x) \<and> c' = put_live ?gid (fst s2) (put_group (snd s2) c0) \<or>
        (\<exists>m k. res = Inr (m, k) \<and> join_round args m now (fst s2) (snd s2) c0 d = (k, c', d'))"
      using assms(1) valid by (auto simp: JoinGroup_enter_def f ev s2_def Let_def split: if_splits prod.splits)
    then show ?thesis
    proof (elim disjE exE conjE)
      fix x assume "res = Inl x" "c' = put_live ?gid (fst s2) (put_group (snd s2) c0)"
      then show ?thesis using keep [of gid rid] live rd by (auto intro!: follows_put_live)
    next
      fix m k assume "res = Inr (m, k)" and j: "join_round args m now (fst s2) (snd s2) c0 d = (k, c', d')"
      then show ?thesis using join_round_follows [OF j live rd _ ok] inv keep [of gid rid] by auto
    qed
  qed
  then show "follows gid rid c \<Longrightarrow> follows gid rid c'" "res = Inr (mid, rid') \<Longrightarrow> follows ?gid rid' c'" by auto
qed

lemma expireRound_follows:
  assumes "expireRound i k now c d = (c', d')" "groups_inv c"
  shows "follows gid rid c \<Longrightarrow> follows gid rid c'"
    "follows i k c \<Longrightarrow> \<exists>r. map_of (gc_rounds c') k = Some r \<and> rr_closed r"
proof -
  have ok: "members_ok (group_of i c)" using assms(2) by (simp add: groups_inv_def)
  have "(follows gid rid c \<longrightarrow> follows gid rid c') \<and> (follows i k c \<longrightarrow> (\<exists>r. map_of (gc_rounds c') k = Some r \<and> rr_closed r))"
  proof (cases "\<exists>lg r. map_of (gc_live c) i = Some lg \<and> map_of (gc_rounds c) k = Some r \<and> lv_round lg = Some k \<and> \<not> rr_closed r")
    case True
    then obtain lg r where r: "map_of (gc_live c) i = Some lg" "map_of (gc_rounds c) k = Some r" "lv_round lg = Some k" "\<not> rr_closed r"
      by blast
    then have "closeRound i k r lg (group_of i c) now c d = (c', d')" using assms(1) by (simp add: expireRound_def)
    from closeRound_follows [OF this r(2,1) ok] show ?thesis by blast
  next
    case False
    then have "c' = c" using assms(1) by (auto simp: expireRound_def split: option.splits if_splits)
    then show ?thesis using False by (auto simp: follows_def)
  qed
  then show "follows gid rid c \<Longrightarrow> follows gid rid c'"
    "follows i k c \<Longrightarrow> \<exists>r. map_of (gc_rounds c') k = Some r \<and> rr_closed r" by auto
qed

lemma SyncGroup_follows:
  assumes "SyncGroup_enter i gen mid as now c d = (out, c', d')" "follows gid rid c"
  shows "follows gid rid c'"
proof -
  obtain e store d1 where p: "Persist ((group_of i c)\<lparr>gs_Members := assign_members as (gs_Members (group_of i c))\<rparr>)
      (unix_milli now) (gc_store c) d = (e, store, d1)" by (metis prod_cases3)
  from SyncGroup_shape [OF assms(1) p] show ?thesis
    using assms(2) by (elim disjE exE conjE) (auto intro!: follows_put_live follows_put_round)
qed

lemma Heartbeat_follows: "Heartbeat i mid gen now c = (code, c') \<Longrightarrow> follows gid rid c \<Longrightarrow> follows gid rid c'"
  by (auto simp: Heartbeat_def Let_def split: option.splits if_splits intro!: follows_put_live)

lemma LeaveGroup_follows: "LeaveGroup i mid now c d = (code, c', d') \<Longrightarrow> follows gid rid c \<Longrightarrow> follows gid rid c'"
  by (auto simp: LeaveGroup_def Let_def split: option.splits if_splits prod.splits intro!: follows_put_live)

lemma gc_step_follows:
  assumes "gc_step (c, d) (c', d')" "gc_inv c" "follows gid rid c"
  shows "follows gid rid c'"
  using assms(1)
proof cases
  case join then show ?thesis using JoinGroup_follows(1) assms(2,3) by blast
next
  case expire then show ?thesis using expireRound_follows(1) assms(2,3) by blast
next
  case sync then show ?thesis using SyncGroup_follows assms(3) by blast
next
  case beat then show ?thesis using Heartbeat_follows assms(3) by blast
next
  case leave then show ?thesis using LeaveGroup_follows assms(3) by blast
next
  case commit then show ?thesis using assms(3) by simp
qed


section \<open>Properties\<close>

lemma gc_run_trans: "gc_run m t u \<Longrightarrow> gc_run n s t \<Longrightarrow> gc_run (m + n) s u"
  by (induction m t u rule: gc_run.induct) (auto intro: gc_run.intros)

text \<open>A store as \<^verbatim>\<open>NewOffsetStore\<close> loads it, with room for \<open>n\<close> more generations in every group.\<close>

definition store_start :: "nat \<Rightarrow> OffsetStore \<Rightarrow> bool" where
  "store_start n st \<longleftrightarrow> int n < 2 ^ 31 \<and> (\<forall>gid g. map_of (os_groups st) gid = Some g \<longrightarrow>
     gs_GroupID g = gid \<and> members_ok g \<and> 0 \<le> gs_Generation g \<and> gs_Generation g + int n < 2 ^ 31)"

lemma store_start_mono:
  assumes "store_start n st" "k \<le> n"
  shows "store_start k st"
  unfolding store_start_def
proof (intro conjI allI impI)
  show "int k < 2 ^ 31" using assms by (simp add: store_start_def)
  fix gid g assume g: "map_of (os_groups st) gid = Some g"
  then show "gs_GroupID g = gid" "members_ok g" "0 \<le> gs_Generation g" using assms(1) by (simp_all add: store_start_def)
  have "gs_Generation g + int n < 2 ^ 31" using g assms(1) by (simp add: store_start_def)
  then show "gs_Generation g + int k < 2 ^ 31" using assms(2) by simp
qed

lemma store_start_inv:
  assumes "store_start n st"
  shows "gc_inv (NewGroupCoordinator st)"
    "\<forall>gid. 0 \<le> gen_of gid (NewGroupCoordinator st) \<and> gen_of gid (NewGroupCoordinator st) + int n < 2 ^ 31"
proof -
  have g: "gs_GroupID g = gid \<and> members_ok g \<and> 0 \<le> gs_Generation g \<and> gs_Generation g + int n < 2 ^ 31"
    if "g = group_of gid (NewGroupCoordinator st)" for gid g
    using assms that
    by (cases "map_of (os_groups st) gid") (auto simp: store_start_def group_of_def NewGroupCoordinator_def new_group_def members_ok_def)
  have "round_agrees Map.empty" unfolding round_agrees_def by (intro exI [of _ "[]"] exI [of _ 0]) simp
  then have "rounds_inv (NewGroupCoordinator st)"
    by (simp add: rounds_inv_def results_of_def NewGroupCoordinator_def)
  then show "gc_inv (NewGroupCoordinator st)" using g by (simp add: groups_inv_def)
  show "\<forall>gid. 0 \<le> gen_of gid (NewGroupCoordinator st) \<and> gen_of gid (NewGroupCoordinator st) + int n < 2 ^ 31"
    using g by (simp add: gen_of_def)
qed

lemma reached_inv:
  assumes "gc_run n (NewGroupCoordinator st, d) (c', d')" "store_start n st"
  shows "gc_inv c'"
  using gc_run_advances [OF assms(1) store_start_inv [OF assms(2)]] by simp

text \<open>
  C3: one leader per generation, and it sees all of it. Take any two answers that the coordinator
  ever gave to JoinGroup, in any interleaving of joins, syncs, heartbeats, leaves, commits and expiring
  rounds. If they are for the same group and generation, they come from the same round and name the
  same leader and protocol. The leader's own answer lists exactly the members that were answered, each
  once. Generations are int32 counters, so the run must be shorter than the room left in them.
\<close>

theorem one_leader_per_generation:
  assumes "store_start n st" "gc_run n (NewGroupCoordinator st, d) (c, d')"
    "results_of c rid mid = Some x" "results_of c rid' mid' = Some y"
    "jr_GroupID x = jr_GroupID y" "jr_Generation x = jr_Generation y"
  shows "rid = rid' \<and> jr_LeaderID x = jr_LeaderID y \<and> jr_Protocol x = jr_Protocol y \<and>
    (jr_IsLeader x \<longleftrightarrow> mid = jr_LeaderID x) \<and>
    (\<exists>z. results_of c rid (jr_LeaderID x) = Some z \<and> jr_IsLeader z \<and>
       set (map jm_MemberID (jr_Members z)) = dom (results_of c rid) \<and> distinct (map jm_MemberID (jr_Members z)))"
proof -
  have inv: "rounds_inv c" using reached_inv [OF assms(2,1)] by simp
  then have rid: "rid = rid'" using assms(3-6) unfolding rounds_inv_def by blast
  have "round_agrees (results_of c rid)" using inv by (simp add: rounds_inv_def)
  then obtain gid gen p ldr ms where
    all: "\<forall>i w. results_of c rid i = Some w \<longrightarrow> jr_GroupID w = gid \<and> jr_Generation w = gen \<and> jr_Protocol w = p \<and>
      jr_LeaderID w = ldr \<and> jr_MemberID w = i \<and> jr_IsLeader w = (i = ldr) \<and> jr_Members w = (if i = ldr then ms else []) \<and> jr_ErrorCode w = 0"
    and dom: "dom (results_of c rid) \<noteq> {} \<longrightarrow> ldr \<in> dom (results_of c rid)" "set (map jm_MemberID ms) = dom (results_of c rid)"
      "distinct (map jm_MemberID ms)"
    unfolding round_agrees_def by blast
  have x: "jr_LeaderID x = ldr \<and> jr_Protocol x = p \<and> jr_IsLeader x = (mid = ldr)" using all assms(3) by blast
  have y: "jr_LeaderID y = ldr \<and> jr_Protocol y = p" using all assms(4) rid by blast
  from dom(1) assms(3) obtain z where z: "results_of c rid ldr = Some z" by blast
  then have "jr_IsLeader z \<and> jr_Members z = ms" using all by auto
  then show ?thesis using rid x y z dom(2,3) by auto
qed

text \<open>
  C22: no JoinGroup is stranded. Once a member is in a round, then whatever else happens in between, when
  the round's timer fires the member gets an answer: a successful one for its own id, or
  REBALANCE_IN_PROGRESS, on which a client rejoins.
\<close>

theorem join_always_answered:
  assumes "store_start (n + m + 2) st" "gc_run n (NewGroupCoordinator st, d0) (c, d)"
    "JoinGroup_enter args now rnd c d = (Inr (mid, rid), c1, d1)" "gc_run m (c1, d1) (c2, d2)"
    "expireRound (ja_GroupID args) rid later c2 d2 = (c3, d3)"
  shows "\<exists>res. JoinGroup_wake (ja_GroupID args) mid rid False c3 = Some res \<and> jr_MemberID res = mid \<and>
    (jr_ErrorCode res = 0 \<or> jr_ErrorCode res = rebalanceInProgress)"
proof -
  let ?s = "(NewGroupCoordinator st, d0)"
  have start: "store_start k st" if "k \<le> n + m + 2" for k using store_start_mono [OF assms(1) that] .
  have r1: "gc_run (Suc n) ?s (c1, d1)" using gc_next_step [OF assms(2) gc_step.join [OF assms(3)]] .
  have inv: "gc_inv c" using reached_inv [OF assms(2) start] by simp
  have f1: "follows (ja_GroupID args) rid c1" using JoinGroup_follows(2) [OF assms(3) inv] by blast
  have "gc_run k (c1, d1) t \<Longrightarrow> k \<le> m \<Longrightarrow> follows (ja_GroupID args) rid (fst t)" for k t
  proof (induction k "(c1, d1)" t rule: gc_run.induct)
    case (gc_next_step k u v)
    obtain cu du cv dv where uv: "u = (cu, du)" "v = (cv, dv)" by (metis surj_pair)
    have "gc_inv cu" using reached_inv [OF gc_run_trans [OF gc_next_step(1) r1, unfolded uv(1)] start] gc_next_step(4) by simp
    moreover have "follows (ja_GroupID args) rid cu" using gc_next_step(2,4) uv(1) by simp
    ultimately show ?case using gc_step_follows gc_next_step(3) unfolding uv by fastforce
  qed (simp add: f1)
  then have f2: "follows (ja_GroupID args) rid c2" using assms(4) by force
  have r2: "gc_run (m + Suc n) ?s (c2, d2)" by (rule gc_run_trans [OF assms(4) r1])
  have i2: "gc_inv c2" using reached_inv [OF r2 start] by simp
  have "gc_run (Suc (m + Suc n)) ?s (c3, d3)" using gc_next_step [OF r2 gc_step.expire [OF assms(5)]] .
  then have i3: "rounds_inv c3" using reached_inv start by fastforce
  obtain r where r: "map_of (gc_rounds c3) rid = Some r" "rr_closed r"
    using expireRound_follows(2) [OF assms(5)] i2 f2 by blast
  show ?thesis
  proof (cases "map_of (rr_results r) mid")
    case None
    then show ?thesis using r by (simp add: JoinGroup_wake_def join_error_def no_result_def)
  next
    case (Some res)
    then have "results_of c3 rid mid = Some res" using r by (simp add: results_of_def)
    moreover have "round_agrees (results_of c3 rid)" using i3 by (simp add: rounds_inv_def)
    ultimately have "jr_MemberID res = mid \<and> jr_ErrorCode res = 0" unfolding round_agrees_def by blast
    then show ?thesis using r Some by (simp add: JoinGroup_wake_def)
  qed
qed

text \<open>
  C24: the assignment protocol is common. When a generation is decided with members left, and some
  protocol is supported by every one of them, the protocol announced is supported by every one of them,
  whatever order the member map is walked in.
\<close>

theorem decided_protocol_is_common:
  assumes "settle r (lg, g) = (lg', g')" "members_ok g" "gs_Members g' \<noteq> []"
    "\<forall>(i, m) \<in> set (gs_Members g'). p \<in> set (ms_Protocols m)"
  shows "\<forall>(i, m) \<in> set (gs_Members g'). gs_Protocol g' \<in> set (ms_Protocols m)"
proof -
  obtain ps where ps: "gs_Protocol g' = pickCommonProtocol (gs_Members g') ps"
    using assms(1) by (auto simp: settle_def Let_def split: prod.splits)
  show ?thesis unfolding ps by (rule pickCommonProtocol_common [OF assms(3,4)])
qed

definition sample_args :: "string \<Rightarrow> string \<Rightarrow> JoinGroupArgs" where
  "sample_args mid client = \<lparr>ja_GroupID = ''g'', ja_MemberID = mid, ja_GroupInstanceID = [], ja_ClientID = client, ja_ClientHost = [],
     ja_SessionTimeoutMS = 30000, ja_RebalanceTimeoutMS = 0, ja_ProtocolType = ''consumer'',
     ja_Protocols = [\<lparr>pt_Name = ''range'', pt_Metadata = []\<rparr>], ja_APIVersion = 5\<rparr>"

definition sample_docs :: docs where
  "sample_docs = \<lparr>dc_plan = [], dc_files = []\<rparr>"

text \<open>
  The run of the last property: A forms generation 1 and syncs; B joins and opens a round; A retries its
  SyncGroup for generation 1; A rejoins, which decides generation 2; B syncs.
\<close>

definition stale_sync_run :: "sync_out" where
  "stale_sync_run =
    (case JoinGroup_enter (sample_args ''A'' ''x'') 0 [] (NewGroupCoordinator \<lparr>os_dir = ''d'', os_groups = []\<rparr>) sample_docs of
       (_, c, d) \<Rightarrow> case expireRound ''g'' 0 0 c d of
       (c, d) \<Rightarrow> case SyncGroup_enter ''g'' 1 ''A'' [(''A'', [7])] 0 c d of
       (_, c, d) \<Rightarrow> case JoinGroup_enter (sample_args ''B'' ''y'') 0 [] c d of
       (_, c, d) \<Rightarrow> case SyncGroup_enter ''g'' 1 ''A'' [(''A'', [7])] 0 c d of
       (_, c, d) \<Rightarrow> case JoinGroup_enter (sample_args ''A'' ''x'') 0 [] c d of
       (_, c, d) \<Rightarrow> fst (SyncGroup_enter ''g'' 2 ''B'' [] 0 c d))"


definition sample_st :: OffsetStore where
  "sample_st = \<lparr>os_dir = ''d'', os_groups = []\<rparr>"

definition sample_join :: "string \<Rightarrow> string \<Rightarrow> GroupCoordinator \<times> docs \<Rightarrow> GroupCoordinator \<times> docs" where
  "sample_join mid client s = snd (JoinGroup_enter (sample_args mid client) 0 [] (fst s) (snd s))"

definition sample_run :: "GroupCoordinator \<times> docs" where
  "sample_run = (case sample_join ''B'' ''y'' (sample_join ''A'' ''x'' (NewGroupCoordinator sample_st, sample_docs)) of
     (c, d) \<Rightarrow> expireRound ''g'' 0 0 c d)"

lemma sample_start: "store_start 3 sample_st"
  by (simp add: store_start_def sample_st_def)

lemma sample_step: "gc_step s (sample_join mid client s)"
  unfolding sample_join_def using gc_step.join [of _ 0 "[]" "fst s" "snd s"] by (metis prod.collapse)

lemma sample_reached: "gc_run 3 (NewGroupCoordinator sample_st, sample_docs) sample_run"
proof -
  let ?s = "sample_join ''B'' ''y'' (sample_join ''A'' ''x'' (NewGroupCoordinator sample_st, sample_docs))"
  have "gc_run (Suc (Suc 0)) (NewGroupCoordinator sample_st, sample_docs) ?s"
    by (rule gc_next_step [OF gc_next_step [OF gc_stop sample_step] sample_step])
  moreover have "gc_step ?s sample_run"
    using gc_step.expire [of "''g''" 0 0 "fst ?s" "snd ?s" "fst sample_run" "snd sample_run"]
    by (simp add: sample_run_def case_prod_beta)
  ultimately have "gc_run (Suc (Suc (Suc 0))) (NewGroupCoordinator sample_st, sample_docs) sample_run" by (rule gc_next_step)
  then show ?thesis by (simp add: eval_nat_numeral)
qed

lemma sample_results: "map_option jr_LeaderID (results_of (fst sample_run) 0 ''A'') = Some ''A''"
  "map_option jr_LeaderID (results_of (fst sample_run) 0 ''B'') = Some ''A''"
  "map_option jr_Generation (results_of (fst sample_run) 0 ''A'') = Some 1"
  "map_option jr_Generation (results_of (fst sample_run) 0 ''B'') = Some 1"
  "map_option jr_GroupID (results_of (fst sample_run) 0 ''A'') = map_option jr_GroupID (results_of (fst sample_run) 0 ''B'')"
  by code_simp+

theorem one_leader_per_generation_witness:
  "\<exists>x y. results_of (fst sample_run) 0 ''A'' = Some x \<and> results_of (fst sample_run) 0 ''B'' = Some y \<and>
     jr_Protocol x = jr_Protocol y \<and> jr_IsLeader x"
proof -
  obtain x y where xy: "results_of (fst sample_run) 0 ''A'' = Some x" "results_of (fst sample_run) 0 ''B'' = Some y"
    using map_option_eq_Some [THEN iffD1, OF sample_results(1)] map_option_eq_Some [THEN iffD1, OF sample_results(2)] by blast
  have "gc_run 3 (NewGroupCoordinator sample_st, sample_docs) (fst sample_run, snd sample_run)" using sample_reached by simp
  note w = one_leader_per_generation [OF sample_start this xy]
  have "jr_GroupID x = jr_GroupID y" "jr_Generation x = jr_Generation y" "jr_LeaderID x = ''A''"
    using sample_results unfolding xy by simp_all
  with w show ?thesis using xy by simp
qed

theorem join_always_answered_witness:
  "\<exists>mid c1 d1 c3 d3 res. JoinGroup_enter (sample_args ''A'' ''x'') 0 [] (NewGroupCoordinator sample_st) sample_docs = (Inr (mid, 0), c1, d1) \<and>
     expireRound ''g'' 0 0 c1 d1 = (c3, d3) \<and> JoinGroup_wake ''g'' mid 0 False c3 = Some res"
proof -
  obtain c1 d1 where j: "JoinGroup_enter (sample_args ''A'' ''x'') 0 [] (NewGroupCoordinator sample_st) sample_docs = (Inr (''A'', 0), c1, d1)"
  proof -
    have "fst (JoinGroup_enter (sample_args ''A'' ''x'') 0 [] (NewGroupCoordinator sample_st) sample_docs) = Inr (''A'', 0)" by code_simp
    then show ?thesis using that by (metis prod.collapse)
  qed
  obtain c3 d3 where e: "expireRound ''g'' 0 0 c1 d1 = (c3, d3)" by fastforce
  have g: "ja_GroupID (sample_args ''A'' ''x'') = ''g''" by (simp add: sample_args_def)
  have s: "store_start (0 + 0 + 2) sample_st" by (rule store_start_mono [OF sample_start]) simp
  from join_always_answered [OF s gc_stop j gc_stop, unfolded g, OF e] show ?thesis using j e by blast
qed

definition sample_member :: MemberState where
  "sample_member = join_member (sample_args ''A'' ''x'') ''A''"

theorem decided_protocol_is_common_witness:
  "\<exists>lg' g'. settle \<lparr>rr_results = [], rr_joined = [''A''], rr_expected = [], rr_deadline = 0, rr_closed = False, rr_synced = False\<rparr>
     (new_live, (new_group ''g'' 0)\<lparr>gs_Members := [(''A'', sample_member)]\<rparr>) = (lg', g') \<and> gs_Protocol g' = ''range''"
proof -
  let ?r = "\<lparr>rr_results = [], rr_joined = [''A''], rr_expected = [], rr_deadline = 0, rr_closed = False, rr_synced = False\<rparr>"
  let ?g = "(new_group ''g'' 0)\<lparr>gs_Members := [(''A'', sample_member)]\<rparr>"
  obtain lg' g' where s: "settle ?r (new_live, ?g) = (lg', g')" by fastforce
  have m: "ms_MemberID sample_member = ''A''" "ms_Protocols sample_member = [''range'']"
    by (simp_all add: sample_member_def join_member_def sample_args_def)
  have ok: "members_ok ?g" by (simp add: members_ok_def m)
  have "gs_Members g' = [(''A'', sample_member)]" using settle_result(4) [OF s ok] by simp
  with decided_protocol_is_common [OF s ok, of "''range''"] show ?thesis using s m by auto
qed

end
