(* ===== verification/Record_Batch.thy ===== *)
theory Record_Batch
  imports Kw_Prelude
begin

unbundle bit_operations_syntax

text \<open>
  The v2 record batch (\<^verbatim>\<open>internal/storage/record.go\<close>, \<^verbatim>\<open>compression.go\<close>, \<^verbatim>\<open>crc.go\<close>): header
  parsing, the Castagnoli CRC as the Go library computes it, the two in-place header rewrites, and
  the admission checks. The batch is also the frame of the log file format; \<open>batch_size\<close> is
  shown to be a framing in the sense of the prelude's locale \<open>framed\<close>.
\<close>

section \<open>CRC32C\<close>

text \<open>
  \<^verbatim>\<open>crc32.MakeTable(crc32.Castagnoli)\<close> and \<^verbatim>\<open>crc32.Checksum\<close>: the reflected polynomial, a table of
  256 entries, and one table step per byte.
\<close>

definition crc_bit :: "32 word \<Rightarrow> 32 word" where
  "crc_bit c = (if c AND 1 = 1 then drop_bit 1 c XOR 0x82F63B78 else drop_bit 1 c)"

definition castagnoliTable :: "32 word \<Rightarrow> 32 word" where
  "castagnoliTable i = (crc_bit ^^ 8) i"

definition crc_update :: "32 word \<Rightarrow> byte \<Rightarrow> 32 word" where
  "crc_update c v = castagnoliTable (ucast (ucast c XOR v :: byte)) XOR drop_bit 8 c"

definition CRC32C :: "bytes \<Rightarrow> 32 word" where
  "CRC32C body = NOT (foldl crc_update (NOT 0) body)"

section \<open>Header\<close>

abbreviation v2HeaderSize :: nat where "v2HeaderSize \<equiv> 61"
abbreviation MinBatchSize :: nat where "MinBatchSize \<equiv> v2HeaderSize"
abbreviation MaxBatchSize :: nat where "MaxBatchSize \<equiv> 4194304"

record BatchHeader =
  BaseOffset :: int
  BatchLength :: int
  Magic :: int
  CRC :: int
  Attributes :: int
  LastOffsetDelta :: int
  FirstTimestamp :: int
  MaxTimestamp :: int
  ProducerID :: int
  ProducerEpoch :: int
  BaseSequence :: int
  RecordCount :: int

datatype batch_err =
    HeaderShort nat
  | UnsupportedMagic int
  | BatchLengthTooSmall int
  | BatchLengthTooBig int
  | CrcTooShort
  | CrcMismatch int int
  | UnsupportedCodec int
  | ControlMarker
  | TransactionalBatch
  | BatchTooSmall nat
  | BatchTooLarge nat
  | ParseHeader batch_err

definition zeroHeader :: BatchHeader where
  "zeroHeader = \<lparr>BaseOffset = 0, BatchLength = 0, Magic = 0, CRC = 0, Attributes = 0,
     LastOffsetDelta = 0, FirstTimestamp = 0, MaxTimestamp = 0, ProducerID = 0, ProducerEpoch = 0,
     BaseSequence = 0, RecordCount = 0\<rparr>"

definition LastOffset :: "BatchHeader \<Rightarrow> int" where
  "LastOffset h = i64 (BaseOffset h + LastOffsetDelta h)"

definition TotalSize :: "BatchHeader \<Rightarrow> int" where
  "TotalSize h = 12 + BatchLength h"

definition Compression :: "BatchHeader \<Rightarrow> int" where
  "Compression h = i8 (Attributes h AND 0x07)"

definition IsTransactional :: "BatchHeader \<Rightarrow> bool" where
  "IsTransactional h \<longleftrightarrow> Attributes h AND 0x10 \<noteq> 0"

definition IsControlBatch :: "BatchHeader \<Rightarrow> bool" where
  "IsControlBatch h \<longleftrightarrow> Attributes h AND 0x20 \<noteq> 0"

text \<open>The struct literal of \<^verbatim>\<open>ParseBatchHeader\<close>: each field's conversion of its big-endian bytes.\<close>

definition header_of :: "bytes \<Rightarrow> BatchHeader" where
  "header_of buf =
     \<lparr>BaseOffset = i64 (be_uint (gslice 0 8 buf)),
      BatchLength = i32 (be_uint (gslice 8 12 buf)),
      Magic = i8 (uint (buf ! 16)),
      CRC = be_uint (gslice 17 21 buf),
      Attributes = i16 (be_uint (gslice 21 23 buf)),
      LastOffsetDelta = i32 (be_uint (gslice 23 27 buf)),
      FirstTimestamp = i64 (be_uint (gslice 27 35 buf)),
      MaxTimestamp = i64 (be_uint (gslice 35 43 buf)),
      ProducerID = i64 (be_uint (gslice 43 51 buf)),
      ProducerEpoch = i16 (be_uint (gslice 51 53 buf)),
      BaseSequence = i32 (be_uint (gslice 53 57 buf)),
      RecordCount = i32 (be_uint (gslice 57 61 buf))\<rparr>"

text \<open>The header is returned beside the error, as in Go: some callers ignore the error.\<close>

definition ParseBatchHeader :: "bytes \<Rightarrow> BatchHeader \<times> batch_err option" where
  "ParseBatchHeader buf =
     (if length buf < v2HeaderSize then (zeroHeader, Some (HeaderShort (length buf)))
      else let h = header_of buf in
        if Magic h \<noteq> 2 then (h, Some (UnsupportedMagic (Magic h)))
        else if BatchLength h < 49 then (h, Some (BatchLengthTooSmall (BatchLength h)))
        else if BatchLength h > int MaxBatchSize then (h, Some (BatchLengthTooBig (BatchLength h)))
        else (h, None))"

definition ValidateCRC :: "bytes \<Rightarrow> batch_err option" where
  "ValidateCRC batch =
     (if length batch < v2HeaderSize then Some CrcTooShort
      else let wantCRC = be_uint (gslice 17 21 batch); gotCRC = uint (CRC32C (drop 21 batch)) in
        if gotCRC \<noteq> wantCRC then Some (CrcMismatch gotCRC wantCRC) else None)"

definition RewriteBaseOffset :: "int \<Rightarrow> bytes \<Rightarrow> bytes" where
  "RewriteBaseOffset baseOffset batch = patch 0 (put_be 8 baseOffset) batch"

definition SetPartitionLeaderEpoch :: "int \<Rightarrow> bytes \<Rightarrow> bytes" where
  "SetPartitionLeaderEpoch epoch batch = patch 12 (put_be 4 epoch) batch"

section \<open>Admission checks\<close>

definition ValidateCompressionCodec :: "int \<Rightarrow> batch_err option" where
  "ValidateCompressionCodec attributes =
     (let codec = i8 (attributes AND 0x07) in
      if codec = 0 \<or> codec = 1 \<or> codec = 2 \<or> codec = 4 then None
      else if codec = 3 then None
      else Some (UnsupportedCodec codec))"

definition ValidateBatchAttributes :: "int \<Rightarrow> batch_err option" where
  "ValidateBatchAttributes attributes =
     (case ValidateCompressionCodec attributes of
        Some e \<Rightarrow> Some e
      | None \<Rightarrow>
          if attributes AND 0x20 \<noteq> 0 then Some ControlMarker
          else if attributes AND 0x10 \<noteq> 0 then Some TransactionalBatch
          else None)"

definition ValidateBatchForAppend :: "bytes \<Rightarrow> batch_err option" where
  "ValidateBatchForAppend batch =
     (if length batch < MinBatchSize then Some (BatchTooSmall (length batch))
      else if length batch > MaxBatchSize then Some (BatchTooLarge (length batch))
      else case ParseBatchHeader batch of
        (h, Some e) \<Rightarrow> Some (ParseHeader e)
      | (h, None) \<Rightarrow>
          (case ValidateCRC batch of
             Some e \<Rightarrow> Some e
           | None \<Rightarrow> ValidateBatchAttributes (Attributes h)))"

text \<open>\<open>hdr b\<close> names the parsed header where the error is known to be nil.\<close>

abbreviation hdr :: "bytes \<Rightarrow> BatchHeader" where "hdr b \<equiv> fst (ParseBatchHeader b)"

text \<open>The size a scanner reads off the front of a buffer.\<close>

definition batch_size :: "bytes \<Rightarrow> nat option" where
  "batch_size buf = (case ParseBatchHeader buf of
      (h, None) \<Rightarrow> Some (nat (TotalSize h)) | (_, Some _) \<Rightarrow> None)"

text \<open>A whole batch: the buffer is exactly as long as its header says.\<close>

definition whole_batch :: "bytes \<Rightarrow> bool" where
  "whole_batch b \<longleftrightarrow> batch_size b = Some (length b)"

section \<open>Parsing\<close>

lemma parse_ok_iff:
  "snd (ParseBatchHeader buf) = None \<longleftrightarrow>
     v2HeaderSize \<le> length buf \<and> Magic (header_of buf) = 2 \<and>
     49 \<le> BatchLength (header_of buf) \<and> BatchLength (header_of buf) \<le> int MaxBatchSize"
  by (auto simp: ParseBatchHeader_def Let_def)

lemma parse_okD:
  assumes "ParseBatchHeader buf = (h, None)"
  shows "h = header_of buf" "61 \<le> length buf" "Magic h = 2" "61 \<le> TotalSize h"
    "TotalSize h \<le> int MaxBatchSize + 12"
  using assms by (auto simp: ParseBatchHeader_def Let_def TotalSize_def split: if_splits)

lemma hdr_header_of: "61 \<le> length buf \<Longrightarrow> hdr buf = header_of buf"
  by (simp add: ParseBatchHeader_def Let_def)

lemma header_of_append: "61 \<le> length buf \<Longrightarrow> header_of (buf @ cs) = header_of buf"
  by (simp add: header_of_def slice_append_left nth_append)

lemma ParseBatchHeader_append: "61 \<le> length buf \<Longrightarrow> ParseBatchHeader (buf @ cs) = ParseBatchHeader buf"
  by (simp add: ParseBatchHeader_def header_of_append)

lemma ParseBatchHeader_take:
  "61 \<le> k \<Longrightarrow> 61 \<le> length buf \<Longrightarrow> ParseBatchHeader (take k buf) = ParseBatchHeader buf"
  using ParseBatchHeader_append [of "take k buf" "drop k buf"] by simp

lemma batch_size_Some:
  "batch_size buf = Some n \<longleftrightarrow> (\<exists>h. ParseBatchHeader buf = (h, None) \<and> n = nat (TotalSize h))"
  by (auto simp: batch_size_def split: prod.splits option.splits)

interpretation bf: framed batch_size 61
proof unfold_locales
  show "batch_size bs = None" if "length bs < 61" for bs
    using that by (simp add: batch_size_def ParseBatchHeader_def)
  show "batch_size (bs @ cs) = batch_size bs" if "61 \<le> length bs" for bs cs
    using that by (simp add: batch_size_def ParseBatchHeader_append)
  show "61 \<le> n" if "batch_size bs = Some n" for bs n
    using that parse_okD(4) by (fastforce simp: batch_size_Some)
qed simp

lemma whole_batchD:
  assumes "whole_batch b"
  shows "ParseBatchHeader b = (header_of b, None)" "61 \<le> length b" "nat (TotalSize (header_of b)) = length b"
proof -
  obtain h where h: "ParseBatchHeader b = (h, None)" "length b = nat (TotalSize h)"
    using assms by (auto simp: whole_batch_def batch_size_Some)
  then show "ParseBatchHeader b = (header_of b, None)" "61 \<le> length b"
    "nat (TotalSize (header_of b)) = length b"
    using parse_okD [OF h(1)] by auto
qed

section \<open>In-place rewrites\<close>

lemma length_RewriteBaseOffset [simp]: "61 \<le> length b \<Longrightarrow> length (RewriteBaseOffset x b) = length b"
  by (simp add: RewriteBaseOffset_def)

lemma length_SetPartitionLeaderEpoch [simp]:
  "61 \<le> length b \<Longrightarrow> length (SetPartitionLeaderEpoch e b) = length b"
  by (simp add: SetPartitionLeaderEpoch_def)

lemma i64_be_uint_put_be [simp]: "i64 (be_uint (put_be 8 x)) = i64 x"
  using wrap_s_mod [of 64 x] by (simp add: be_uint_put_be)

lemma header_of_RewriteBaseOffset:
  assumes "61 \<le> length b"
  shows "header_of (RewriteBaseOffset x b) = (header_of b)\<lparr>BaseOffset := i64 x\<rparr>"
proof -
  let ?v = "put_be 8 x"
  have "gslice 0 8 (patch 0 ?v b) = ?v"
    using assms slice_patch_same [of 0 ?v b] by simp
  then show ?thesis
    using assms by (simp add: header_of_def RewriteBaseOffset_def slice_patch_after nth_patch_after)
qed

lemma header_of_SetPartitionLeaderEpoch:
  assumes "61 \<le> length b"
  shows "header_of (SetPartitionLeaderEpoch e b) = header_of b"
  using assms
  by (simp add: header_of_def SetPartitionLeaderEpoch_def slice_patch_after slice_patch_before nth_patch_after)

lemma ValidateCRC_cong:
  assumes "length b = length c" "drop 17 b = drop 17 c"
  shows "ValidateCRC b = ValidateCRC c"
proof -
  have "drop 21 b = drop 4 (drop 17 b)" "drop 21 c = drop 4 (drop 17 c)"
    by simp_all
  with assms have "drop 21 b = drop 21 c" by metis
  with assms show ?thesis
    by (simp add: ValidateCRC_def gslice_def)
qed

lemma ValidateCRC_rewrites [simp]:
  "61 \<le> length b \<Longrightarrow> ValidateCRC (RewriteBaseOffset x b) = ValidateCRC b"
  "61 \<le> length b \<Longrightarrow> ValidateCRC (SetPartitionLeaderEpoch e b) = ValidateCRC b"
  by (rule ValidateCRC_cong; simp add: RewriteBaseOffset_def SetPartitionLeaderEpoch_def drop_patch_after)+

text \<open>The two rewrites \<^verbatim>\<open>Log.Append\<close> applies to a batch before it is written.\<close>

abbreviation stamp :: "int \<Rightarrow> bytes \<Rightarrow> bytes" where
  "stamp x b \<equiv> SetPartitionLeaderEpoch 0 (RewriteBaseOffset x b)"

lemma header_of_stamp:
  "61 \<le> length b \<Longrightarrow> header_of (stamp x b) = (header_of b)\<lparr>BaseOffset := i64 x\<rparr>"
  by (simp add: header_of_SetPartitionLeaderEpoch header_of_RewriteBaseOffset)

lemma parse_stamp:
  "61 \<le> length b \<Longrightarrow>
   ParseBatchHeader (stamp x b) =
     (let (h, e) = ParseBatchHeader b in (h\<lparr>BaseOffset := i64 x\<rparr>, e))"
  by (simp add: ParseBatchHeader_def header_of_stamp Let_def)

lemma stamp_frame:
  assumes "61 \<le> length b"
  shows "length (stamp x b) = length b" "drop 16 (stamp x b) = drop 16 b"
    "gslice 8 12 (stamp x b) = gslice 8 12 b"
  using assms
  by (simp_all add: SetPartitionLeaderEpoch_def RewriteBaseOffset_def drop_patch_after
      slice_patch_before slice_patch_after)

lemma batch_size_stamp: "61 \<le> length b \<Longrightarrow> batch_size (stamp x b) = batch_size b"
  by (auto simp: batch_size_def parse_stamp Let_def TotalSize_def split: prod.splits option.splits)

lemma whole_batch_stamp: "whole_batch b \<Longrightarrow> whole_batch (stamp x b)"
  by (simp add: whole_batch_def batch_size_stamp bf.sz_SomeD stamp_frame(1))

section \<open>Admission\<close>

text \<open>What the two attribute checks accept, as a predicate on the attribute bits.\<close>

definition good_attributes :: "int \<Rightarrow> bool" where
  "good_attributes a \<longleftrightarrow> a AND 7 \<le> 4 \<and> \<not> bit a 4 \<and> \<not> bit a 5"

lemma and_7_range: "0 \<le> (a::int) AND 7" "(a::int) AND 7 \<le> 7"
  by (simp_all add: AND_upper2)

lemma and_pow_zero_iff: "(a::int) AND 2 ^ n = 0 \<longleftrightarrow> \<not> bit a n"
  by (metis and_exp_eq_0_iff_not_bit)

lemma ValidateCompressionCodec_iff: "ValidateCompressionCodec a = None \<longleftrightarrow> a AND 7 \<le> 4"
proof -
  obtain x where x: "x = a AND 7" "0 \<le> x" "x \<le> 7"
    using and_7_range [of a] by blast
  then have "i8 x = x" by (simp add: wrap_s_def)
  with x(2,3) show ?thesis
    unfolding ValidateCompressionCodec_def x(1) [symmetric] Let_def by auto
qed

lemma ValidateBatchAttributes_iff: "ValidateBatchAttributes a = None \<longleftrightarrow> good_attributes a"
  using and_pow_zero_iff [of a 4] and_pow_zero_iff [of a 5] ValidateCompressionCodec_iff [of a]
  by (auto simp: ValidateBatchAttributes_def good_attributes_def split: option.splits)

lemma ValidateCRC_iff:
  "ValidateCRC b = None \<longleftrightarrow> 61 \<le> length b \<and> uint (CRC32C (drop 21 b)) = be_uint (gslice 17 21 b)"
  by (auto simp: ValidateCRC_def Let_def)

lemma validate_append_iff:
  "ValidateBatchForAppend b = None \<longleftrightarrow>
     MinBatchSize \<le> length b \<and> length b \<le> MaxBatchSize \<and> snd (ParseBatchHeader b) = None \<and>
     ValidateCRC b = None \<and> good_attributes (Attributes (hdr b))"
  by (auto simp: ValidateBatchForAppend_def ValidateBatchAttributes_iff split: prod.splits option.splits)

section \<open>What the CRC detects\<close>

text \<open>The textbook bit-serial step, to which the table step is equal.\<close>

definition crc_serial :: "32 word \<Rightarrow> byte \<Rightarrow> 32 word" where
  "crc_serial c v = (crc_bit ^^ 8) (c XOR ucast v)"

lemma xor_word_cancel: "(a :: 'a::len word) XOR b = c XOR b \<Longrightarrow> a = c"
proof -
  assume "a XOR b = c XOR b"
  then have "(a XOR b) XOR b = (c XOR b) XOR b" by (rule arg_cong)
  then show "a = c" by (simp add: xor.assoc)
qed

lemma crc_bit_alt: "crc_bit c = drop_bit 1 c XOR (if bit c 0 then 0x82F63B78 else 0)"
  by (simp add: crc_bit_def bit_0 and_one_eq odd_iff_mod_2_eq_one)

lemma crc_bit_xor: "crc_bit (a XOR b) = crc_bit a XOR crc_bit b"
  by (auto simp: crc_bit_alt bit_xor_iff xor.assoc xor.left_commute intro!: bit_word_eqI)

lemma crc_bits_xor: "(crc_bit ^^ n) (a XOR b) = (crc_bit ^^ n) a XOR (crc_bit ^^ n) b"
  by (induction n) (simp_all add: crc_bit_xor)

lemma crc_bit_eq_0: "crc_bit c = 0 \<Longrightarrow> c = 0"
proof -
  assume z: "crc_bit c = 0"
  have "bit (crc_bit c) 31 = bit c 0"
    by (simp add: crc_bit_alt bit_xor_iff bit_drop_bit_eq bit_numeral_word_iff)
      (auto dest: bit_imp_le_length)
  with z have c0: "\<not> bit c 0" by simp
  with z have "drop_bit 1 c = 0" by (simp add: crc_bit_alt)
  then have "\<not> bit (drop_bit 1 c) n" for n by simp
  then have "\<not> bit c (Suc n)" for n by (simp add: bit_drop_bit_eq)
  with c0 have "\<not> bit c n" for n by (cases n) auto
  then show "c = 0" by (intro bit_word_eqI) simp
qed

lemma inj_crc_bits: "(crc_bit ^^ n) a = (crc_bit ^^ n) b \<Longrightarrow> a = b"
proof -
  have z: "(crc_bit ^^ n) c = 0 \<Longrightarrow> c = 0" for c
    by (induction n) (auto dest: crc_bit_eq_0)
  assume "(crc_bit ^^ n) a = (crc_bit ^^ n) b"
  then have "(crc_bit ^^ n) (a XOR b) = 0"
    by (simp add: crc_bits_xor)
  with z have "a XOR b = 0" by blast
  then have "a XOR b = b XOR b" by simp
  then show "a = b" by (rule xor_word_cancel)
qed

lemma crc_bits_high:
  "n \<le> 32 \<Longrightarrow> (\<And>k. k < n \<Longrightarrow> \<not> bit c k) \<Longrightarrow> (crc_bit ^^ n) c = drop_bit n c"
proof (induction n arbitrary: c)
  case (Suc n)
  have "(crc_bit ^^ Suc n) c = (crc_bit ^^ n) (crc_bit c)"
    by (simp add: funpow_swap1)
  also have "crc_bit c = drop_bit 1 c"
    using Suc.prems(2) [of 0] by (simp add: crc_bit_alt)
  also have "(crc_bit ^^ n) (drop_bit 1 c) = drop_bit n (drop_bit 1 c)"
    using Suc.prems by (intro Suc.IH) (auto simp: bit_drop_bit_eq)
  finally show ?case by simp
qed simp

lemma crc_update_serial: "crc_update c v = crc_serial c v"
proof -
  let ?lo = "ucast (ucast c XOR v :: byte) :: 32 word"
  let ?hi = "c AND NOT (mask 8)"
  have "c XOR ucast v = ?lo XOR ?hi"
    by (rule bit_word_eqI) (auto simp: bit_simps)
  then have "crc_serial c v = (crc_bit ^^ 8) ?lo XOR (crc_bit ^^ 8) ?hi"
    by (simp only: crc_serial_def crc_bits_xor)
  also have "(crc_bit ^^ 8) ?hi = drop_bit 8 ?hi"
    by (rule crc_bits_high) (auto simp: bit_simps)
  also have "drop_bit 8 ?hi = drop_bit 8 c"
    by (rule bit_word_eqI) (auto simp: bit_simps dest: bit_imp_le_length)
  finally show ?thesis by (simp add: crc_update_def castagnoliTable_def)
qed

lemma crc_update_inj_state: "crc_update c v = crc_update d v \<Longrightarrow> c = d"
  unfolding crc_update_serial crc_serial_def
  by (drule inj_crc_bits) (rule xor_word_cancel)

lemma crc_update_inj_byte: "crc_update c v = crc_update c u \<Longrightarrow> v = u"
proof -
  assume "crc_update c v = crc_update c u"
  then have "c XOR ucast v = c XOR ucast u"
    unfolding crc_update_serial crc_serial_def by (rule inj_crc_bits)
  then have "ucast v XOR c = ucast u XOR c" by (simp only: xor.commute)
  then have "(ucast v :: 32 word) = ucast u"
    by (rule xor_word_cancel)
  then show "v = u"
    by (intro bit_word_eqI) (auto simp: bit_eq_iff [where 'a = "32 word"] bit_simps)
qed

lemma foldl_crc_inj: "foldl crc_update c bs = foldl crc_update d bs \<Longrightarrow> c = d"
  by (induction bs arbitrary: c d) (auto dest: crc_update_inj_state)

lemma CRC32C_single_byte: "x \<noteq> y \<Longrightarrow> CRC32C (as @ x # bs) \<noteq> CRC32C (as @ y # bs)"
  unfolding CRC32C_def by (auto dest!: foldl_crc_inj crc_update_inj_byte)

section \<open>Evaluating the CRC\<close>

lemma crc_bit_8: "(crc_bit ^^ 8) c = crc_bit (crc_bit (crc_bit (crc_bit (crc_bit (crc_bit (crc_bit (crc_bit c)))))))"
  by (simp add: numeral_eq_Suc)

lemma unat_num32:
  assumes "(numeral m :: nat) < 4294967296"
  shows "unat (numeral m :: 32 word) = numeral m"
proof -
  have "unat (of_nat (numeral m) :: 32 word) = numeral m mod 2 ^ 32"
    by (simp only: unat_of_nat) simp
  also have "\<dots> = numeral m"
    using assms by (intro mod_less) simp
  finally show ?thesis by (simp only: of_nat_numeral)
qed

lemma crc_bit_numeral:
  "crc_bit 0 = 0" "crc_bit 1 = 0x82F63B78"
  "(numeral (Num.Bit0 n) :: nat) < 4294967296 \<Longrightarrow> crc_bit (numeral (Num.Bit0 n)) = numeral n"
  "(numeral (Num.Bit1 n) :: nat) < 4294967296 \<Longrightarrow> crc_bit (numeral (Num.Bit1 n)) = numeral n XOR 0x82F63B78"
proof -
  show "crc_bit 0 = 0" "crc_bit 1 = 0x82F63B78" by (simp_all add: crc_bit_def)
  have d: "drop_bit 1 (numeral m :: 32 word) = numeral n"
    if m: "(numeral m :: nat) < 4294967296" and n: "(numeral n :: nat) = numeral m div 2" for m
  proof -
    have "unat (drop_bit 1 (numeral m :: 32 word)) = drop_bit 1 (numeral m)"
      by (simp only: unat_drop_bit_eq unat_num32 [OF m])
    also have "\<dots> = (numeral n :: nat)" by (simp only: n drop_bit_eq_div power_one_right)
    also have "\<dots> = unat (numeral n :: 32 word)"
      using m n by (intro unat_num32 [symmetric]) linarith
    finally show ?thesis by (simp only: word_unat_eq_iff)
  qed
  show "(numeral (Num.Bit0 n) :: nat) < 4294967296 \<Longrightarrow> crc_bit (numeral (Num.Bit0 n)) = numeral n"
    using d [of "Num.Bit0 n"] by (simp add: crc_bit_alt bit_numeral_word_iff)
  show "(numeral (Num.Bit1 n) :: nat) < 4294967296 \<Longrightarrow> crc_bit (numeral (Num.Bit1 n)) = numeral n XOR 0x82F63B78"
    using d [of "Num.Bit1 n"] by (simp add: crc_bit_alt bit_numeral_word_iff)
qed

lemma crc_update_num: "crc_update c v = (crc_bit ^^ 8) (c XOR ucast v)"
  by (simp add: crc_update_serial crc_serial_def)

lemma crc_eval: "CRC32C bs = NOT (foldl crc_update 0xFFFFFFFF bs)"
proof -
  have "(NOT 0 :: 32 word) = 0xFFFFFFFF" by code_simp
  then show ?thesis by (simp only: CRC32C_def)
qed

lemma crc_check_value: "CRC32C [49,50,51,52,53,54,55,56,57] = 0xE3069283"
  by (simp add: crc_eval crc_update_num crc_bit_numeral crc_bit_8)
lemmas crc_evals = crc_eval crc_update_num crc_bit_numeral crc_bit_8

text \<open>
  A batch a client would send: three records' worth of offsets, timestamp 1000, no records blob, the
  idempotence fields at -1. It carries the right CRC and is the input of the worked examples.
\<close>

definition sample_batch :: bytes where
  "sample_batch =
     [0, 0, 0, 0, 0, 0, 0, 0, 0, 0, 0, 49, 0, 0, 0, 0, 2, 191, 252, 117, 19,
      0, 0, 0, 0, 0, 2, 0, 0, 0, 0, 0, 0, 3, 232, 0, 0, 0, 0, 0, 0, 3, 232,
      255, 255, 255, 255, 255, 255, 255, 255, 255, 255, 255, 255, 255, 255, 0, 0, 0, 3]"

lemma sample_header:
  "header_of sample_batch = \<lparr>BaseOffset = 0, BatchLength = 49, Magic = 2, CRC = 0xBFFC7513,
   Attributes = 0, LastOffsetDelta = 2, FirstTimestamp = 1000, MaxTimestamp = 1000, ProducerID = -1,
   ProducerEpoch = -1, BaseSequence = -1, RecordCount = 3\<rparr>"
  by (simp add: header_of_def sample_batch_def gslice_def be_uint_def wrap_s_def)

lemma sample_crc: "ValidateCRC sample_batch = None"
  by (simp add: ValidateCRC_def sample_batch_def gslice_def be_uint_def crc_evals)

lemma sample_length [simp]: "length sample_batch = 61"
  by (simp add: sample_batch_def)

lemma sample_parse: "ParseBatchHeader sample_batch = (header_of sample_batch, None)"
  by (simp add: ParseBatchHeader_def sample_header)

lemma sample_whole: "whole_batch sample_batch"
  by (simp add: whole_batch_def batch_size_def sample_parse sample_header TotalSize_def)

lemma sample_valid: "ValidateBatchForAppend sample_batch = None"
  by (simp add: validate_append_iff sample_parse sample_crc good_attributes_def sample_header)

lemma i8_eq_2_iff: "i8 (uint (v :: byte)) = 2 \<longleftrightarrow> v = 2"
proof
  assume a: "i8 (uint v) = 2"
  obtain k where k: "k = uint v" "0 \<le> k" "k < 256"
    using uint_byte_bounds [of v] by blast
  with a have "(k + 128) mod 256 = 130" by (simp add: wrap_s_def)
  moreover have "(k + 128) mod 256 = (k + 128 - 256) mod 256" by (simp only: minus_mod_self2)
  ultimately have "k = 2" using k(2,3) by (cases "k < 128") simp_all
  with k(1) show "v = 2" by (intro word_uint_eqI) simp
qed (simp add: wrap_s_def)

section \<open>Properties\<close>

text \<open>
  C15: the two in-place rewrites \<^verbatim>\<open>Log.Append\<close> makes (absolute base offset, leader epoch 0) change no
  byte from offset 16 on and keep the length field, so the parsed header differs in its base
  offset only and the CRC verdict and the admission verdict are exactly those of the client's bytes.
\<close>

theorem stamp_preserves_batch:
  assumes "61 \<le> length b"
  shows "length (SetPartitionLeaderEpoch 0 (RewriteBaseOffset x b)) = length b \<and>
    drop 16 (SetPartitionLeaderEpoch 0 (RewriteBaseOffset x b)) = drop 16 b \<and>
    ParseBatchHeader (SetPartitionLeaderEpoch 0 (RewriteBaseOffset x b)) =
      ((hdr b)\<lparr>BaseOffset := i64 x\<rparr>, snd (ParseBatchHeader b)) \<and>
    ValidateCRC (SetPartitionLeaderEpoch 0 (RewriteBaseOffset x b)) = ValidateCRC b \<and>
    ValidateBatchForAppend (SetPartitionLeaderEpoch 0 (RewriteBaseOffset x b)) = ValidateBatchForAppend b"
  using assms stamp_frame [OF assms] parse_stamp [OF assms]
  by (simp add: ValidateBatchForAppend_def split: prod.splits option.splits)

theorem stamp_preserves_batch_witness:
  "ValidateBatchForAppend (SetPartitionLeaderEpoch 0 (RewriteBaseOffset 1234567 sample_batch)) = None \<and>
   BaseOffset (hdr (SetPartitionLeaderEpoch 0 (RewriteBaseOffset 1234567 sample_batch))) = 1234567"
  using stamp_preserves_batch [of sample_batch 1234567]
  by (simp add: sample_valid i64_id)

text \<open>
  C16: exactly which byte strings the storage layer admits: 61 bytes to 4 MiB, magic 2, a length
  field between 49 and 4 MiB, the stored CRC equal to the CRC32C of everything from the attributes
  on, a compression codec between 0 and 4, and neither transaction bit.
\<close>

theorem admission_exact:
  "ValidateBatchForAppend b = None \<longleftrightarrow>
     61 \<le> length b \<and> length b \<le> 4194304 \<and> b ! 16 = 2 \<and>
     49 \<le> i32 (be_uint (gslice 8 12 b)) \<and> i32 (be_uint (gslice 8 12 b)) \<le> 4194304 \<and>
     uint (CRC32C (drop 21 b)) = be_uint (gslice 17 21 b) \<and>
     Compression (hdr b) \<le> 4 \<and> \<not> IsTransactional (hdr b) \<and> \<not> IsControlBatch (hdr b)"
proof (cases "61 \<le> length b")
  case True
  let ?a = "Attributes (header_of b)"
  obtain x where x: "x = ?a AND 7" "0 \<le> x" "x \<le> 7"
    using and_7_range [of ?a] by blast
  then have "i8 x = x" by (simp add: wrap_s_def)
  then have "Compression (hdr b) \<le> 4 \<longleftrightarrow> ?a AND 7 \<le> 4"
    using True by (simp add: Compression_def hdr_header_of x(1) [symmetric])
  moreover have "Magic (header_of b) = i8 (uint (b ! 16))"
    "BatchLength (header_of b) = i32 (be_uint (gslice 8 12 b))"
    by (simp_all add: header_of_def)
  ultimately show ?thesis
    using True and_pow_zero_iff [of ?a 4] and_pow_zero_iff [of ?a 5]
    by (auto simp: validate_append_iff parse_ok_iff ValidateCRC_iff good_attributes_def hdr_header_of
        IsTransactional_def IsControlBatch_def i8_eq_2_iff)
qed (simp add: validate_append_iff)

text \<open>
  C17: any change confined to one byte from the CRC field on (so in the checksum itself, the
  attributes, the rest of the header or the records) makes a batch that passed the CRC check fail
  it with a mismatch: the table-driven checksum is injective in every single byte.
\<close>

theorem single_byte_corruption_detected:
  assumes "ValidateCRC (as @ x # bs) = None" "17 \<le> length as" "x \<noteq> y"
  shows "\<exists>got want. ValidateCRC (as @ y # bs) = Some (CrcMismatch got want)"
proof -
  let ?u = "as @ x # bs" and ?v = "as @ y # bs"
  have len: "61 \<le> length ?v" and ok: "uint (CRC32C (drop 21 ?u)) = be_uint (gslice 17 21 ?u)"
    using assms(1) by (auto simp: ValidateCRC_iff)
  have "uint (CRC32C (drop 21 ?v)) \<noteq> be_uint (gslice 17 21 ?v)"
  proof (cases "21 \<le> length as")
    case True
    then have "drop 21 ?u = drop 21 as @ x # bs" "drop 21 ?v = drop 21 as @ y # bs"
      "gslice 17 21 ?u = gslice 17 21 ?v"
      by (simp_all add: gslice_def)
    moreover have "CRC32C (drop 21 as @ y # bs) \<noteq> CRC32C (drop 21 as @ x # bs)"
      using CRC32C_single_byte [of y x] assms(3) by blast
    ultimately show ?thesis using ok by (simp add: word_uint_eq_iff)
  next
    case False
    then have "drop 21 ?u = drop 21 ?v" by (simp add: drop_Cons')
    moreover have "gslice 17 21 ?u ! (length as - 17) = x" "gslice 17 21 ?v ! (length as - 17) = y"
      "length (gslice 17 21 ?u) = length (gslice 17 21 ?v)"
      using assms(2) False by (auto simp: gslice_def nth_append min_def)
    ultimately have "be_uint (gslice 17 21 ?u) \<noteq> be_uint (gslice 17 21 ?v)"
      using assms(3) be_uint_inject [of "gslice 17 21 ?u" "gslice 17 21 ?v"] by auto
    with \<open>drop 21 ?u = drop 21 ?v\<close> ok show ?thesis by simp
  qed
  with len show ?thesis by (simp add: ValidateCRC_def Let_def)
qed

theorem single_byte_corruption_detected_witness:
  "\<exists>got want. ValidateCRC (take 60 sample_batch @ [4]) = Some (CrcMismatch got want)"
proof (rule single_byte_corruption_detected [of _ 3])
  have "take 60 sample_batch @ [3] = sample_batch" by (simp add: sample_batch_def)
  then show "ValidateCRC (take 60 sample_batch @ [3]) = None" by (simp add: sample_crc)
qed simp_all

end
