(* ===== verification/Sparse_Index.thy ===== *)
theory Sparse_Index
  imports Kw_Prelude
begin

text \<open>
  The two sparse indexes beside a segment (\<^verbatim>\<open>internal/storage/index.go\<close>, \<^verbatim>\<open>timeindex.go\<close>): offset to
  file position, and timestamp to offset. Both keep their entries in memory and append fixed-size
  records to a file; a lookup is a binary search. The file handle is \<open>Some cursor\<close>, or \<open>None\<close> once
  closed.
\<close>

datatype idx_err =
    IdxOpen | IdxStat | IdxTruncate | IdxRead | IdxWrite | IdxSeek | IdxClose | IdxSync
  | IdxRelOffsetRange int
  | IdxPositionRange int

section \<open>Offset index\<close>

record indexEntry =
  RelOffset :: int
  Position :: int

record Index =
  ix_path :: string
  ix_file :: "nat option"
  ix_entries :: "indexEntry list"
  ix_lastIndexedPos :: int
  ix_interval :: int

abbreviation indexEntrySize :: nat where "indexEntrySize \<equiv> 8"

definition read_entry :: "bytes \<Rightarrow> nat \<Rightarrow> indexEntry" where
  "read_entry buf off =
     \<lparr>RelOffset = be_uint (gslice off (off + 4) buf), Position = be_uint (gslice (off + 4) (off + 8) buf)\<rparr>"

definition entry_bytes :: "indexEntry \<Rightarrow> bytes" where
  "entry_bytes e = put_be 4 (RelOffset e) @ put_be 4 (Position e)"

definition Index_load :: "Index \<Rightarrow> world \<Rightarrow> (idx_err + Index) \<times> world" where
  "Index_load i w =
     (case os_ctl w of
        (False, w) \<Rightarrow> (Inl IdxStat, w)
      | (True, w) \<Rightarrow>
          let size = length (file_data w (ix_path i)); whole = size - size mod indexEntrySize in
          case (if size mod indexEntrySize \<noteq> 0 then os_truncate (ix_path i) whole w else (True, w)) of
            (False, w) \<Rightarrow> (Inl IdxTruncate, w)
          | (True, w) \<Rightarrow>
              if whole = 0 then (Inr i, w)
              else case os_read (ix_path i) 0 whole w of
                (None, w) \<Rightarrow> (Inl IdxRead, w)
              | (Some buf, w) \<Rightarrow>
                  let es = map (\<lambda>k. read_entry buf (k * indexEntrySize)) [0..<whole div indexEntrySize] in
                  (Inr (i\<lparr>ix_entries := es, ix_lastIndexedPos := Position (last es)\<rparr>), w))"

definition OpenIndex :: "string \<Rightarrow> int \<Rightarrow> world \<Rightarrow> (idx_err + Index) \<times> world" where
  "OpenIndex path interval w =
     (case os_open path w of
        (False, w) \<Rightarrow> (Inl IdxOpen, w)
      | (True, w) \<Rightarrow>
          Index_load \<lparr>ix_path = path, ix_file = Some 0, ix_entries = [], ix_lastIndexedPos = 0,
                      ix_interval = interval\<rparr> w)"

text \<open>
  \<^verbatim>\<open>position - lastIndexedPos\<close> cannot wrap: both are non-negative file positions.
\<close>

definition Index_MaybeAppend :: "Index \<Rightarrow> int \<Rightarrow> int \<Rightarrow> world \<Rightarrow> idx_err option \<times> Index \<times> world" where
  "Index_MaybeAppend i relOffset position w =
     (if position - ix_lastIndexedPos i < ix_interval i \<and> ix_entries i \<noteq> [] then (None, i, w)
      else if relOffset < 0 \<or> relOffset > 0xFFFFFFFF then (Some (IdxRelOffsetRange relOffset), i, w)
      else if position < 0 \<or> position > 0xFFFFFFFF then (Some (IdxPositionRange position), i, w)
      else
        let e = \<lparr>RelOffset = u32 relOffset, Position = u32 position\<rparr> in
        case ix_file i of
          None \<Rightarrow> (Some IdxWrite, i, w)
        | Some cur \<Rightarrow>
            (case os_write (ix_path i) cur (entry_bytes e) w of
               (False, cur, w) \<Rightarrow> (Some IdxWrite, i\<lparr>ix_file := Some cur\<rparr>, w)
             | (True, cur, w) \<Rightarrow>
                 (None, i\<lparr>ix_file := Some cur, ix_entries := ix_entries i @ [e],
                          ix_lastIndexedPos := position\<rparr>, w)))"

definition LookupPosition :: "Index \<Rightarrow> int \<Rightarrow> int \<times> bool" where
  "LookupPosition i relOffset =
     (if ix_entries i = [] then (0, False)
      else
        let target = u32 relOffset;
            idx = sort_search (length (ix_entries i)) (\<lambda>k. RelOffset (ix_entries i ! k) > target) in
        if idx = 0 then (0, True) else (Position (ix_entries i ! (idx - 1)), True))"

definition Index_Close :: "Index \<Rightarrow> world \<Rightarrow> idx_err option \<times> Index \<times> world" where
  "Index_Close i w =
     (case ix_file i of
        None \<Rightarrow> (None, i, w)
      | Some _ \<Rightarrow>
          (case os_ctl w of (ok, w) \<Rightarrow> (if ok then None else Some IdxClose, i\<lparr>ix_file := None\<rparr>, w)))"

definition Index_Sync :: "Index \<Rightarrow> world \<Rightarrow> idx_err option \<times> world" where
  "Index_Sync i w =
     (case ix_file i of
        None \<Rightarrow> (None, w)
      | Some _ \<Rightarrow> (case os_ctl w of (ok, w) \<Rightarrow> (if ok then None else Some IdxSync, w)))"

definition Index_Reset :: "Index \<Rightarrow> world \<Rightarrow> idx_err option \<times> Index \<times> world" where
  "Index_Reset i w =
     (let i = i\<lparr>ix_entries := [], ix_lastIndexedPos := 0\<rparr> in
      case ix_file i of
        None \<Rightarrow> (None, i, w)
      | Some _ \<Rightarrow>
          (case os_truncate (ix_path i) 0 w of
             (False, w) \<Rightarrow> (Some IdxTruncate, i, w)
           | (True, w) \<Rightarrow>
               (case os_ctl w of
                  (False, w) \<Rightarrow> (Some IdxSeek, i, w)
                | (True, w) \<Rightarrow> (None, i\<lparr>ix_file := Some 0\<rparr>, w))))"

section \<open>Timestamp index\<close>

record timeEntry =
  te_Timestamp :: int
  te_RelOffset :: int

record TimeIndex =
  tx_path :: string
  tx_file :: "nat option"
  tx_entries :: "timeEntry list"
  tx_lastIndexedPos :: int
  tx_lastTS :: int
  tx_interval :: int

abbreviation timeIndexEntrySize :: nat where "timeIndexEntrySize \<equiv> 16"

definition read_time_entry :: "bytes \<Rightarrow> nat \<Rightarrow> timeEntry" where
  "read_time_entry buf off =
     \<lparr>te_Timestamp = i64 (be_uint (gslice off (off + 8) buf)),
      te_RelOffset = be_uint (gslice (off + 8) (off + 12) buf)\<rparr>"

definition time_entry_bytes :: "timeEntry \<Rightarrow> bytes" where
  "time_entry_bytes e = put_be 8 (te_Timestamp e) @ put_be 4 (te_RelOffset e) @ [0, 0, 0, 0]"

text \<open>Loading restores the last timestamp but, unlike the offset index, not the last position.\<close>

definition TimeIndex_load :: "TimeIndex \<Rightarrow> world \<Rightarrow> (idx_err + TimeIndex) \<times> world" where
  "TimeIndex_load t w =
     (case os_ctl w of
        (False, w) \<Rightarrow> (Inl IdxStat, w)
      | (True, w) \<Rightarrow>
          let size = length (file_data w (tx_path t)); whole = size - size mod timeIndexEntrySize in
          case (if size mod timeIndexEntrySize \<noteq> 0 then os_truncate (tx_path t) whole w else (True, w)) of
            (False, w) \<Rightarrow> (Inl IdxTruncate, w)
          | (True, w) \<Rightarrow>
              if whole = 0 then (Inr t, w)
              else case os_read (tx_path t) 0 whole w of
                (None, w) \<Rightarrow> (Inl IdxRead, w)
              | (Some buf, w) \<Rightarrow>
                  let es = map (\<lambda>k. read_time_entry buf (k * timeIndexEntrySize)) [0..<whole div timeIndexEntrySize] in
                  (Inr (t\<lparr>tx_entries := es, tx_lastTS := te_Timestamp (last es)\<rparr>), w))"

definition OpenTimeIndex :: "string \<Rightarrow> int \<Rightarrow> world \<Rightarrow> (idx_err + TimeIndex) \<times> world" where
  "OpenTimeIndex path interval w =
     (case os_open path w of
        (False, w) \<Rightarrow> (Inl IdxOpen, w)
      | (True, w) \<Rightarrow>
          TimeIndex_load \<lparr>tx_path = path, tx_file = Some 0, tx_entries = [], tx_lastIndexedPos = 0,
                          tx_lastTS = 0, tx_interval = interval\<rparr> w)"

definition TimeIndex_MaybeAppend ::
  "TimeIndex \<Rightarrow> int \<Rightarrow> int \<Rightarrow> int \<Rightarrow> world \<Rightarrow> idx_err option \<times> TimeIndex \<times> world" where
  "TimeIndex_MaybeAppend t ts relOffset position w =
     (if position - tx_lastIndexedPos t < tx_interval t \<and> tx_entries t \<noteq> [] then (None, t, w)
      else
        let ts = (if ts \<le> tx_lastTS t \<and> tx_entries t \<noteq> [] then i64 (tx_lastTS t + 1) else ts) in
        if relOffset < 0 \<or> relOffset > 0xFFFFFFFF then (Some (IdxRelOffsetRange relOffset), t, w)
        else
          let e = \<lparr>te_Timestamp = ts, te_RelOffset = u32 relOffset\<rparr> in
          case tx_file t of
            None \<Rightarrow> (Some IdxWrite, t, w)
          | Some cur \<Rightarrow>
              (case os_write (tx_path t) cur (time_entry_bytes e) w of
                 (False, cur, w) \<Rightarrow> (Some IdxWrite, t\<lparr>tx_file := Some cur\<rparr>, w)
               | (True, cur, w) \<Rightarrow>
                   (None, t\<lparr>tx_file := Some cur, tx_entries := tx_entries t @ [e],
                            tx_lastIndexedPos := position, tx_lastTS := ts\<rparr>, w)))"

definition LookupOffset :: "TimeIndex \<Rightarrow> int \<Rightarrow> int \<times> bool" where
  "LookupOffset t ts =
     (if tx_entries t = [] then (0, False)
      else
        let idx = sort_search (length (tx_entries t)) (\<lambda>k. te_Timestamp (tx_entries t ! k) \<ge> ts) in
        if idx = length (tx_entries t) then (0, False)
        else (te_RelOffset (tx_entries t ! idx), True))"

definition TimeIndex_Close :: "TimeIndex \<Rightarrow> world \<Rightarrow> idx_err option \<times> TimeIndex \<times> world" where
  "TimeIndex_Close t w =
     (case tx_file t of
        None \<Rightarrow> (None, t, w)
      | Some _ \<Rightarrow>
          (case os_ctl w of (ok, w) \<Rightarrow> (if ok then None else Some IdxClose, t\<lparr>tx_file := None\<rparr>, w)))"

definition TimeIndex_Sync :: "TimeIndex \<Rightarrow> world \<Rightarrow> idx_err option \<times> world" where
  "TimeIndex_Sync t w =
     (case tx_file t of
        None \<Rightarrow> (None, w)
      | Some _ \<Rightarrow> (case os_ctl w of (ok, w) \<Rightarrow> (if ok then None else Some IdxSync, w)))"

definition TimeIndex_Reset :: "TimeIndex \<Rightarrow> world \<Rightarrow> idx_err option \<times> TimeIndex \<times> world" where
  "TimeIndex_Reset t w =
     (let t = t\<lparr>tx_entries := [], tx_lastIndexedPos := 0, tx_lastTS := 0\<rparr> in
      case tx_file t of
        None \<Rightarrow> (None, t, w)
      | Some _ \<Rightarrow>
          (case os_truncate (tx_path t) 0 w of
             (False, w) \<Rightarrow> (Some IdxTruncate, t, w)
           | (True, w) \<Rightarrow>
               (case os_ctl w of
                  (False, w) \<Rightarrow> (Some IdxSeek, t, w)
                | (True, w) \<Rightarrow> (None, t\<lparr>tx_file := Some 0\<rparr>, w))))"

definition TimeIndex_MaxTimestamp :: "TimeIndex \<Rightarrow> int" where
  "TimeIndex_MaxTimestamp t = tx_lastTS t"

section \<open>Fixed-size records in a file\<close>

lemma concat_map_nth:
  assumes "\<And>x. x \<in> set xs \<Longrightarrow> length (f x) = n" "k < length xs"
  shows "take n (drop (k * n) (concat (map f xs) @ junk)) = f (xs ! k)"
  using assms
proof (induction xs arbitrary: k)
  case (Cons x xs)
  have x: "length (f x) = n" using Cons.prems(1) by simp
  show ?case
  proof (cases k)
    case 0
    with x show ?thesis by simp
  next
    case (Suc m)
    with Cons.IH [of m] Cons.prems x show ?thesis by simp
  qed
qed simp

lemma length_concat_map:
  "(\<And>x. x \<in> set xs \<Longrightarrow> length (f x) = n) \<Longrightarrow> length (concat (map f xs)) = length xs * n"
  by (induction xs) auto

lemma map_read_chunks:
  assumes "\<And>x. x \<in> set xs \<Longrightarrow> length (f x) = n" "\<And>x buf k. x \<in> set xs \<Longrightarrow> take n (drop k buf) = f x \<Longrightarrow> g buf k = x"
  shows "map (\<lambda>k. g (concat (map f xs)) (k * n)) [0..<length xs] = xs"
proof (rule nth_equalityI)
  fix k
  assume "k < length (map (\<lambda>k. g (concat (map f xs)) (k * n)) [0..<length xs])"
  then have k: "k < length xs" by simp
  have "take n (drop (k * n) (concat (map f xs))) = f (xs ! k)"
    using concat_map_nth [OF assms(1) k, where junk = "[]"] by simp
  then have "g (concat (map f xs)) (k * n) = xs ! k"
    by (rule assms(2) [OF nth_mem [OF k]])
  with k show "map (\<lambda>k. g (concat (map f xs)) (k * n)) [0..<length xs] ! k = xs ! k" by simp
qed simp

definition entry_ok :: "indexEntry \<Rightarrow> bool" where
  "entry_ok e \<longleftrightarrow> 0 \<le> RelOffset e \<and> RelOffset e \<le> 0xFFFFFFFF \<and> 0 \<le> Position e \<and> Position e \<le> 0xFFFFFFFF"

definition time_entry_ok :: "timeEntry \<Rightarrow> bool" where
  "time_entry_ok e \<longleftrightarrow> in_i64 (te_Timestamp e) \<and> 0 \<le> te_RelOffset e \<and> te_RelOffset e \<le> 0xFFFFFFFF"

lemma length_entry_bytes [simp]: "length (entry_bytes e) = 8"
  by (simp add: entry_bytes_def)

lemma length_time_entry_bytes [simp]: "length (time_entry_bytes e) = 16"
  by (simp add: time_entry_bytes_def)

lemma gslice_of_chunk:
  assumes "take n (drop k buf) = bs" "b \<le> n"
  shows "gslice (k + a) (k + b) buf = gslice a b bs"
proof -
  have "gslice a b bs = take (b - a) (drop a (take n (drop k buf)))"
    by (simp add: gslice_def assms(1))
  also have "\<dots> = take (b - a) (take (n - a) (drop (a + k) buf))"
    by (simp add: drop_take)
  also have "\<dots> = take (b - a) (drop (a + k) buf)"
    using assms(2) by (simp add: min_def)
  finally show ?thesis by (simp add: gslice_def add.commute)
qed

lemma read_entry_bytes:
  assumes "entry_ok e" "take 8 (drop k buf) = entry_bytes e"
  shows "read_entry buf k = e"
proof -
  have "gslice (k + 0) (k + 4) buf = put_be 4 (RelOffset e)"
    using gslice_of_chunk [OF assms(2), of 4 0] by (simp add: entry_bytes_def gslice_def)
  moreover have "gslice (k + 4) (k + 8) buf = put_be 4 (Position e)"
    using gslice_of_chunk [OF assms(2), of 8 4] by (simp add: entry_bytes_def gslice_def)
  ultimately show ?thesis
    using assms(1) by (simp add: read_entry_def be_uint_put_be entry_ok_def)
qed

lemma read_time_entry_bytes:
  assumes "time_entry_ok e" "take 16 (drop k buf) = time_entry_bytes e"
  shows "read_time_entry buf k = e"
proof -
  have "gslice (k + 0) (k + 8) buf = put_be 8 (te_Timestamp e)"
    using gslice_of_chunk [OF assms(2), of 8 0] by (simp add: time_entry_bytes_def gslice_def)
  moreover have "gslice (k + 8) (k + 12) buf = put_be 4 (te_RelOffset e)"
    using gslice_of_chunk [OF assms(2), of 12 8] by (simp add: time_entry_bytes_def gslice_def)
  moreover have "i64 (be_uint (put_be 8 (te_Timestamp e))) = te_Timestamp e"
    using assms(1) wrap_s_mod [of 64 "te_Timestamp e"] by (simp add: be_uint_put_be time_entry_ok_def i64_in)
  ultimately show ?thesis
    using assms(1) by (simp add: read_time_entry_def be_uint_put_be time_entry_ok_def)
qed

section \<open>Invariants and lookups\<close>

text \<open>
  The order both indexes keep: entries are written in log order, so offsets never decrease and
  positions grow; timestamps grow strictly because \<^verbatim>\<open>MaybeAppend\<close> clamps them.
\<close>

definition ix_sorted :: "Index \<Rightarrow> bool" where
  "ix_sorted i \<longleftrightarrow>
     sorted_wrt (\<lambda>a b. RelOffset a \<le> RelOffset b \<and> Position a < Position b) (ix_entries i) \<and>
     (\<forall>e \<in> set (ix_entries i). entry_ok e \<and> Position e \<le> ix_lastIndexedPos i)"

definition tx_sorted :: "TimeIndex \<Rightarrow> bool" where
  "tx_sorted t \<longleftrightarrow>
     sorted_wrt (\<lambda>a b. te_Timestamp a < te_Timestamp b) (tx_entries t) \<and>
     (\<forall>e \<in> set (tx_entries t). te_Timestamp e \<le> tx_lastTS t)"

lemma LookupPosition_below:
  assumes "LookupPosition i rel = (p, ok)" "p \<noteq> 0"
  shows "\<exists>e \<in> set (ix_entries i). Position e = p \<and> RelOffset e \<le> u32 rel"
proof -
  define n where "n = length (ix_entries i)"
  define r where "r = sort_search n (\<lambda>k. RelOffset (ix_entries i ! k) > u32 rel)"
  have r: "0 < r" "p = Position (ix_entries i ! (r - 1))"
    using assms by (auto simp: LookupPosition_def Let_def n_def r_def split: if_splits)
  then have "r - 1 < n" "RelOffset (ix_entries i ! (r - 1)) \<le> u32 rel"
    using sort_search_edge(1,2) [of n "\<lambda>k. RelOffset (ix_entries i ! k) > u32 rel"]
    by (auto simp: r_def [symmetric] not_less)
  with r(2) show ?thesis by (auto simp: n_def)
qed

lemma LookupPosition_cases:
  assumes "ix_sorted i" "ix_entries i \<noteq> []" "0 \<le> rel" "rel \<le> 0xFFFFFFFF"
  shows "(\<forall>e \<in> set (ix_entries i). rel < RelOffset e) \<and> LookupPosition i rel = (0, True) \<or>
    (\<exists>k < length (ix_entries i). LookupPosition i rel = (Position (ix_entries i ! k), True) \<and>
       RelOffset (ix_entries i ! k) \<le> rel \<and>
       (\<forall>j < length (ix_entries i). k < j \<longrightarrow> rel < RelOffset (ix_entries i ! j)))"
proof -
  define es where "es = ix_entries i"
  let ?f = "\<lambda>k. RelOffset (es ! k) > rel"
  define r where "r = sort_search (length es) ?f"
  have mono: "?f a \<Longrightarrow> a \<le> b \<Longrightarrow> b < length es \<Longrightarrow> ?f b" for a b
    using assms(1) sorted_wrt_nth_less [of _ es a b]
    by (cases "a = b") (fastforce simp: ix_sorted_def es_def [symmetric])+
  have edge: "?f k \<longleftrightarrow> r \<le> k" if "k < length es" for k
    unfolding r_def by (rule sort_search_mono [OF mono that])
  have look: "LookupPosition i rel = (if r = 0 then (0, True) else (Position (es ! (r - 1)), True))"
    using assms(2-4) by (simp add: LookupPosition_def Let_def es_def r_def u32_id)
  show ?thesis
  proof (cases "r = 0")
    case True
    then show ?thesis
      using edge look by (auto simp: es_def in_set_conv_nth)
  next
    case False
    then have "r - 1 < length es"
      using sort_search_edge(1) [of "length es" ?f] by (simp add: r_def)
    moreover from this have "RelOffset (es ! (r - 1)) \<le> rel"
      using edge [of "r - 1"] False by auto
    ultimately show ?thesis
      using False edge look by (intro disjI2 exI [of _ "r - 1"]) (auto simp: es_def [symmetric])
  qed
qed

lemma ix_sorted_empty [simp]: "ix_entries i = [] \<Longrightarrow> ix_sorted i"
  by (simp add: ix_sorted_def)

lemma Index_MaybeAppend_sorted:
  assumes "Index_MaybeAppend i rel pos w = (r, i', w')" "ix_sorted i"
    "\<And>e. e \<in> set (ix_entries i) \<Longrightarrow> RelOffset e \<le> rel \<and> Position e < pos"
  shows "ix_sorted i'"
  using assms
  by (fastforce simp: Index_MaybeAppend_def ix_sorted_def sorted_wrt_append entry_ok_def u32_id Let_def
      split: if_splits option.splits prod.splits bool.splits)

lemma tx_sorted_empty [simp]: "tx_entries t = [] \<Longrightarrow> tx_sorted t"
  by (simp add: tx_sorted_def)

lemma TimeIndex_MaybeAppend_sorted:
  assumes "TimeIndex_MaybeAppend t ts rel pos w = (r, t', w')" "tx_sorted t" "tx_lastTS t < max_i64"
    "- 9223372036854775808 \<le> tx_lastTS t"
  shows "tx_sorted t'"
proof -
  have "i64 (tx_lastTS t + 1) = tx_lastTS t + 1"
    using assms(3,4) by (intro i64_id) auto
  with assms(1,2) show ?thesis
    by (fastforce simp: TimeIndex_MaybeAppend_def tx_sorted_def sorted_wrt_append Let_def
        split: if_splits option.splits prod.splits bool.splits)
qed

lemma LookupOffset_cases:
  assumes "tx_sorted t"
  shows "case LookupOffset t ts of
      (rel, False) \<Rightarrow> \<forall>e \<in> set (tx_entries t). te_Timestamp e < ts
    | (rel, True) \<Rightarrow> \<exists>k < length (tx_entries t). rel = te_RelOffset (tx_entries t ! k) \<and>
        ts \<le> te_Timestamp (tx_entries t ! k) \<and>
        (\<forall>j < k. te_Timestamp (tx_entries t ! j) < ts)"
proof -
  define es where "es = tx_entries t"
  let ?f = "\<lambda>k. ts \<le> te_Timestamp (es ! k)"
  define r where "r = sort_search (length es) ?f"
  have mono: "?f a \<Longrightarrow> a \<le> b \<Longrightarrow> b < length es \<Longrightarrow> ?f b" for a b
    using assms sorted_wrt_nth_less [of _ es a b]
    by (cases "a = b") (fastforce simp: tx_sorted_def es_def [symmetric])+
  have edge: "?f k \<longleftrightarrow> r \<le> k" if "k < length es" for k
    unfolding r_def by (rule sort_search_mono [OF mono that])
  have look: "LookupOffset t ts = (if r = length es then (0, False) else (te_RelOffset (es ! r), True))"
    by (auto simp: LookupOffset_def Let_def es_def r_def sort_search_def search_loop.simps)
  have "r \<le> length es" using sort_search_edge(1) by (simp add: r_def)
  then consider "r = length es" | "r < length es" by linarith
  then show ?thesis
  proof cases
    case 1
    then show ?thesis
      using edge look by (auto simp: es_def [symmetric] in_set_conv_nth not_le [symmetric])
  next
    case 2
    then show ?thesis
      using edge look by (auto simp: es_def [symmetric] not_le [symmetric] intro!: exI [of _ r])
  qed
qed

section \<open>Frames\<close>

lemma Index_MaybeAppend_frame:
  assumes "Index_MaybeAppend i rel pos w = (r, i', w')"
  shows "touches {ix_path i} w w'" "ix_path i' = ix_path i"
    "ix_file i' = None \<longleftrightarrow> ix_file i = None" "ix_interval i' = ix_interval i"
    "ix_entries i' = ix_entries i \<or>
     ix_entries i' = ix_entries i @ [\<lparr>RelOffset = rel, Position = pos\<rparr>] \<and>
     0 \<le> rel \<and> rel \<le> 0xFFFFFFFF \<and> 0 \<le> pos \<and> pos \<le> 0xFFFFFFFF"
  using assms touches_os_write [where P = "{ix_path i}" and name = "ix_path i"]
  by (auto simp: Index_MaybeAppend_def Let_def u32_id split: if_splits option.splits prod.splits bool.splits)

lemma TimeIndex_MaybeAppend_frame:
  assumes "TimeIndex_MaybeAppend t ts rel pos w = (r, t', w')"
  shows "touches {tx_path t} w w'" "tx_path t' = tx_path t"
    "tx_file t' = None \<longleftrightarrow> tx_file t = None" "tx_interval t' = tx_interval t"
  using assms touches_os_write [where P = "{tx_path t}" and name = "tx_path t"]
  by (auto simp: TimeIndex_MaybeAppend_def Let_def split: if_splits option.splits prod.splits bool.splits)

lemma Index_load_frame:
  assumes "Index_load i w = (r, w')"
  shows "touches {ix_path i} w w'"
    "r = Inr i' \<Longrightarrow> ix_path i' = ix_path i \<and> ix_file i' = ix_file i \<and> ix_interval i' = ix_interval i"
  using assms
  by (auto simp: Index_load_def Let_def split: prod.splits bool.splits if_splits option.splits
      dest!: touches_os_ctl [where P = "{ix_path i}"] touches_os_truncate [where P = "{ix_path i}"]
        touches_os_read [where P = "{ix_path i}"]
      intro: touches_trans)

lemma TimeIndex_load_frame:
  assumes "TimeIndex_load t w = (r, w')"
  shows "touches {tx_path t} w w'"
    "r = Inr t' \<Longrightarrow> tx_path t' = tx_path t \<and> tx_file t' = tx_file t \<and> tx_interval t' = tx_interval t"
  using assms
  by (auto simp: TimeIndex_load_def Let_def split: prod.splits bool.splits if_splits option.splits
      dest!: touches_os_ctl [where P = "{tx_path t}"] touches_os_truncate [where P = "{tx_path t}"]
        touches_os_read [where P = "{tx_path t}"]
      intro: touches_trans)

lemma OpenIndex_frame:
  assumes "OpenIndex path iv w = (r, w')"
  shows "touches {path} w w'"
    "r = Inr i \<Longrightarrow> ix_path i = path \<and> ix_file i = Some 0 \<and> ix_interval i = iv"
proof -
  show "touches {path} w w'"
    using assms
    by (auto simp: OpenIndex_def split: prod.splits bool.splits
        dest!: touches_os_open [where P = "{path}"] Index_load_frame(1) intro: touches_trans)
  show "r = Inr i \<Longrightarrow> ix_path i = path \<and> ix_file i = Some 0 \<and> ix_interval i = iv"
    using assms by (auto simp: OpenIndex_def split: prod.splits bool.splits dest: Index_load_frame(2))
qed

lemma OpenTimeIndex_frame:
  assumes "OpenTimeIndex path iv w = (r, w')"
  shows "touches {path} w w'"
    "r = Inr t \<Longrightarrow> tx_path t = path \<and> tx_file t = Some 0 \<and> tx_interval t = iv"
proof -
  show "touches {path} w w'"
    using assms
    by (auto simp: OpenTimeIndex_def split: prod.splits bool.splits
        dest!: touches_os_open [where P = "{path}"] TimeIndex_load_frame(1) intro: touches_trans)
  show "r = Inr t \<Longrightarrow> tx_path t = path \<and> tx_file t = Some 0 \<and> tx_interval t = iv"
    using assms by (auto simp: OpenTimeIndex_def split: prod.splits bool.splits dest: TimeIndex_load_frame(2))
qed

lemma Index_Reset_frame:
  assumes "Index_Reset i w = (r, i', w')"
  shows "touches {ix_path i} w w'" "ix_entries i' = []" "ix_path i' = ix_path i"
    "ix_file i' = None \<longleftrightarrow> ix_file i = None" "w_plan w = [] \<Longrightarrow> r = None"
  using assms
  by (auto simp: Index_Reset_def Let_def os_simps split: prod.splits bool.splits option.splits
      dest!: touches_os_ctl [where P = "{ix_path i}"] touches_os_truncate [where P = "{ix_path i}"]
      intro: touches_trans)

lemma TimeIndex_Reset_frame:
  assumes "TimeIndex_Reset t w = (r, t', w')"
  shows "touches {tx_path t} w w'" "tx_entries t' = []" "tx_path t' = tx_path t"
    "tx_file t' = None \<longleftrightarrow> tx_file t = None" "w_plan w = [] \<Longrightarrow> r = None"
  using assms
  by (auto simp: TimeIndex_Reset_def Let_def os_simps split: prod.splits bool.splits option.splits
      dest!: touches_os_ctl [where P = "{tx_path t}"] touches_os_truncate [where P = "{tx_path t}"]
      intro: touches_trans)

lemma OpenIndex_ok: "w_plan w = [] \<Longrightarrow> \<exists>i w'. OpenIndex path iv w = (Inr i, w')"
  by (auto simp: OpenIndex_def Index_load_def Let_def os_simps)

lemma OpenTimeIndex_ok: "w_plan w = [] \<Longrightarrow> \<exists>t w'. OpenTimeIndex path iv w = (Inr t, w')"
  by (auto simp: OpenTimeIndex_def TimeIndex_load_def Let_def os_simps)

section \<open>Reopening\<close>

lemma OpenIndex_reads_entries:
  assumes "w_plan w = []" "file_data w path = concat (map entry_bytes es) @ junk" "length junk < 8"
    "\<forall>e \<in> set es. entry_ok e"
  obtains w' where
    "OpenIndex path iv w =
       (Inr \<lparr>ix_path = path, ix_file = Some 0, ix_entries = es,
             ix_lastIndexedPos = (if es = [] then 0 else Position (last es)), ix_interval = iv\<rparr>, w')"
    "file_data w' path = concat (map entry_bytes es)" "w_plan w' = []"
    "\<And>p. p \<noteq> path \<Longrightarrow> file_data w' p = file_data w p"
proof -
  define cat where "cat = concat (map entry_bytes es)"
  have len: "length cat = length es * 8"
    unfolding cat_def by (rule length_concat_map) simp
  have es: "map (\<lambda>k. read_entry cat (k * 8)) [0..<length es] = es"
    unfolding cat_def using assms(4) by (intro map_read_chunks) (auto intro: read_entry_bytes)
  define w1 where "w1 = put_file path (file_of w path) w"
  define w' where "w' = (if junk = [] then w1
     else put_file path \<lparr>fdata = cat, mtime = w_now w\<rparr> w1)"
  have w1: "file_data w1 path = cat @ junk" "w_plan w1 = []" "w_now w1 = w_now w"
    using assms(1,2) by (simp_all add: w1_def cat_def os_simps file_data_def)
  have sz: "(length es * 8 + length junk) mod 8 = length junk"
    using assms(3) by simp
  have "OpenIndex path iv w =
       (Inr \<lparr>ix_path = path, ix_file = Some 0, ix_entries = es,
             ix_lastIndexedPos = (if es = [] then 0 else Position (last es)), ix_interval = iv\<rparr>, w')"
    using assms(1) w1 es len sz
    by (auto simp: OpenIndex_def Index_load_def Let_def os_simps w1_def [symmetric] w'_def)
  moreover have "file_data w' path = cat" "w_plan w' = []"
    using w1 by (auto simp: w'_def os_simps)
  moreover have "file_data w' p = file_data w p" if "p \<noteq> path" for p
    using that by (simp add: w'_def w1_def os_simps)
  ultimately show ?thesis
    using that unfolding cat_def by blast
qed

section \<open>Properties\<close>

text \<open>
  C20: a lookup in the offset index returns the position of the last entry whose relative
  offset does not exceed the target, and byte 0 when every entry is past it: all later entries
  are strictly beyond the target, so a forward scan from the answer cannot have skipped it.
\<close>

theorem LookupPosition_correct:
  assumes "ix_sorted i" "ix_entries i \<noteq> []" "0 \<le> rel" "rel \<le> 0xFFFFFFFF"
  shows "(\<forall>e \<in> set (ix_entries i). rel < RelOffset e) \<and> LookupPosition i rel = (0, True) \<or>
    (\<exists>k < length (ix_entries i). LookupPosition i rel = (Position (ix_entries i ! k), True) \<and>
       RelOffset (ix_entries i ! k) \<le> rel \<and>
       (\<forall>j < length (ix_entries i). k < j \<longrightarrow> rel < RelOffset (ix_entries i ! j)))"
  using assms by (rule LookupPosition_cases)

definition sample_index :: Index where
  "sample_index = \<lparr>ix_path = ''p'', ix_file = Some 24,
     ix_entries = [\<lparr>RelOffset = 0, Position = 0\<rparr>, \<lparr>RelOffset = 7, Position = 20000\<rparr>,
                   \<lparr>RelOffset = 15, Position = 40000\<rparr>],
     ix_lastIndexedPos = 40000, ix_interval = 16384\<rparr>"

theorem LookupPosition_correct_witness:
  "ix_sorted sample_index \<and> LookupPosition sample_index 9 = (20000, True) \<and>
   ((\<forall>e \<in> set (ix_entries sample_index). 9 < RelOffset e) \<and> LookupPosition sample_index 9 = (0, True) \<or>
    (\<exists>k < length (ix_entries sample_index).
       LookupPosition sample_index 9 = (Position (ix_entries sample_index ! k), True) \<and>
       RelOffset (ix_entries sample_index ! k) \<le> 9 \<and>
       (\<forall>j < length (ix_entries sample_index). k < j \<longrightarrow> 9 < RelOffset (ix_entries sample_index ! j))))"
proof (intro conjI)
  show sorted: "ix_sorted sample_index"
    by (simp add: ix_sorted_def sample_index_def entry_ok_def)
  show "LookupPosition sample_index 9 = (20000, True)"
    by (simp add: LookupPosition_def sample_index_def Let_def sort_search_def search_loop.simps wrap_u_def)
qed (rule LookupPosition_correct, simp_all add: ix_sorted_def sample_index_def entry_ok_def)

text \<open>
  C21: reopening an offset index after a crash. Whatever the entries on file, and however
  many bytes of a torn last record follow them, opening yields exactly those entries, truncates the
  torn bytes from the file and touches no other file.
\<close>

theorem OpenIndex_after_crash:
  assumes "w_plan w = []" "file_data w path = concat (map entry_bytes es) @ junk" "length junk < 8"
    "\<forall>e \<in> set es. entry_ok e"
  shows "\<exists>i w'. OpenIndex path iv w = (Inr i, w') \<and> ix_entries i = es \<and>
    ix_lastIndexedPos i = (if es = [] then 0 else Position (last es)) \<and>
    file_data w' path = concat (map entry_bytes es) \<and>
    (\<forall>p. p \<noteq> path \<longrightarrow> file_data w' p = file_data w p)"
  using OpenIndex_reads_entries [OF assms, of iv] by fastforce

theorem OpenIndex_after_crash_witness:
  "\<exists>i w'. OpenIndex ''x'' 16384 \<lparr>w_plan = [],
      w_dir = [(''x'', \<lparr>fdata = [0, 0, 0, 7, 0, 0, 78, 32, 9, 9], mtime = 0\<rparr>)], w_now = 5, w_paused = False\<rparr>
     = (Inr i, w') \<and> ix_entries i = [\<lparr>RelOffset = 7, Position = 20000\<rparr>]"
  using OpenIndex_after_crash [of "\<lparr>w_plan = [],
      w_dir = [(''x'', \<lparr>fdata = [0, 0, 0, 7, 0, 0, 78, 32, 9, 9], mtime = 0\<rparr>)], w_now = 5, w_paused = False\<rparr>"
      "''x''" "[\<lparr>RelOffset = 7, Position = 20000\<rparr>]" "[9, 9]" 16384]
  by (auto simp: file_data_def file_of_def entry_bytes_def entry_ok_def put_be_4)

text \<open>
  A lookup in the timestamp index returns the first sampled batch whose (clamped)
  timestamp reaches the target, and nothing exactly when every sampled timestamp is below it.
\<close>

theorem LookupOffset_correct:
  assumes "tx_sorted t"
  shows "case LookupOffset t ts of
      (rel, False) \<Rightarrow> \<forall>e \<in> set (tx_entries t). te_Timestamp e < ts
    | (rel, True) \<Rightarrow> \<exists>k < length (tx_entries t). rel = te_RelOffset (tx_entries t ! k) \<and>
        ts \<le> te_Timestamp (tx_entries t ! k) \<and>
        (\<forall>j < k. te_Timestamp (tx_entries t ! j) < ts)"
  using assms by (rule LookupOffset_cases)

definition sample_tix :: TimeIndex where
  "sample_tix = \<lparr>tx_path = ''t'', tx_file = Some 32,
     tx_entries = [\<lparr>te_Timestamp = 100, te_RelOffset = 0\<rparr>, \<lparr>te_Timestamp = 200, te_RelOffset = 7\<rparr>],
     tx_lastIndexedPos = 20000, tx_lastTS = 200, tx_interval = 16384\<rparr>"

theorem LookupOffset_correct_witness:
  "LookupOffset sample_tix 150 = (7, True) \<and>
   (case LookupOffset sample_tix 150 of
      (rel, False) \<Rightarrow> \<forall>e \<in> set (tx_entries sample_tix). te_Timestamp e < 150
    | (rel, True) \<Rightarrow> \<exists>k < length (tx_entries sample_tix). rel = te_RelOffset (tx_entries sample_tix ! k) \<and>
        150 \<le> te_Timestamp (tx_entries sample_tix ! k) \<and>
        (\<forall>j < k. te_Timestamp (tx_entries sample_tix ! j) < 150))"
proof
  show "LookupOffset sample_tix 150 = (7, True)"
    by (simp add: LookupOffset_def sample_tix_def Let_def sort_search_def search_loop.simps)
qed (rule LookupOffset_correct, simp add: tx_sorted_def sample_tix_def)

text \<open>
  The clamp \<^verbatim>\<open>lastTS + 1\<close> is an int64 addition: after a batch stamped with the largest timestamp the
  next sample is stored with the smallest one, and the entries are no longer sorted.
\<close>

lemma time_index_clamp_wraps:
  "\<exists>t w r t' w'. tx_sorted t \<and> TimeIndex_MaybeAppend t 7 1 20000 w = (r, t', w') \<and> \<not> tx_sorted t'"
proof -
  define t where "t = \<lparr>tx_path = ''t'', tx_file = Some 16,
     tx_entries = [\<lparr>te_Timestamp = max_i64, te_RelOffset = 0\<rparr>], tx_lastIndexedPos = 0,
     tx_lastTS = max_i64, tx_interval = 16384\<rparr>"
  define w where "w = \<lparr>w_plan = [], w_dir = [], w_now = 0, w_paused = False\<rparr>"
  have "tx_sorted t" by (simp add: t_def tx_sorted_def)
  moreover have "\<not> tx_sorted (fst (snd (TimeIndex_MaybeAppend t 7 1 20000 w)))"
    by (simp add: t_def w_def TimeIndex_MaybeAppend_def Let_def os_simps tx_sorted_def wrap_s_def)
  ultimately show ?thesis by (metis prod.collapse)
qed

end
