(* ===== verification/Segment.thy ===== *)
theory Segment
  imports Record_Batch Sparse_Index
begin

text \<open>
  A segment (\<^verbatim>\<open>internal/storage/segment.go\<close>): one log file of concatenated record batches and its two
  index files. The operations thread a \<^typ>\<open>world\<close>; file handles are cursors, \<open>None\<close> once closed. A Go
  panic (slice allocation with a negative length, use of a nil index) is the error \<open>GoPanic\<close>.
  The invariant \<open>seg_inv\<close> says the file is a chain of complete, CRC-valid batches whose offsets run
  from the base offset to the next offset, and that each index entry points at a batch boundary.
\<close>

section \<open>State\<close>

datatype seg_err =
    SegOpen
  | SegIndex idx_err
  | SegStat
  | SegReset idx_err
  | SegRead nat
  | SegTruncate
  | SegSeek
  | SegSealed
  | SegParse batch_err
  | SegCrc batch_err
  | SegAttributes batch_err
  | SegWrite
  | SegScan nat batch_err
  | SegSync
  | SegClose
  | SegRemove string
  | GoPanic

record Segment =
  sg_dir :: string
  sg_baseOffset :: int
  sg_logFile :: "nat option"
  sg_logSize :: nat
  sg_createdAt :: int
  sg_idx :: "Index option"
  sg_tix :: "TimeIndex option"
  sg_nextOffset :: int
  sg_maxBytes :: int
  sg_maxAge :: int
  sg_sealed :: bool

record SegmentOpts =
  so_Dir :: string
  so_BaseOffset :: int
  so_IndexInterval :: int
  so_MaxBytes :: int
  so_MaxAge :: int

abbreviation logSuffix :: string where "logSuffix \<equiv> ''.log''"
abbreviation indexSuffix :: string where "indexSuffix \<equiv> ''.index''"
abbreviation timeIndexSuffix :: string where "timeIndexSuffix \<equiv> ''.timeindex''"

definition segmentFilename :: "int \<Rightarrow> string \<Rightarrow> string" where
  "segmentFilename base suffix = pad20 base @ suffix"

text \<open>\<^verbatim>\<open>filepath.Join\<close> of a clean directory and a file name.\<close>

definition path_join :: "string \<Rightarrow> string \<Rightarrow> string" where
  "path_join dir name = dir @ CHR ''/'' # name"

definition seg_path :: "string \<Rightarrow> int \<Rightarrow> string \<Rightarrow> string" where
  "seg_path dir base suffix = path_join dir (segmentFilename base suffix)"

definition LogPath :: "Segment \<Rightarrow> string" where
  "LogPath s = seg_path (sg_dir s) (sg_baseOffset s) logSuffix"

section \<open>Opening and recovery\<close>

text \<open>
  \<^verbatim>\<open>_ = s.idx.MaybeAppend(relOff, pos); _ = s.tix.MaybeAppend(h.MaxTimestamp, relOff, pos)\<close>: the
  sampling both recovery and append do for a batch at \<open>pos\<close>, their errors ignored.
\<close>

definition index_batch :: "Segment \<Rightarrow> BatchHeader \<Rightarrow> nat \<Rightarrow> world \<Rightarrow> Segment \<times> world" where
  "index_batch s h pos w =
     (let relOff = i64 (BaseOffset h - sg_baseOffset s);
          (idx, w) = (case sg_idx s of
             None \<Rightarrow> (None, w)
           | Some i \<Rightarrow> (case Index_MaybeAppend i relOff (int pos) w of (_, i, w) \<Rightarrow> (Some i, w)));
          (tix, w) = (case sg_tix s of
             None \<Rightarrow> (None, w)
           | Some t \<Rightarrow>
               (case TimeIndex_MaybeAppend t (MaxTimestamp h) relOff (int pos) w of (_, t, w) \<Rightarrow> (Some t, w)))
      in (s\<lparr>sg_idx := idx, sg_tix := tix\<rparr>, w))"

lemma parse_ok_size: "(h, None) = ParseBatchHeader buf \<Longrightarrow> 61 \<le> TotalSize h"
  by (drule sym) (rule parse_okD(4))

text \<open>The scan of \<^verbatim>\<open>recover\<close>; \<open>n\<close> is \<^verbatim>\<open>s.logSize\<close>, which the loop does not assign.\<close>

function recover_loop ::
  "nat \<Rightarrow> Segment \<Rightarrow> nat \<Rightarrow> world \<Rightarrow> seg_err option \<times> nat \<times> Segment \<times> world" where
  "recover_loop n s pos w =
     (if pos < n then
        case os_read (LogPath s) pos v2HeaderSize w of
          (None, w) \<Rightarrow> (Some (SegRead pos), pos, s, w)
        | (Some header, w) \<Rightarrow>
            if length header < v2HeaderSize then (None, pos, s, w)
            else case ParseBatchHeader header of
              (h, Some _) \<Rightarrow> (None, pos, s, w)
            | (h, None) \<Rightarrow>
                let batchSize = nat (TotalSize h) in
                if pos + batchSize > n then (None, pos, s, w)
                else case os_read (LogPath s) pos batchSize w of
                  (None, w) \<Rightarrow> (None, pos, s, w)
                | (Some body, w) \<Rightarrow>
                    if length body < batchSize then (None, pos, s, w)
                    else case ValidateCRC body of
                      Some _ \<Rightarrow> (None, pos, s, w)
                    | None \<Rightarrow>
                        (case index_batch s h pos w of
                           (s, w) \<Rightarrow>
                             recover_loop n (s\<lparr>sg_nextOffset := i64 (LastOffset h + 1)\<rparr>) (pos + batchSize) w)
      else (None, pos, s, w))"
  by pat_completeness auto
termination
  by (relation "measure (\<lambda>(n, s, pos, w). n - pos)") (auto dest!: parse_ok_size)

declare recover_loop.simps [simp del]

definition Segment_recover :: "Segment \<Rightarrow> world \<Rightarrow> seg_err option \<times> Segment \<times> world" where
  "Segment_recover s w =
     (if sg_logSize s = 0 then (None, s\<lparr>sg_nextOffset := sg_baseOffset s\<rparr>, w)
      else case sg_idx s of
        None \<Rightarrow> (Some GoPanic, s, w)
      | Some i \<Rightarrow>
          (case Index_Reset i w of
             (Some e, i, w) \<Rightarrow> (Some (SegReset e), s\<lparr>sg_idx := Some i\<rparr>, w)
           | (None, i, w) \<Rightarrow>
               let s = s\<lparr>sg_idx := Some i\<rparr> in
               case sg_tix s of
                 None \<Rightarrow> (Some GoPanic, s, w)
               | Some t \<Rightarrow>
                   (case TimeIndex_Reset t w of
                      (Some e, t, w) \<Rightarrow> (Some (SegReset e), s\<lparr>sg_tix := Some t\<rparr>, w)
                    | (None, t, w) \<Rightarrow>
                        let s = s\<lparr>sg_tix := Some t\<rparr> in
                        case recover_loop (sg_logSize s) s 0 w of
                          (Some e, pos, s, w) \<Rightarrow> (Some e, s, w)
                        | (None, pos, s, w) \<Rightarrow>
                            (case (if pos < sg_logSize s
                                   then (case os_truncate (LogPath s) pos w of
                                           (ok, w) \<Rightarrow> (ok, if ok then s\<lparr>sg_logSize := pos\<rparr> else s, w))
                                   else (True, s, w)) of
                               (False, s, w) \<Rightarrow> (Some SegTruncate, s, w)
                             | (True, s, w) \<Rightarrow>
                                 (case os_ctl w of
                                    (False, w) \<Rightarrow> (Some SegSeek, s, w)
                                  | (True, w) \<Rightarrow> (None, s\<lparr>sg_logFile := Some (sg_logSize s)\<rparr>, w))))))"

definition Segment_Close :: "Segment \<Rightarrow> world \<Rightarrow> seg_err option \<times> Segment \<times> world" where
  "Segment_Close s w =
     (let (e1, w) = (case sg_logFile s of
             None \<Rightarrow> (None, w)
           | Some _ \<Rightarrow> (case os_ctl w of (ok, w) \<Rightarrow> (if ok then None else Some SegClose, w)));
          (e2, w) = (case sg_idx s of
             None \<Rightarrow> (None, w)
           | Some i \<Rightarrow> (case Index_Close i w of (e, _, w) \<Rightarrow> (map_option SegIndex e, w)));
          (e3, w) = (case sg_tix s of
             None \<Rightarrow> (None, w)
           | Some t \<Rightarrow> (case TimeIndex_Close t w of (e, _, w) \<Rightarrow> (map_option SegIndex e, w)))
      in ((case e1 of Some e \<Rightarrow> Some e | None \<Rightarrow> (case e2 of Some e \<Rightarrow> Some e | None \<Rightarrow> e3)),
          s\<lparr>sg_logFile := None, sg_idx := None, sg_tix := None\<rparr>, w))"

definition OpenSegment :: "SegmentOpts \<Rightarrow> world \<Rightarrow> (seg_err + Segment) \<times> world" where
  "OpenSegment opts w =
     (let logPath = seg_path (so_Dir opts) (so_BaseOffset opts) logSuffix;
          idxPath = seg_path (so_Dir opts) (so_BaseOffset opts) indexSuffix;
          tixPath = seg_path (so_Dir opts) (so_BaseOffset opts) timeIndexSuffix in
      case os_open logPath w of
        (False, w) \<Rightarrow> (Inl SegOpen, w)
      | (True, w) \<Rightarrow>
          (case OpenIndex idxPath (so_IndexInterval opts) w of
             (Inl e, w) \<Rightarrow> (Inl (SegIndex e), snd (os_ctl w))
           | (Inr idx, w) \<Rightarrow>
               (case OpenTimeIndex tixPath (so_IndexInterval opts) w of
                  (Inl e, w) \<Rightarrow> (Inl (SegIndex e), snd (snd (Index_Close idx (snd (os_ctl w)))))
                | (Inr tix, w) \<Rightarrow>
                    (case os_ctl w of
                       (False, w) \<Rightarrow> (Inl SegStat, w)
                     | (True, w) \<Rightarrow>
                         let f = file_of w logPath;
                             s = \<lparr>sg_dir = so_Dir opts, sg_baseOffset = so_BaseOffset opts,
                                  sg_logFile = Some 0, sg_logSize = length (fdata f),
                                  sg_createdAt = mtime f, sg_idx = Some idx, sg_tix = Some tix,
                                  sg_nextOffset = so_BaseOffset opts, sg_maxBytes = so_MaxBytes opts,
                                  sg_maxAge = so_MaxAge opts, sg_sealed = False\<rparr> in
                         (case Segment_recover s w of
                            (Some e, s, w) \<Rightarrow> (Inl e, snd (snd (Segment_Close s w)))
                          | (None, s, w) \<Rightarrow> (Inr s, w))))))"

section \<open>Operations\<close>

definition Segment_BaseOffset :: "Segment \<Rightarrow> int" where "Segment_BaseOffset s = sg_baseOffset s"
definition Segment_NextOffset :: "Segment \<Rightarrow> int" where "Segment_NextOffset s = sg_nextOffset s"
definition Segment_Size :: "Segment \<Rightarrow> nat" where "Segment_Size s = sg_logSize s"
definition Segment_Sealed :: "Segment \<Rightarrow> bool" where "Segment_Sealed s = sg_sealed s"
definition Segment_CreatedAt :: "Segment \<Rightarrow> int" where "Segment_CreatedAt s = sg_createdAt s"

definition ShouldRoll :: "Segment \<Rightarrow> world \<Rightarrow> bool" where
  "ShouldRoll s w =
     (if sg_logSize s = 0 then False
      else if sg_maxBytes s > 0 \<and> int (sg_logSize s) \<ge> sg_maxBytes s then True
      else if sg_maxAge s > 0 \<and> w_now w - sg_createdAt s \<ge> sg_maxAge s then True
      else False)"

definition Segment_Append :: "Segment \<Rightarrow> bytes \<Rightarrow> world \<Rightarrow> (seg_err + int \<times> int \<times> nat) \<times> Segment \<times> world" where
  "Segment_Append s batch w =
     (if sg_sealed s then (Inl SegSealed, s, w)
      else case ParseBatchHeader batch of
        (h, Some e) \<Rightarrow> (Inl (SegParse e), s, w)
      | (h, None) \<Rightarrow>
          (case ValidateCRC batch of
             Some e \<Rightarrow> (Inl (SegCrc e), s, w)
           | None \<Rightarrow>
               (case ValidateBatchAttributes (Attributes h) of
                  Some e \<Rightarrow> (Inl (SegAttributes e), s, w)
                | None \<Rightarrow>
                    let pos = sg_logSize s in
                    (case sg_logFile s of
                       None \<Rightarrow> (Inl SegWrite, s, w)
                     | Some cur \<Rightarrow>
                         (case os_write (LogPath s) cur batch w of
                            (False, cur, w) \<Rightarrow> (Inl SegWrite, s\<lparr>sg_logFile := Some cur\<rparr>, w)
                          | (True, cur, w) \<Rightarrow>
                              let s = s\<lparr>sg_logFile := Some cur, sg_logSize := sg_logSize s + length batch,
                                        sg_nextOffset := i64 (LastOffset h + 1)\<rparr> in
                              (case index_batch s h pos w of
                                 (s, w) \<Rightarrow> (Inr (BaseOffset h, LastOffset h, pos), s, w)))))))"

definition Segment_ReadAt :: "Segment \<Rightarrow> nat \<Rightarrow> int \<Rightarrow> world \<Rightarrow> (seg_err + bytes) \<times> world" where
  "Segment_ReadAt s position maxBytes w =
     (if position \<ge> sg_logSize s then (Inr [], w)
      else
        let want = (if int position + maxBytes > int (sg_logSize s)
                    then int (sg_logSize s - position) else maxBytes) in
        if want < 0 then (Inl GoPanic, w)
        else case sg_logFile s of
          None \<Rightarrow> (Inl (SegRead position), w)
        | Some _ \<Rightarrow>
            (case os_read (LogPath s) position (nat want) w of
               (None, w) \<Rightarrow> (Inl (SegRead position), w)
             | (Some buf, w) \<Rightarrow> (Inr buf, w)))"

text \<open>
  The scan of \<^verbatim>\<open>FindBatchAt\<close>. The header buffer lives across iterations: a read that hits the end of
  the file overwrites only its front.
\<close>

function find_loop ::
  "string \<Rightarrow> nat \<Rightarrow> int \<Rightarrow> bytes \<Rightarrow> nat \<Rightarrow> world \<Rightarrow> (seg_err + nat) \<times> world" where
  "find_loop path n target header pos w =
     (if pos < n then
        case os_read path pos v2HeaderSize w of
          (None, w) \<Rightarrow> (Inl (SegRead pos), w)
        | (Some data, w) \<Rightarrow>
            let header = data @ drop (length data) header in
            case ParseBatchHeader header of
              (h, Some e) \<Rightarrow> (Inl (SegScan pos e), w)
            | (h, None) \<Rightarrow>
                if target \<ge> BaseOffset h \<and> target \<le> LastOffset h then (Inr pos, w)
                else if BaseOffset h > target then (Inr pos, w)
                else find_loop path n target header (pos + nat (TotalSize h)) w
      else (Inr n, w))"
  by pat_completeness auto
termination
  by (relation "measure (\<lambda>(path, n, target, header, pos, w). n - pos)") (auto dest!: parse_ok_size)

declare find_loop.simps [simp del]

definition FindBatchAt :: "Segment \<Rightarrow> int \<Rightarrow> world \<Rightarrow> (seg_err + nat) \<times> world" where
  "FindBatchAt s targetOffset w =
     (let relOff = i64 (targetOffset - sg_baseOffset s) in
      case sg_idx s of
        None \<Rightarrow> (Inl GoPanic, w)
      | Some i \<Rightarrow>
          (case LookupPosition i relOff of
             (startPos, ok) \<Rightarrow>
               let startPos = (if \<not> ok then 0 else startPos) in
               find_loop (LogPath s) (sg_logSize s) targetOffset (replicate v2HeaderSize 0) (nat startPos) w))"

definition Segment_LookupOffsetByTimestamp :: "Segment \<Rightarrow> int \<Rightarrow> seg_err + (int \<times> bool)" where
  "Segment_LookupOffsetByTimestamp s ts =
     (case sg_tix s of
        None \<Rightarrow> Inl GoPanic
      | Some t \<Rightarrow>
          (case LookupOffset t ts of
             (rel, ok) \<Rightarrow> Inr (if \<not> ok then (0, False) else (i64 (sg_baseOffset s + rel), True))))"

definition Segment_Sync :: "Segment \<Rightarrow> world \<Rightarrow> seg_err option \<times> world" where
  "Segment_Sync s w =
     (case sg_logFile s of
        None \<Rightarrow> (Some SegSync, w)
      | Some _ \<Rightarrow>
          (case os_ctl w of
             (False, w) \<Rightarrow> (Some SegSync, w)
           | (True, w) \<Rightarrow>
               (case sg_idx s of
                  None \<Rightarrow> (Some GoPanic, w)
                | Some i \<Rightarrow>
                    (case Index_Sync i w of
                       (Some e, w) \<Rightarrow> (Some (SegIndex e), w)
                     | (None, w) \<Rightarrow>
                         (case sg_tix s of
                            None \<Rightarrow> (Some GoPanic, w)
                          | Some t \<Rightarrow>
                              (case TimeIndex_Sync t w of (e, w) \<Rightarrow> (map_option SegIndex e, w)))))))"

definition Segment_Seal :: "Segment \<Rightarrow> world \<Rightarrow> seg_err option \<times> Segment \<times> world" where
  "Segment_Seal s w =
     (case Segment_Sync s w of
        (Some e, w) \<Rightarrow> (Some e, s, w)
      | (None, w) \<Rightarrow> (None, s\<lparr>sg_sealed := True\<rparr>, w))"

primrec remove_files :: "string list \<Rightarrow> world \<Rightarrow> seg_err option \<times> world" where
  "remove_files [] w = (None, w)"
| "remove_files (p # ps) w =
     (case os_remove p w of
        (False, w) \<Rightarrow> (Some (SegRemove p), w)
      | (True, w) \<Rightarrow> remove_files ps w)"

definition Segment_Delete :: "Segment \<Rightarrow> world \<Rightarrow> seg_err option \<times> Segment \<times> world" where
  "Segment_Delete s w =
     (case Segment_Close s w of
        (Some e, s, w) \<Rightarrow> (Some e, s, w)
      | (None, s, w) \<Rightarrow>
          (case remove_files
                  (map (\<lambda>suffix. seg_path (sg_dir s) (sg_baseOffset s) suffix)
                       [logSuffix, indexSuffix, timeIndexSuffix]) w of
             (e, w) \<Rightarrow> (e, s, w)))"

section \<open>Representation\<close>

lemma seg_path_suffix_eq [simp]: "seg_path d b x = seg_path d b y \<longleftrightarrow> x = y"
  by (simp add: seg_path_def path_join_def segmentFilename_def)

lemma pad20_eq_iff:
  "0 \<le> a \<Longrightarrow> a \<le> max_i64 \<Longrightarrow> 0 \<le> b \<Longrightarrow> b \<le> max_i64 \<Longrightarrow> pad20 a = pad20 b \<longleftrightarrow> a = b"
  using pad20_nonneg(3) [of a] pad20_nonneg(3) [of b] by metis

lemma seg_path_eq_iff:
  assumes "0 \<le> a" "a \<le> max_i64" "0 \<le> b" "b \<le> max_i64"
  shows "seg_path d a x = seg_path d b y \<longleftrightarrow> a = b \<and> x = y"
  using pad20_nonneg(1) [of a] pad20_nonneg(1) [of b] assms
  by (auto simp: seg_path_def path_join_def segmentFilename_def pad20_eq_iff)

text \<open>
  \<open>chain o bs e\<close>: the batches number their records consecutively from \<open>o\<close> up to, excluding, \<open>e\<close>.
\<close>

fun chain :: "int \<Rightarrow> bytes list \<Rightarrow> int \<Rightarrow> bool" where
  "chain x [] e \<longleftrightarrow> x = e"
| "chain x (b # bs) e \<longleftrightarrow>
     BaseOffset (header_of b) = x \<and> 0 \<le> LastOffsetDelta (header_of b) \<and>
     chain (x + LastOffsetDelta (header_of b) + 1) bs e"

definition good_batch :: "bytes \<Rightarrow> bool" where
  "good_batch b \<longleftrightarrow> whole_batch b \<and> ValidateCRC b = None"

definition index_ok :: "int \<Rightarrow> bytes list \<Rightarrow> Index \<Rightarrow> bool" where
  "index_ok base bs i \<longleftrightarrow>
     (\<forall>e \<in> set (ix_entries i). \<exists>pre b post. bs = pre @ b # post \<and>
        Position e = int (length (concat pre)) \<and> RelOffset e = i64 (BaseOffset (header_of b) - base))"

definition seg_open :: "Segment \<Rightarrow> bool" where
  "seg_open s \<longleftrightarrow> (\<exists>i t. sg_idx s = Some i \<and> sg_tix s = Some t \<and>
     ix_path i = seg_path (sg_dir s) (sg_baseOffset s) indexSuffix \<and> ix_file i \<noteq> None \<and>
     tx_path t = seg_path (sg_dir s) (sg_baseOffset s) timeIndexSuffix \<and> tx_file t \<noteq> None)"

definition seg_rep :: "Segment \<Rightarrow> world \<Rightarrow> bytes list \<Rightarrow> bool" where
  "seg_rep s w bs \<longleftrightarrow>
     sg_logFile s = Some (sg_logSize s) \<and> file_data w (LogPath s) = concat bs \<and>
     sg_logSize s = length (concat bs) \<and> (\<forall>b \<in> set bs. good_batch b) \<and>
     chain (sg_baseOffset s) bs (sg_nextOffset s) \<and> 0 \<le> sg_baseOffset s \<and>
     sg_nextOffset s \<le> max_i64 \<and> seg_open s \<and> index_ok (sg_baseOffset s) bs (the (sg_idx s))"

abbreviation seg_files :: "Segment \<Rightarrow> string set" where
  "seg_files s \<equiv> seg_path (sg_dir s) (sg_baseOffset s) ` {logSuffix, indexSuffix, timeIndexSuffix}"

lemma chain_append: "chain x (as @ bs) e \<longleftrightarrow> (\<exists>m. chain x as m \<and> chain m bs e)"
  by (induction as arbitrary: x) auto

lemma chain_le: "chain x bs e \<Longrightarrow> x \<le> e"
  by (induction bs arbitrary: x) force+

lemma chain_less: "chain x bs e \<Longrightarrow> bs \<noteq> [] \<Longrightarrow> x < e"
  by (cases bs) (auto dest: chain_le)

lemma chain_last:
  assumes "chain x bs e" "bs \<noteq> []"
  shows "e = BaseOffset (header_of (last bs)) + LastOffsetDelta (header_of (last bs)) + 1"
  using assms by (induction bs arbitrary: x) auto

lemma chain_member:
  assumes "chain x bs e" "bs = pre @ b # post"
  shows "x \<le> BaseOffset (header_of b)"
    "BaseOffset (header_of b) + LastOffsetDelta (header_of b) < e"
    "0 \<le> LastOffsetDelta (header_of b)"
  using assms by (auto simp: chain_append dest!: chain_le)

lemma good_batchD:
  assumes "good_batch b"
  shows "ParseBatchHeader b = (header_of b, None)" "61 \<le> length b"
    "nat (TotalSize (header_of b)) = length b" "ValidateCRC b = None" "batch_size b = Some (length b)"
  using assms whole_batchD [of b] by (auto simp: good_batch_def whole_batch_def)

lemma parse_front: "good_batch b \<Longrightarrow> ParseBatchHeader (take 61 (b @ rest)) = (header_of b, None)"
  using good_batchD(1,2) [of b] ParseBatchHeader_take [of 61 "b @ rest"] ParseBatchHeader_append [of b rest]
  by simp

lemma LastOffset_simp:
  "0 \<le> LastOffsetDelta h \<Longrightarrow> 0 \<le> BaseOffset h \<Longrightarrow> BaseOffset h + LastOffsetDelta h < max_i64 \<Longrightarrow>
   LastOffset h = BaseOffset h + LastOffsetDelta h \<and>
   i64 (LastOffset h + 1) = BaseOffset h + LastOffsetDelta h + 1"
  by (simp add: LastOffset_def i64_id)

lemma index_ok_append: "index_ok base bs i \<Longrightarrow> index_ok base (bs @ cs) i"
  unfolding index_ok_def by (metis append.assoc append_Cons)

section \<open>Sampling\<close>

lemma index_batch_frame:
  assumes "index_batch s h pos w = (s', w')" "seg_open s"
  shows "touches (seg_path (sg_dir s) (sg_baseOffset s) ` {indexSuffix, timeIndexSuffix}) w w'"
    "\<exists>i t. s' = s\<lparr>sg_idx := Some i, sg_tix := Some t\<rparr>" "seg_open s'"
    "ix_entries (the (sg_idx s')) = ix_entries (the (sg_idx s)) \<or>
     ix_entries (the (sg_idx s')) = ix_entries (the (sg_idx s)) @
       [\<lparr>RelOffset = i64 (BaseOffset h - sg_baseOffset s), Position = int pos\<rparr>]"
proof -
  obtain i t where it: "sg_idx s = Some i" "sg_tix s = Some t"
    "ix_path i = seg_path (sg_dir s) (sg_baseOffset s) indexSuffix" "ix_file i \<noteq> None"
    "tx_path t = seg_path (sg_dir s) (sg_baseOffset s) timeIndexSuffix" "tx_file t \<noteq> None"
    using assms(2) by (auto simp: seg_open_def)
  let ?rel = "i64 (BaseOffset h - sg_baseOffset s)"
  let ?P = "seg_path (sg_dir s) (sg_baseOffset s) ` {indexSuffix, timeIndexSuffix}"
  obtain r1 i' w1 where a: "Index_MaybeAppend i ?rel (int pos) w = (r1, i', w1)" by (metis prod_cases3)
  obtain r2 t' w2 where b: "TimeIndex_MaybeAppend t (MaxTimestamp h) ?rel (int pos) w1 = (r2, t', w2)"
    by (metis prod_cases3)
  have s': "s' = s\<lparr>sg_idx := Some i', sg_tix := Some t'\<rparr>" "w' = w2"
    using assms(1) it a b by (auto simp: index_batch_def Let_def)
  note fa = Index_MaybeAppend_frame [OF a] and fb = TimeIndex_MaybeAppend_frame [OF b]
  have "touches ?P w w1" "touches ?P w1 w2"
    using fa(1) fb(1) it by (auto intro: touches_mono)
  then show "touches ?P w w'" using s' by (auto intro: touches_trans)
  show "\<exists>i t. s' = s\<lparr>sg_idx := Some i, sg_tix := Some t\<rparr>" using s' by auto
  show "seg_open s'" using s' it fa(2,3) fb(2,3) by (auto simp: seg_open_def)
  show "ix_entries (the (sg_idx s')) = ix_entries (the (sg_idx s)) \<or>
     ix_entries (the (sg_idx s')) = ix_entries (the (sg_idx s)) @ [\<lparr>RelOffset = ?rel, Position = int pos\<rparr>]"
    using fa(5) s' it by auto
qed

lemma index_batch_ok:
  assumes "index_batch s h (length (concat bs)) w = (s', w')" "seg_open s"
    "index_ok (sg_baseOffset s) bs (the (sg_idx s))" "h = header_of b"
  shows "index_ok (sg_baseOffset s) (bs @ [b]) (the (sg_idx s'))"
  using index_batch_frame(4) [OF assms(1,2)] index_ok_append [OF assms(3), of "[b]"] assms(4)
  by (fastforce simp: index_ok_def)

section \<open>Appending\<close>

lemma Append_result:
  assumes "seg_rep s w bs" "Segment_Append s b w = (Inr r, s', w')" "whole_batch b"
    "BaseOffset (header_of b) = sg_nextOffset s" "0 \<le> LastOffsetDelta (header_of b)"
    "sg_nextOffset s + LastOffsetDelta (header_of b) < max_i64"
  shows "r = (sg_nextOffset s, sg_nextOffset s + LastOffsetDelta (header_of b), sg_logSize s)"
    "seg_rep s' w' (bs @ [b])" "touches (seg_files s) w w'"
    "sg_dir s' = sg_dir s \<and> sg_baseOffset s' = sg_baseOffset s \<and> sg_sealed s' = sg_sealed s \<and>
     sg_createdAt s' = sg_createdAt s \<and> sg_maxBytes s' = sg_maxBytes s \<and> sg_maxAge s' = sg_maxAge s"
    "sg_nextOffset s' = sg_nextOffset s + LastOffsetDelta (header_of b) + 1"
proof -
  note rep = assms(1) [unfolded seg_rep_def]
  have base: "0 \<le> sg_nextOffset s" using rep chain_le by fastforce
  have h: "ParseBatchHeader b = (header_of b, None)" using whole_batchD [OF assms(3)] by simp
  have last: "LastOffset (header_of b) = sg_nextOffset s + LastOffsetDelta (header_of b)"
    "i64 (LastOffset (header_of b) + 1) = sg_nextOffset s + LastOffsetDelta (header_of b) + 1"
    using LastOffset_simp [of "header_of b"] assms base by auto
  obtain cur w1 where crc: "ValidateCRC b = None"
    and wr: "os_write (LogPath s) (sg_logSize s) b w = (True, cur, w1)"
    using assms(2) rep h by (auto simp: Segment_Append_def Let_def split: if_splits option.splits prod.splits bool.splits)
  define s1 where "s1 = s\<lparr>sg_logFile := Some cur, sg_logSize := sg_logSize s + length b,
      sg_nextOffset := i64 (LastOffset (header_of b) + 1)\<rparr>"
  have ib: "index_batch s1 (header_of b) (sg_logSize s) w1 = (s', w')"
    and r: "r = (BaseOffset (header_of b), LastOffset (header_of b), sg_logSize s)"
    using assms(2) rep h crc wr
    by (auto simp: Segment_Append_def Let_def s1_def split: if_splits option.splits prod.splits bool.splits)
  have log: "LogPath s1 = LogPath s" "seg_open s1" "sg_idx s1 = sg_idx s" "sg_baseOffset s1 = sg_baseOffset s"
    using rep by (auto simp: s1_def LogPath_def seg_open_def)
  note fr = index_batch_frame [OF ib log(2)]
  obtain i t where s': "s' = s1\<lparr>sg_idx := Some i, sg_tix := Some t\<rparr>" using fr(2) by blast
  have wrD: "file_data w1 (LogPath s) = concat bs @ b" "cur = sg_logSize s + length b"
    using os_write_ok [OF wr] rep by auto
  show "r = (sg_nextOffset s, sg_nextOffset s + LastOffsetDelta (header_of b), sg_logSize s)"
    using r last assms by simp
  have "index_ok (sg_baseOffset s) (bs @ [b]) (the (sg_idx s'))"
    using index_batch_ok [of s1 "header_of b" bs w1 s' w' b] ib rep log by simp
  moreover have "file_data w' (LogPath s) = concat bs @ b"
    using wrD(1) touches_data [OF fr(1), of "LogPath s"] log by (simp add: LogPath_def s1_def image_iff)
  ultimately show "seg_rep s' w' (bs @ [b])"
    using rep s' wrD last assms fr(3) crc
    by (auto simp: seg_rep_def s1_def LogPath_def chain_append good_batch_def)
  have "touches (seg_files s) w w1"
    using wr by (rule touches_os_write) (simp add: LogPath_def)
  moreover have "touches (seg_files s) w1 w'"
    using fr(1) by (rule touches_mono) (auto simp: s1_def)
  ultimately show "touches (seg_files s) w w'" by (rule touches_trans)
  show "sg_dir s' = sg_dir s \<and> sg_baseOffset s' = sg_baseOffset s \<and> sg_sealed s' = sg_sealed s \<and>
     sg_createdAt s' = sg_createdAt s \<and> sg_maxBytes s' = sg_maxBytes s \<and> sg_maxAge s' = sg_maxAge s"
    "sg_nextOffset s' = sg_nextOffset s + LastOffsetDelta (header_of b) + 1"
    using s' last by (simp_all add: s1_def)
qed

lemma Append_accepts:
  assumes "seg_rep s w bs" "w_plan w = []" "\<not> sg_sealed s" "good_batch b" "good_attributes (Attributes (header_of b))"
  shows "\<exists>r s' w'. Segment_Append s b w = (Inr r, s', w')"
  using assms good_batchD(1,4) [OF assms(4)] ValidateBatchAttributes_iff [of "Attributes (header_of b)"]
  by (auto simp: Segment_Append_def seg_rep_def os_simps Let_def split: prod.splits)

lemma Append_error_keeps:
  assumes "Segment_Append s b w = (Inl e, s', w')"
  shows "\<exists>cur. s' = s\<lparr>sg_logFile := cur\<rparr>"
    "e \<noteq> SegWrite \<Longrightarrow> s' = s \<and> w' = w"
    "e = SegWrite \<Longrightarrow> w_plan w = [] \<Longrightarrow> sg_logFile s = None"
  using assms
  by (auto simp: Segment_Append_def Let_def os_simps split: if_splits option.splits prod.splits bool.splits
      intro: exI [of _ "sg_logFile s"])

section \<open>Reading\<close>

lemma find_loop_finds:
  assumes "w_plan w = []" "file_data w path = concat (pre @ bs)" "n = length (concat (pre @ bs))"
    "\<forall>b \<in> set bs. good_batch b" "chain x bs e" "0 \<le> x" "x \<le> target" "target < e" "e \<le> max_i64"
    "length header = 61"
  shows "\<exists>mid b post. bs = mid @ b # post \<and>
    find_loop path n target header (length (concat pre)) w = (Inr (length (concat (pre @ mid))), w) \<and>
    BaseOffset (header_of b) \<le> target \<and>
    target \<le> BaseOffset (header_of b) + LastOffsetDelta (header_of b)"
  using assms
proof (induction bs arbitrary: pre x header)
  case (Cons b bs)
  let ?h = "header_of b"
  have g: "good_batch b" using Cons.prems by simp
  have drop: "drop (length (concat pre)) (file_data w path) = b @ concat bs"
    using Cons.prems by simp
  have lt: "length (concat pre) < n"
    using Cons.prems good_batchD(2) [OF g] by auto
  have rd: "os_read path (length (concat pre)) 61 w = (Some (take 61 (b @ concat bs)), w)"
    using Cons.prems by (simp add: os_simps drop)
  let ?hd = "take 61 (b @ concat bs)"
  have len: "length ?hd = 61" using good_batchD(2) [OF g] by simp
  have parse: "ParseBatchHeader (?hd @ drop 61 header) = (?h, None)"
    using parse_front [OF g, of "concat bs"] Cons.prems by simp
  have h: "BaseOffset ?h = x" "0 \<le> LastOffsetDelta ?h"
    and ch: "chain (x + LastOffsetDelta ?h + 1) bs e"
    using Cons.prems by auto
  then have last: "LastOffset ?h = x + LastOffsetDelta ?h"
    using LastOffset_simp [of ?h] chain_le [OF ch] Cons.prems by auto
  show ?case
  proof (cases "target \<le> LastOffset ?h")
    case True
    then have "find_loop path n target header (length (concat pre)) w = (Inr (length (concat pre)), w)"
      using lt rd len parse h Cons.prems by (subst find_loop.simps) (simp add: Let_def)
    then show ?thesis
      using True last h Cons.prems by - (rule exI [of _ "[]"], rule exI [of _ b], rule exI [of _ bs], auto)
  next
    case False
    then have "find_loop path n target header (length (concat pre)) w =
        find_loop path n target (?hd @ drop 61 header) (length (concat (pre @ [b]))) w"
      using lt rd len parse h Cons.prems good_batchD(3) [OF g]
      by (subst find_loop.simps) (simp add: Let_def)
    moreover have "\<exists>mid c post. bs = mid @ c # post \<and>
        find_loop path n target (?hd @ drop 61 header) (length (concat (pre @ [b]))) w =
          (Inr (length (concat ((pre @ [b]) @ mid))), w) \<and>
        BaseOffset (header_of c) \<le> target \<and>
        target \<le> BaseOffset (header_of c) + LastOffsetDelta (header_of c)"
      using False last len h Cons.prems by (intro Cons.IH [OF _ _ _ _ ch]) auto
    ultimately show ?thesis
      by (metis append.assoc append_Cons append_Nil)
  qed
qed auto

lemma FindBatchAt_finds:
  assumes "seg_rep s w bs" "w_plan w = []" "sg_baseOffset s \<le> target" "target < sg_nextOffset s"
  obtains pre b post where "bs = pre @ b # post" "FindBatchAt s target w = (Inr (length (concat pre)), w)"
    "BaseOffset (header_of b) \<le> target" "target \<le> BaseOffset (header_of b) + LastOffsetDelta (header_of b)"
proof -
  note rep = assms(1) [unfolded seg_rep_def]
  obtain i where i: "sg_idx s = Some i" using rep by (auto simp: seg_open_def)
  define rel where "rel = i64 (target - sg_baseOffset s)"
  have rel: "rel = target - sg_baseOffset s"
    unfolding rel_def using rep assms(3,4) by (intro i64_id) auto
  obtain p ok where look: "LookupPosition i rel = (p, ok)" by fastforce
  define start where "start = nat (if \<not> ok then 0 else p)"
  have F: "FindBatchAt s target w = find_loop (LogPath s) (sg_logSize s) target (replicate 61 0) start w"
    using i look by (simp add: FindBatchAt_def rel_def start_def Let_def)
  have "\<exists>pre post x. bs = pre @ post \<and> start = length (concat pre) \<and> chain x post (sg_nextOffset s) \<and>
      0 \<le> x \<and> x \<le> target"
  proof (cases "start = 0")
    case True
    then show ?thesis
      using rep assms by - (rule exI [of _ "[]"], rule exI [of _ bs], auto)
  next
    case False
    then have "p \<noteq> 0" by (auto simp: start_def split: if_splits)
    then obtain e where e: "e \<in> set (ix_entries i)" "Position e = p" "RelOffset e \<le> u32 rel"
      using LookupPosition_below [OF look] by blast
    have "u32 rel \<le> rel" using rel assms(3) by (intro u32_le) simp
    with e(3) have le: "RelOffset e \<le> rel" by simp
    obtain pre b post where sp: "bs = pre @ b # post" "p = int (length (concat pre))"
      "RelOffset e = i64 (BaseOffset (header_of b) - sg_baseOffset s)"
      using rep e(1,2) i unfolding index_ok_def by (metis option.sel)
    have ch: "chain (sg_baseOffset s) bs (sg_nextOffset s)" using rep by simp
    have bo: "sg_baseOffset s \<le> BaseOffset (header_of b)" "BaseOffset (header_of b) < sg_nextOffset s"
      using chain_member [OF ch sp(1)] by auto
    then have "i64 (BaseOffset (header_of b) - sg_baseOffset s) = BaseOffset (header_of b) - sg_baseOffset s"
      using rep by (intro i64_id) auto
    with sp(3) le rel have "BaseOffset (header_of b) \<le> target" by simp
    moreover have "chain (BaseOffset (header_of b)) (b # post) (sg_nextOffset s)"
      using ch sp(1) by (auto simp: chain_append)
    ultimately show ?thesis
      using sp bo rep False by - (rule exI [of _ pre], rule exI [of _ "b # post"], auto simp: start_def split: if_splits)
  qed
  then obtain pre post x where pp: "bs = pre @ post" "start = length (concat pre)"
    "chain x post (sg_nextOffset s)" "0 \<le> x" "x \<le> target"
    by blast
  have "\<exists>mid b post'. post = mid @ b # post' \<and>
    find_loop (LogPath s) (sg_logSize s) target (replicate 61 0) (length (concat pre)) w =
      (Inr (length (concat (pre @ mid))), w) \<and>
    BaseOffset (header_of b) \<le> target \<and>
    target \<le> BaseOffset (header_of b) + LastOffsetDelta (header_of b)"
    using rep pp assms by (intro find_loop_finds [OF assms(2) _ _ _ pp(3)]) auto
  then obtain mid b post' where "bs = (pre @ mid) @ b # post'" "FindBatchAt s target w = (Inr (length (concat (pre @ mid))), w)"
    "BaseOffset (header_of b) \<le> target" "target \<le> BaseOffset (header_of b) + LastOffsetDelta (header_of b)"
    using F pp by auto
  then show ?thesis by (rule that)
qed

section \<open>Recovery\<close>

text \<open>
  What a scan keeps of arbitrary file contents: the complete batches at the front, up to the first
  one whose CRC is wrong.
\<close>

definition valid_prefix :: "bytes \<Rightarrow> bytes list" where
  "valid_prefix d = takeWhile (\<lambda>b. ValidateCRC b = None) (fst (frames batch_size d))"

lemma valid_prefix_simp:
  "valid_prefix d = (case batch_size d of None \<Rightarrow> []
     | Some n \<Rightarrow> if n \<le> length d \<and> ValidateCRC (take n d) = None then take n d # valid_prefix (drop n d) else [])"
  unfolding valid_prefix_def
  by (subst frames.simps) (auto split: option.splits prod.splits dest: bf.sz_pos)

lemma valid_prefix_good: "b \<in> set (valid_prefix d) \<Longrightarrow> good_batch b"
  unfolding valid_prefix_def good_batch_def whole_batch_def
  by (auto dest!: set_takeWhileD intro: bf.frames_fst_framed)

lemma valid_prefix_concat: "\<forall>b \<in> set bs. good_batch b \<Longrightarrow> valid_prefix (concat bs @ r) = bs @ valid_prefix r"
  unfolding valid_prefix_def
  by (subst bf.frames_concat_rest) (auto simp: good_batch_def whole_batch_def takeWhile_append2)

lemma valid_prefix_torn:
  assumes "whole_batch b" "k < length b"
  shows "valid_prefix (take k b) = []"
proof (cases "61 \<le> k")
  case True
  then have "batch_size (take k b) = Some (length b)"
    using assms(1) by (simp add: bf.sz_take whole_batch_def)
  with assms(2) show ?thesis by (subst valid_prefix_simp) simp
next
  case False
  then show ?thesis by (subst valid_prefix_simp) (simp add: bf.sz_short)
qed

lemma valid_prefix_Nil [simp]: "valid_prefix [] = []"
  by (subst valid_prefix_simp) simp

lemma valid_prefix_take: "take (length (concat (valid_prefix d))) d = concat (valid_prefix d)"
proof (induction d rule: length_induct)
  case (1 d)
  show ?case
  proof (cases "\<exists>n. batch_size d = Some n \<and> n \<le> length d \<and> ValidateCRC (take n d) = None")
    case True
    then obtain n where n: "batch_size d = Some n" "n \<le> length d" "ValidateCRC (take n d) = None" by blast
    then have "length (drop n d) < length d" using bf.sz_pos [OF n(1)] by simp
    then have "take (length (concat (valid_prefix (drop n d)))) (drop n d) = concat (valid_prefix (drop n d))"
      using 1 by blast
    moreover have "valid_prefix d = take n d # valid_prefix (drop n d)"
      using n by (subst valid_prefix_simp) simp
    ultimately show ?thesis using n(2) by (simp add: take_add)
  next
    case False
    then have "valid_prefix d = []" by (subst valid_prefix_simp) (auto split: option.splits)
    then show ?thesis by simp
  qed
qed

definition next_after :: "int \<Rightarrow> bytes list \<Rightarrow> int" where
  "next_after x bs = (if bs = [] then x else i64 (LastOffset (header_of (last bs)) + 1))"

lemma recover_loop_spec:
  assumes "w_plan w = []" "file_data w (LogPath s) = concat pre @ rest" "n = length (concat pre @ rest)"
    "seg_open s" "index_ok (sg_baseOffset s) pre (the (sg_idx s))"
  shows "\<exists>i t w'. recover_loop n s (length (concat pre)) w =
      (None, length (concat (pre @ valid_prefix rest)),
       s\<lparr>sg_idx := Some i, sg_tix := Some t, sg_nextOffset := next_after (sg_nextOffset s) (valid_prefix rest)\<rparr>, w') \<and>
    touches (seg_path (sg_dir s) (sg_baseOffset s) ` {indexSuffix, timeIndexSuffix}) w w' \<and>
    seg_open (s\<lparr>sg_idx := Some i, sg_tix := Some t\<rparr>) \<and> index_ok (sg_baseOffset s) (pre @ valid_prefix rest) i"
  using assms
proof (induction rest arbitrary: pre s w rule: length_induct)
  case (1 rest)
  note plan = "1.prems"(1) and data = "1.prems"(2) and n = "1.prems"(3) and op = "1.prems"(4) and ix = "1.prems"(5)
  let ?pos = "length (concat pre)"
  obtain i0 t0 where it: "sg_idx s = Some i0" "sg_tix s = Some t0" using op by (auto simp: seg_open_def)
  have rd: "os_read (LogPath s) ?pos k w = (Some (take k rest), w)" for k
    using plan data by (simp add: os_simps)
  show ?case
  proof (cases "\<exists>m. batch_size rest = Some m \<and> m \<le> length rest \<and> ValidateCRC (take m rest) = None")
    case False
    then have vp: "valid_prefix rest = []" by (subst valid_prefix_simp) (auto split: option.splits)
    have "recover_loop n s ?pos w = (None, ?pos, s, w)"
    proof (cases "length rest < 61")
      case True
      then show ?thesis by (subst recover_loop.simps) (simp add: rd)
    next
      case len: False
      then have "ParseBatchHeader (take 61 rest) = ParseBatchHeader rest"
        by (intro ParseBatchHeader_take) simp_all
      then show ?thesis
        using False len n
        by (subst recover_loop.simps) (auto simp: rd batch_size_def Let_def split: prod.splits option.splits)
    qed
    moreover have "s\<lparr>sg_idx := Some i0, sg_tix := Some t0\<rparr> = s" using it by simp
    ultimately show ?thesis
      using op ix it vp by (intro exI [of _ i0] exI [of _ t0] exI [of _ w]) (simp add: next_after_def seg_open_def)
  next
    case True
    then obtain m where m: "batch_size rest = Some m" "m \<le> length rest" "ValidateCRC (take m rest) = None" by blast
    let ?b = "take m rest" and ?h = "header_of rest"
    have h: "ParseBatchHeader rest = (?h, None)" "nat (TotalSize ?h) = m" "61 \<le> length rest" "61 \<le> m"
      using m(1) bf.sz_min [OF m(1)] bf.sz_SomeD [OF m(1)] parse_okD(1) by (auto simp: batch_size_Some)
    have hb: "header_of ?b = ?h"
      using header_of_append [of ?b "drop m rest"] h m(2) by simp
    obtain s1 w1 where ib: "index_batch s ?h ?pos w = (s1, w1)" by fastforce
    note fr = index_batch_frame [OF ib op]
    obtain i1 t1 where s1: "s1 = s\<lparr>sg_idx := Some i1, sg_tix := Some t1\<rparr>" using fr(2) by blast
    let ?s2 = "s1\<lparr>sg_nextOffset := i64 (LastOffset ?h + 1)\<rparr>"
    have vp: "valid_prefix rest = ?b # valid_prefix (drop m rest)"
      using m by (subst valid_prefix_simp) simp
    have "recover_loop n s ?pos w = recover_loop n ?s2 (length (concat (pre @ [?b]))) w1"
      using h m n ib ParseBatchHeader_take [of 61 rest]
      by (subst recover_loop.simps) (cases rest, simp_all add: rd Let_def)
    moreover have "\<exists>i t w'. recover_loop n ?s2 (length (concat (pre @ [?b]))) w1 =
        (None, length (concat ((pre @ [?b]) @ valid_prefix (drop m rest))),
         ?s2\<lparr>sg_idx := Some i, sg_tix := Some t, sg_nextOffset := next_after (sg_nextOffset ?s2) (valid_prefix (drop m rest))\<rparr>, w') \<and>
      touches (seg_path (sg_dir ?s2) (sg_baseOffset ?s2) ` {indexSuffix, timeIndexSuffix}) w1 w' \<and>
      seg_open (?s2\<lparr>sg_idx := Some i, sg_tix := Some t\<rparr>) \<and>
      index_ok (sg_baseOffset ?s2) ((pre @ [?b]) @ valid_prefix (drop m rest)) i"
    proof (rule "1.IH" [rule_format])
      show "length (drop m rest) < length rest" using h m by simp
      show "w_plan w1 = []" using fr(1) plan by (rule touches_plan)
      show "file_data w1 (LogPath ?s2) = concat (pre @ [?b]) @ drop m rest"
        using touches_data [OF fr(1), of "LogPath s"] data s1 by (simp add: LogPath_def image_iff)
      show "n = length (concat (pre @ [?b]) @ drop m rest)" using n m(2) by simp
      show "seg_open ?s2" using fr(3) s1 by (simp add: seg_open_def)
      show "index_ok (sg_baseOffset ?s2) (pre @ [?b]) (the (sg_idx ?s2))"
        using index_batch_ok [OF ib op ix hb [symmetric]] s1 by simp
    qed
    ultimately obtain i t w' where
      "recover_loop n s ?pos w = (None, length (concat (pre @ valid_prefix rest)),
         ?s2\<lparr>sg_idx := Some i, sg_tix := Some t, sg_nextOffset := next_after (sg_nextOffset ?s2) (valid_prefix (drop m rest))\<rparr>, w')"
      "touches (seg_path (sg_dir s) (sg_baseOffset s) ` {indexSuffix, timeIndexSuffix}) w1 w'"
      "seg_open (s\<lparr>sg_idx := Some i, sg_tix := Some t\<rparr>)" "index_ok (sg_baseOffset s) (pre @ valid_prefix rest) i"
      using s1 vp by (auto simp: seg_open_def)
    moreover have "next_after (sg_nextOffset ?s2) (valid_prefix (drop m rest)) =
        next_after (sg_nextOffset s) (valid_prefix rest)"
      using vp hb by (simp add: next_after_def)
    ultimately show ?thesis
      using fr(1) s1 by (intro exI [of _ i] exI [of _ t] exI [of _ w']) (auto intro: touches_trans)
  qed
qed

lemma Segment_recover_spec:
  assumes "w_plan w = []" "file_data w (LogPath s) = d" "sg_logSize s = length d" "d \<noteq> []" "seg_open s"
    "sg_nextOffset s = sg_baseOffset s"
  shows "\<exists>i t w'. Segment_recover s w =
      (None, s\<lparr>sg_logFile := Some (length (concat (valid_prefix d))),
               sg_logSize := length (concat (valid_prefix d)), sg_idx := Some i, sg_tix := Some t,
               sg_nextOffset := next_after (sg_baseOffset s) (valid_prefix d)\<rparr>, w') \<and>
    touches (seg_files s) w w' \<and> seg_open (s\<lparr>sg_idx := Some i, sg_tix := Some t\<rparr>) \<and>
    index_ok (sg_baseOffset s) (valid_prefix d) i \<and> file_data w' (LogPath s) = concat (valid_prefix d)"
proof -
  let ?P = "seg_path (sg_dir s) (sg_baseOffset s) ` {indexSuffix, timeIndexSuffix}"
  obtain i t where it: "sg_idx s = Some i" "sg_tix s = Some t"
    "ix_path i = seg_path (sg_dir s) (sg_baseOffset s) indexSuffix" "ix_file i \<noteq> None"
    "tx_path t = seg_path (sg_dir s) (sg_baseOffset s) timeIndexSuffix" "tx_file t \<noteq> None"
    using assms(5) by (auto simp: seg_open_def)
  obtain i1 w1 where a: "Index_Reset i w = (None, i1, w1)"
    using Index_Reset_frame(5) assms(1) by (metis prod_cases3)
  have p1: "w_plan w1 = []" using touches_plan [OF Index_Reset_frame(1) [OF a] assms(1)] .
  obtain t1 w2 where b: "TimeIndex_Reset t w1 = (None, t1, w2)"
    using TimeIndex_Reset_frame(5) p1 by (metis prod_cases3)
  have p2: "w_plan w2 = []" using touches_plan [OF TimeIndex_Reset_frame(1) [OF b] p1] .
  have t12: "touches ?P w w2"
    by (rule touches_trans [OF touches_mono [OF Index_Reset_frame(1) [OF a]]
          touches_mono [OF TimeIndex_Reset_frame(1) [OF b]]]) (auto simp: it)
  define s1 where "s1 = s\<lparr>sg_idx := Some i1, sg_tix := Some t1\<rparr>"
  have s1: "seg_open s1" "LogPath s1 = LogPath s"
    using it Index_Reset_frame [OF a] TimeIndex_Reset_frame [OF b] by (auto simp: s1_def seg_open_def LogPath_def)
  have "\<exists>i t w'. recover_loop (length d) s1 (length (concat ([] :: bytes list))) w2 =
      (None, length (concat ([] @ valid_prefix d)),
       s1\<lparr>sg_idx := Some i, sg_tix := Some t, sg_nextOffset := next_after (sg_nextOffset s1) (valid_prefix d)\<rparr>, w') \<and>
    touches (seg_path (sg_dir s1) (sg_baseOffset s1) ` {indexSuffix, timeIndexSuffix}) w2 w' \<and>
    seg_open (s1\<lparr>sg_idx := Some i, sg_tix := Some t\<rparr>) \<and> index_ok (sg_baseOffset s1) ([] @ valid_prefix d) i"
    using p2 s1 assms(2) touches_data [OF t12, of "LogPath s"] Index_Reset_frame(2) [OF a]
    by - (rule recover_loop_spec, auto simp: s1_def LogPath_def index_ok_def)
  then obtain i2 t2 w3 where rl: "recover_loop (length d) s1 0 w2 = (None, length (concat (valid_prefix d)),
       s1\<lparr>sg_idx := Some i2, sg_tix := Some t2, sg_nextOffset := next_after (sg_nextOffset s1) (valid_prefix d)\<rparr>, w3)"
    and t3: "touches ?P w2 w3" and o2: "seg_open (s1\<lparr>sg_idx := Some i2, sg_tix := Some t2\<rparr>)"
    and x2: "index_ok (sg_baseOffset s) (valid_prefix d) i2"
    by (auto simp: s1_def)
  have t: "touches ?P w w3" by (rule touches_trans [OF t12 t3])
  have dat: "file_data w3 (LogPath s) = d" and p3: "w_plan w3 = []"
    using touches_data [OF t, of "LogPath s"] touches_plan [OF t] assms by (auto simp: LogPath_def)
  let ?v = "concat (valid_prefix d)"
  define w4 where "w4 = (if length ?v < length d
     then put_file (LogPath s) \<lparr>fdata = take (length ?v) d, mtime = w_now w3\<rparr> w3 else w3)"
  have v: "take (length ?v) d = ?v" by (rule valid_prefix_take)
  have full: "\<not> length ?v < length d \<Longrightarrow> ?v = d" using v by simp
  have "touches (seg_files s) w w4"
    using t touches_put_file [of "LogPath s" "seg_files s" w3]
    by (auto simp: w4_def LogPath_def intro: touches_trans touches_mono)
  moreover have "file_data w4 (LogPath s) = ?v"
    using dat v full by (cases "length ?v < length d") (simp_all add: w4_def os_simps)
  moreover have "Segment_recover s w =
      (None, s\<lparr>sg_logFile := Some (length ?v), sg_logSize := length ?v, sg_idx := Some i2, sg_tix := Some t2,
               sg_nextOffset := next_after (sg_baseOffset s) (valid_prefix d)\<rparr>, w4)"
    using assms it a b rl p3 dat full
    by (auto simp: Segment_recover_def Let_def s1_def w4_def os_simps LogPath_def)
  ultimately show ?thesis
    using o2 x2 by (intro exI [of _ i2] exI [of _ t2] exI [of _ w4]) (simp add: s1_def)
qed

lemma OpenSegment_spec:
  assumes "w_plan w = []" "logp = seg_path (so_Dir opts) (so_BaseOffset opts) logSuffix"
    "idxp = seg_path (so_Dir opts) (so_BaseOffset opts) indexSuffix"
    "d = file_data w logp" "d \<noteq> [] \<or> file_data w idxp = []"
  obtains s w' where "OpenSegment opts w = (Inr s, w')" "file_data w' logp = concat (valid_prefix d)"
    "sg_dir s = so_Dir opts" "sg_baseOffset s = so_BaseOffset opts" "\<not> sg_sealed s"
    "sg_maxBytes s = so_MaxBytes opts" "sg_maxAge s = so_MaxAge opts"
    "sg_createdAt s = mtime (file_of w logp)"
    "sg_logFile s = Some (sg_logSize s)" "sg_logSize s = length (concat (valid_prefix d))"
    "sg_nextOffset s = next_after (so_BaseOffset opts) (valid_prefix d)" "seg_open s"
    "index_ok (sg_baseOffset s) (valid_prefix d) (the (sg_idx s))" "touches (seg_files s) w w'"
    "map_of (w_dir w') logp \<noteq> None" "d = [] \<Longrightarrow> file_data w' idxp = []"
proof -
  let ?p = "seg_path (so_Dir opts) (so_BaseOffset opts)"
  let ?P = "?p ` {logSuffix, indexSuffix, timeIndexSuffix}"
  define w1 where "w1 = put_file logp (file_of w logp) w"
  have t1: "touches ?P w w1" and p1: "w_plan w1 = []"
    using assms(1,2) by (auto simp: w1_def os_simps)
  obtain i w2 where a: "OpenIndex idxp (so_IndexInterval opts) w1 = (Inr i, w2)" using OpenIndex_ok [OF p1] by blast
  note fa = OpenIndex_frame [OF a]
  have p2: "w_plan w2 = []" using touches_plan [OF fa(1) p1] .
  obtain t w3 where b: "OpenTimeIndex (?p timeIndexSuffix) (so_IndexInterval opts) w2 = (Inr t, w3)"
    using OpenTimeIndex_ok [OF p2] by blast
  note fb = OpenTimeIndex_frame [OF b]
  have p3: "w_plan w3 = []" using touches_plan [OF fb(1) p2] .
  have t13: "touches ?P w1 w3"
    by (rule touches_trans [OF touches_mono [OF fa(1)] touches_mono [OF fb(1)]]) (auto simp: assms(3))
  have t3: "touches ?P w w3" by (rule touches_trans [OF t1 t13])
  have ex: "map_of (w_dir w3) logp \<noteq> None"
    by (rule touches_exists [OF t13]) (simp add: w1_def os_simps)
  have f3: "file_of w3 logp = file_of w logp"
    using touches_file [OF fa(1), of logp] touches_file [OF fb(1), of logp] assms(2,3)
    by (simp add: w1_def os_simps)
  define s where "s = \<lparr>sg_dir = so_Dir opts, sg_baseOffset = so_BaseOffset opts, sg_logFile = Some 0,
      sg_logSize = length d, sg_createdAt = mtime (file_of w logp), sg_idx = Some i, sg_tix = Some t,
      sg_nextOffset = so_BaseOffset opts, sg_maxBytes = so_MaxBytes opts, sg_maxAge = so_MaxAge opts,
      sg_sealed = False\<rparr>"
  have op: "seg_open s" using fa(2) fb(2) assms(3) by (simp add: s_def seg_open_def)
  have L: "LogPath s = logp" "file_data w3 logp = d"
    using assms(2,4) f3 by (simp_all add: s_def LogPath_def file_data_def)
  have O: "OpenSegment opts w = (case Segment_recover s w3 of
      (Some e, s, w) \<Rightarrow> (Inl e, snd (snd (Segment_Close s w))) | (None, s, w) \<Rightarrow> (Inr s, w))"
    using assms a b p3 f3 by (simp add: OpenSegment_def os_simps w1_def s_def Let_def file_data_def)
  show ?thesis
  proof (cases "d = []")
    case True
    have e1: "file_data w1 idxp = concat (map entry_bytes []) @ []"
      using True assms(2,3,5) by (simp add: w1_def os_simps)
    obtain w'' where "OpenIndex idxp (so_IndexInterval opts) w1 =
        (Inr \<lparr>ix_path = idxp, ix_file = Some 0, ix_entries = [], ix_lastIndexedPos = 0,
              ix_interval = so_IndexInterval opts\<rparr>, w'')"
      "file_data w'' idxp = concat (map entry_bytes [])"
      by (rule OpenIndex_reads_entries [OF p1 e1]) simp_all
    with a have "ix_entries i = []" "file_data w2 idxp = []" by auto
    moreover from this have "file_data w3 idxp = []"
      using touches_data [OF fb(1), of idxp] assms(3) by simp
    moreover have "Segment_recover s w3 = (None, s, w3)"
      using True by (simp add: Segment_recover_def s_def)
    with O have "OpenSegment opts w = (Inr s, w3)" by simp
    ultimately show ?thesis
      using True L op t3 ex by (intro that [of s w3]) (simp_all add: s_def next_after_def index_ok_def)
  next
    case False
    have "\<exists>i t w'. Segment_recover s w3 =
        (None, s\<lparr>sg_logFile := Some (length (concat (valid_prefix d))),
               sg_logSize := length (concat (valid_prefix d)), sg_idx := Some i, sg_tix := Some t,
               sg_nextOffset := next_after (sg_baseOffset s) (valid_prefix d)\<rparr>, w') \<and>
      touches (seg_files s) w3 w' \<and> seg_open (s\<lparr>sg_idx := Some i, sg_tix := Some t\<rparr>) \<and>
      index_ok (sg_baseOffset s) (valid_prefix d) i \<and> file_data w' (LogPath s) = concat (valid_prefix d)"
      by (rule Segment_recover_spec) (simp_all add: p3 L False op, simp_all add: s_def)
    then obtain i' t' w' where rc: "Segment_recover s w3 =
        (None, s\<lparr>sg_logFile := Some (length (concat (valid_prefix d))),
               sg_logSize := length (concat (valid_prefix d)), sg_idx := Some i', sg_tix := Some t',
               sg_nextOffset := next_after (sg_baseOffset s) (valid_prefix d)\<rparr>, w')"
      "touches (seg_files s) w3 w'" "seg_open (s\<lparr>sg_idx := Some i', sg_tix := Some t'\<rparr>)"
      "index_ok (sg_baseOffset s) (valid_prefix d) i'" "file_data w' (LogPath s) = concat (valid_prefix d)"
      by blast
    have "touches (seg_files s) w w'"
      by (rule touches_trans [OF _ rc(2)]) (use t3 in \<open>simp add: s_def\<close>)
    moreover define s' where "s' = s\<lparr>sg_logFile := Some (length (concat (valid_prefix d))),
               sg_logSize := length (concat (valid_prefix d)), sg_idx := Some i', sg_tix := Some t',
               sg_nextOffset := next_after (sg_baseOffset s) (valid_prefix d)\<rparr>"
    then have "OpenSegment opts w = (Inr s', w')"
      using O rc(1) by simp
    ultimately show ?thesis
      using rc(3,4,5) L(1) False touches_exists [OF rc(2) ex]
      by (intro that [of s' w']) (simp_all add: s'_def s_def seg_open_def)
  qed
qed

lemma OpenSegment_rep:
  assumes "w_plan w = []" "d = file_data w (seg_path (so_Dir opts) (so_BaseOffset opts) logSuffix)"
    "d \<noteq> [] \<or> file_data w (seg_path (so_Dir opts) (so_BaseOffset opts) indexSuffix) = []"
    "valid_prefix d = bs" "chain (so_BaseOffset opts) bs e" "0 \<le> so_BaseOffset opts" "e \<le> max_i64"
  obtains s w' where "OpenSegment opts w = (Inr s, w')" "seg_rep s w' bs" "touches (seg_files s) w w'"
    "sg_dir s = so_Dir opts" "sg_baseOffset s = so_BaseOffset opts" "sg_nextOffset s = e" "\<not> sg_sealed s"
    "sg_maxBytes s = so_MaxBytes opts" "sg_maxAge s = so_MaxAge opts"
    "map_of (w_dir w') (LogPath s) \<noteq> None"
    "d = [] \<Longrightarrow> file_data w' (seg_path (so_Dir opts) (so_BaseOffset opts) indexSuffix) = []"
proof -
  obtain s w' where os: "OpenSegment opts w = (Inr s, w')"
    "file_data w' (seg_path (so_Dir opts) (so_BaseOffset opts) logSuffix) = concat bs"
    "sg_dir s = so_Dir opts" "sg_baseOffset s = so_BaseOffset opts" "\<not> sg_sealed s"
    "sg_maxBytes s = so_MaxBytes opts" "sg_maxAge s = so_MaxAge opts"
    "sg_logFile s = Some (sg_logSize s)" "sg_logSize s = length (concat bs)"
    "sg_nextOffset s = next_after (so_BaseOffset opts) bs" "seg_open s"
    "index_ok (sg_baseOffset s) bs (the (sg_idx s))" "touches (seg_files s) w w'"
    "map_of (w_dir w') (seg_path (so_Dir opts) (so_BaseOffset opts) logSuffix) \<noteq> None"
    "d = [] \<Longrightarrow> file_data w' (seg_path (so_Dir opts) (so_BaseOffset opts) indexSuffix) = []"
    using OpenSegment_spec [OF assms(1) refl refl refl, of opts] assms(2-4) by metis
  have "next_after (so_BaseOffset opts) bs = e"
  proof (cases "bs = []")
    case True
    with assms(5) show ?thesis by (simp add: next_after_def)
  next
    case False
    then have bs: "bs = butlast bs @ last bs # []" by simp
    have "LastOffset (header_of (last bs)) = BaseOffset (header_of (last bs)) + LastOffsetDelta (header_of (last bs)) \<and>
      i64 (LastOffset (header_of (last bs)) + 1) = e"
      using LastOffset_simp [of "header_of (last bs)"] chain_member [OF assms(5) bs]
        chain_last [OF assms(5) False] assms(6,7) by auto
    with False show ?thesis by (metis next_after_def)
  qed
  moreover have "\<forall>b \<in> set bs. good_batch b" using assms(4) valid_prefix_good by blast
  ultimately show ?thesis
    using os assms(5-7) by (intro that [of s w']) (auto simp: seg_rep_def LogPath_def)
qed

section \<open>Properties\<close>

lemma seg_rep_cong: "file_data w' (LogPath s) = file_data w (LogPath s) \<Longrightarrow> seg_rep s w' bs \<longleftrightarrow> seg_rep s w bs"
  by (simp add: seg_rep_def)

lemma sample_good: "good_batch sample_batch"
  by (simp add: good_batch_def sample_whole sample_crc)

lemma sample_chain: "chain 0 [sample_batch] 3"
  by (simp add: sample_header)

definition sample_dir :: string where
  "sample_dir = ''data/topics/t/0''"

definition sample_opts :: SegmentOpts where
  "sample_opts = \<lparr>so_Dir = sample_dir, so_BaseOffset = 0, so_IndexInterval = 16384, so_MaxBytes = 1000000, so_MaxAge = 0\<rparr>"

text \<open>A directory whose segment 0 holds the given log bytes and index bytes.\<close>

definition sample_world :: "bytes \<Rightarrow> bytes \<Rightarrow> world" where
  "sample_world d ix = \<lparr>w_plan = [],
     w_dir = [(seg_path sample_dir 0 logSuffix, \<lparr>fdata = d, mtime = 0\<rparr>),
              (seg_path sample_dir 0 indexSuffix, \<lparr>fdata = ix, mtime = 0\<rparr>)], w_now = 0, w_paused = False\<rparr>"

lemma sample_world_data [simp]:
  "file_data (sample_world d ix) (seg_path sample_dir 0 logSuffix) = d"
  "file_data (sample_world d ix) (seg_path sample_dir 0 indexSuffix) = ix"
  "w_plan (sample_world d ix) = []"
  by (simp_all add: sample_world_def file_data_def file_of_def)

text \<open>
  C2: recovery after a crash loses nothing that was completely written. If the log file is a chain of
  complete valid batches followed by any strict prefix of one more batch (a torn write), opening the
  segment succeeds, truncates the file to exactly those batches, restores the next offset, and
  re-establishes the segment invariant with both indexes rebuilt.
\<close>

theorem crash_recovery_keeps_complete_batches:
  assumes "w_plan w = []"
    "file_data w (seg_path (so_Dir opts) (so_BaseOffset opts) logSuffix) = concat bs @ take k b"
    "\<forall>b \<in> set bs. good_batch b" "chain (so_BaseOffset opts) bs e" "whole_batch b" "k < length b"
    "bs \<noteq> [] \<or> 0 < k" "0 \<le> so_BaseOffset opts" "e \<le> max_i64"
  shows "\<exists>s w'. OpenSegment opts w = (Inr s, w') \<and> seg_rep s w' bs \<and> sg_nextOffset s = e \<and>
    file_data w' (seg_path (so_Dir opts) (so_BaseOffset opts) logSuffix) = concat bs"
proof -
  let ?d = "concat bs @ take k b"
  have "valid_prefix ?d = bs"
    using valid_prefix_concat [OF assms(3), of "take k b"] valid_prefix_torn [OF assms(5,6)] by simp
  moreover have "?d \<noteq> []"
    using assms(3,5,7) good_batchD(2) whole_batchD(2) [OF assms(5)] by (cases bs) fastforce+
  ultimately obtain s w' where "OpenSegment opts w = (Inr s, w')" "seg_rep s w' bs" "sg_nextOffset s = e"
    "sg_dir s = so_Dir opts" "sg_baseOffset s = so_BaseOffset opts"
    using OpenSegment_rep [OF assms(1) assms(2) [symmetric] _ _ assms(4,8,9)] by blast
  then show ?thesis by (auto simp: seg_rep_def LogPath_def)
qed

theorem crash_recovery_keeps_complete_batches_witness:
  "\<exists>s w'. OpenSegment sample_opts (sample_world (sample_batch @ take 40 sample_batch) [1, 2, 3]) = (Inr s, w') \<and>
     seg_rep s w' [sample_batch] \<and> sg_nextOffset s = 3 \<and>
     file_data w' (seg_path sample_dir 0 logSuffix) = sample_batch"
  using crash_recovery_keeps_complete_batches
    [of "sample_world (sample_batch @ take 40 sample_batch) [1, 2, 3]" sample_opts "[sample_batch]" 40 sample_batch 3]
  by (simp add: sample_opts_def sample_good sample_header sample_whole)

text \<open>
  C18: recovery of arbitrary bytes. Whatever a non-empty log file contains, opening it keeps a prefix
  made of complete batches with valid CRCs, the first of the discarded bytes do not start such a
  batch, and opening the result again changes nothing.
\<close>

theorem recovery_of_arbitrary_bytes:
  assumes "w_plan w = []" "d = file_data w (seg_path (so_Dir opts) (so_BaseOffset opts) logSuffix)" "d \<noteq> []"
  shows "\<exists>s w' gs rest. OpenSegment opts w = (Inr s, w') \<and> d = concat gs @ rest \<and>
    file_data w' (seg_path (so_Dir opts) (so_BaseOffset opts) logSuffix) = concat gs \<and>
    sg_logSize s = length (concat gs) \<and> (\<forall>b \<in> set gs. good_batch b) \<and>
    \<not> (\<exists>b r. rest = b @ r \<and> good_batch b) \<and>
    (gs \<noteq> [] \<longrightarrow> (\<exists>s2 w2. OpenSegment opts w' = (Inr s2, w2) \<and> sg_logSize s2 = sg_logSize s \<and>
       sg_nextOffset s2 = sg_nextOffset s \<and>
       file_data w2 (seg_path (so_Dir opts) (so_BaseOffset opts) logSuffix) = concat gs))"
proof -
  let ?p = "seg_path (so_Dir opts) (so_BaseOffset opts) logSuffix"
  define gs where "gs = valid_prefix d"
  obtain s w' where s: "OpenSegment opts w = (Inr s, w')" "file_data w' ?p = concat gs"
    "sg_logSize s = length (concat gs)" "sg_nextOffset s = next_after (so_BaseOffset opts) gs"
    "touches (seg_files s) w w'"
    using OpenSegment_spec [OF assms(1) refl refl refl, of opts] assms(2,3) unfolding gs_def by metis
  have good: "\<forall>b \<in> set gs. good_batch b" using valid_prefix_good by (auto simp: gs_def)
  define rest where "rest = drop (length (concat gs)) d"
  have d: "d = concat gs @ rest"
    using valid_prefix_take [of d] append_take_drop_id [of "length (concat gs)" d]
    by (simp add: gs_def rest_def)
  have "valid_prefix d = gs @ valid_prefix rest"
    by (subst d) (rule valid_prefix_concat [OF good])
  then have "valid_prefix rest = []" by (simp add: gs_def [symmetric])
  then have norest: "\<not> (\<exists>b r. rest = b @ r \<and> good_batch b)"
    using valid_prefix_concat [of "[b]" r for b r] by auto
  have again: "\<exists>s2 w2. OpenSegment opts w' = (Inr s2, w2) \<and> sg_logSize s2 = sg_logSize s \<and>
       sg_nextOffset s2 = sg_nextOffset s \<and> file_data w2 ?p = concat gs" if "gs \<noteq> []"
  proof -
    have "concat gs \<noteq> []" using that good good_batchD(2) by (cases gs) fastforce+
    moreover have "valid_prefix (concat gs) = gs" using valid_prefix_concat [OF good, of "[]"] by simp
    ultimately show ?thesis
      using OpenSegment_spec [OF touches_plan [OF s(5) assms(1)] refl refl refl, of opts] s(2-4) by metis
  qed
  show ?thesis
    using s d good norest again by (intro exI [of _ s] exI [of _ w'] exI [of _ gs] exI [of _ rest]) simp
qed

theorem recovery_of_arbitrary_bytes_witness:
  "\<exists>s w' gs rest. OpenSegment sample_opts (sample_world (sample_batch @ [7, 7]) []) = (Inr s, w') \<and>
     sample_batch @ [7, 7] = concat gs @ rest \<and> file_data w' (seg_path sample_dir 0 logSuffix) = concat gs \<and>
     (\<forall>b \<in> set gs. good_batch b) \<and> \<not> (\<exists>b r. rest = b @ r \<and> good_batch b)"
  using recovery_of_arbitrary_bytes [of "sample_world (sample_batch @ [7, 7]) []" "sample_batch @ [7, 7]" sample_opts]
  by (simp add: sample_opts_def) blast

text \<open>
  C19: an offset lookup inside a segment. For every offset the segment holds, the scan that starts at
  the sparse index's answer stops at the batch that contains that offset, and does not alter anything.
\<close>

theorem FindBatchAt_correct:
  assumes "seg_rep s w bs" "w_plan w = []" "sg_baseOffset s \<le> target" "target < sg_nextOffset s"
  shows "\<exists>pre b post. bs = pre @ b # post \<and> FindBatchAt s target w = (Inr (length (concat pre)), w) \<and>
    BaseOffset (hdr b) \<le> target \<and> target \<le> LastOffset (hdr b)"
proof -
  obtain pre b post where *: "bs = pre @ b # post" "FindBatchAt s target w = (Inr (length (concat pre)), w)"
    "BaseOffset (header_of b) \<le> target" "target \<le> BaseOffset (header_of b) + LastOffsetDelta (header_of b)"
    using FindBatchAt_finds [OF assms] by metis
  have ch: "chain (sg_baseOffset s) bs (sg_nextOffset s)"
    and "0 \<le> sg_baseOffset s" "sg_nextOffset s \<le> max_i64" "good_batch b"
    using assms(1) *(1) by (auto simp: seg_rep_def)
  then have "hdr b = header_of b" "LastOffset (header_of b) = BaseOffset (header_of b) + LastOffsetDelta (header_of b)"
    using chain_member [OF ch *(1)] LastOffset_simp [of "header_of b"] good_batchD(1) [of b] by auto
  with * show ?thesis by (intro exI [of _ pre] exI [of _ b] exI [of _ post]) simp
qed

definition sample_seg :: "nat \<Rightarrow> int \<Rightarrow> indexEntry list \<Rightarrow> Segment" where
  "sample_seg n x es = \<lparr>sg_dir = sample_dir, sg_baseOffset = 0, sg_logFile = Some n, sg_logSize = n, sg_createdAt = 0,
     sg_idx = Some \<lparr>ix_path = seg_path sample_dir 0 indexSuffix, ix_file = Some 0, ix_entries = es,
       ix_lastIndexedPos = 0, ix_interval = 16384\<rparr>,
     sg_tix = Some \<lparr>tx_path = seg_path sample_dir 0 timeIndexSuffix, tx_file = Some 0, tx_entries = [],
       tx_lastIndexedPos = 0, tx_lastTS = 0, tx_interval = 16384\<rparr>,
     sg_nextOffset = x, sg_maxBytes = 1000000, sg_maxAge = 0, sg_sealed = False\<rparr>"

lemma sample_seg_rep:
  "seg_rep (sample_seg 61 3 [\<lparr>RelOffset = 0, Position = 0\<rparr>]) (sample_world sample_batch []) [sample_batch]"
  "seg_rep (sample_seg 0 0 []) (sample_world [] []) []"
  by (auto simp: seg_rep_def sample_seg_def sample_good sample_header seg_open_def index_ok_def LogPath_def
      i64_id intro: exI [of _ "[]"])

theorem FindBatchAt_correct_witness:
  "\<exists>pre b post. [sample_batch] = pre @ b # post \<and>
     FindBatchAt (sample_seg 61 3 [\<lparr>RelOffset = 0, Position = 0\<rparr>]) 2 (sample_world sample_batch []) =
       (Inr (length (concat pre)), sample_world sample_batch []) \<and>
     BaseOffset (hdr b) \<le> 2 \<and> 2 \<le> LastOffset (hdr b)"
  by (rule FindBatchAt_correct [OF sample_seg_rep(1)]) (simp_all add: sample_seg_def)

section \<open>Two ways a segment loses track of its file\<close>

text \<open>
  A short write. \<^verbatim>\<open>Append\<close> returns the error but the file handle stays behind the bytes that were
  written, while \<^verbatim>\<open>logSize\<close> does not move. The next append is acknowledged, lands behind those
  bytes, cannot be found by a lookup, and is discarded by the next recovery.
\<close>

lemma torn_front:
  "ParseBatchHeader (take 10 sample_batch @ sample_batch) =
     (header_of (take 10 sample_batch @ sample_batch), Some (UnsupportedMagic 0))"
proof -
  have "Magic (header_of (take 10 sample_batch @ sample_batch)) = 0"
    by (simp add: header_of_def sample_batch_def wrap_s_def)
  then show ?thesis by (simp add: ParseBatchHeader_def)
qed

lemma short_write_loses_next_append:
  defines "w \<equiv> (sample_world [] [])\<lparr>w_plan := [IoFail 10]\<rparr>" and "s \<equiv> sample_seg 0 0 []"
  shows "\<exists>s1 w1 s2 w2. seg_rep s w [] \<and> Segment_Append s sample_batch w = (Inl SegWrite, s1, w1) \<and>
    Segment_Append s1 sample_batch w1 = (Inr (0, 2, 0), s2, w2) \<and> sg_nextOffset s2 = 3 \<and>
    fst (FindBatchAt s2 0 w2) = Inl (SegScan 0 (UnsupportedMagic 0)) \<and>
    valid_prefix (file_data w2 (LogPath s2)) = []"
proof -
  have wf: "file_data w p = file_data (sample_world [] []) p" for p
    by (simp add: w_def file_data_def file_of_def split: option.splits)
  then have rep: "seg_rep s w []"
    using sample_seg_rep(2) seg_rep_cong by (metis s_def)
  have att: "ValidateBatchAttributes 0 = None" by (simp add: ValidateBatchAttributes_iff good_attributes_def)
  obtain s1 w1 where a1: "Segment_Append s sample_batch w = (Inl SegWrite, s1, w1)" "s1 = s\<lparr>sg_logFile := Some 10\<rparr>"
    "w_plan w1 = []" "file_data w1 (LogPath s) = take 10 sample_batch"
    by (simp add: Segment_Append_def s_def sample_seg_def sample_parse sample_crc sample_header att Let_def
        os_write_def io_next_def w_def os_simps LogPath_def overwrite_def)
      (simp add: file_data_def file_of_def sample_world_def)
  define s1' where "s1' = s1\<lparr>sg_logFile := Some 71, sg_logSize := 61, sg_nextOffset := 3\<rparr>"
  define w2 where "w2 = put_file (LogPath s) \<lparr>fdata = take 10 sample_batch @ sample_batch, mtime = w_now w1\<rparr> w1"
  obtain s2 w3 where ib: "index_batch s1' (header_of sample_batch) 0 w2 = (s2, w3)" by fastforce
  have L: "LogPath s1 = LogPath s" "seg_open s1'"
    using a1(2) by (auto simp: LogPath_def s1'_def s_def sample_seg_def seg_open_def)
  note fr = index_batch_frame [OF ib L(2)]
  have a2: "Segment_Append s1 sample_batch w1 = (Inr (0, 2, 0), s2, w3)"
    using ib a1(2-4) L(1)
    by (simp add: Segment_Append_def s1'_def s_def sample_seg_def sample_parse sample_crc sample_header att Let_def
        os_simps w2_def overwrite_def LastOffset_def i64_id)
  have d: "file_data w3 (LogPath s2) = take 10 sample_batch @ sample_batch" "w_plan w3 = []"
    "LogPath s2 = LogPath s"
    using fr(1,2) touches_data [OF fr(1), of "LogPath s"] touches_plan [OF fr(1)] a1(2,3)
    by (auto simp: w2_def os_simps LogPath_def s1'_def s_def sample_seg_def)
  have vp: "valid_prefix (take 10 sample_batch @ sample_batch) = []"
    by (subst valid_prefix_simp) (simp add: batch_size_def torn_front)
  have "fst (FindBatchAt s2 0 w3) = Inl (SegScan 0 (UnsupportedMagic 0))"
  proof -
    have hd: "ParseBatchHeader (take 61 (take 10 sample_batch @ sample_batch)) =
        (header_of (take 10 sample_batch @ sample_batch), Some (UnsupportedMagic 0))"
      using torn_front ParseBatchHeader_take [of 61 "take 10 sample_batch @ sample_batch"] by simp
    obtain i where i: "sg_idx s2 = Some i" "\<forall>e \<in> set (ix_entries i). Position e = 0" "sg_logSize s2 = 61"
      using fr(2,4) a1(2) by (auto simp: s1'_def s_def sample_seg_def)
    then have "LookupPosition i r = (0, snd (LookupPosition i r))" for r
      using LookupPosition_below [of i r] by (cases "LookupPosition i r") fastforce
    then have "\<exists>ok. LookupPosition i (i64 (- sg_baseOffset s2)) = (0, ok)" by blast
    then show ?thesis
      using i d hd by (auto simp: FindBatchAt_def Let_def find_loop.simps os_simps)
  qed
  then show ?thesis
    using rep a1(1) a2 d(1) vp fr(2)
    by - (rule exI [of _ s1], rule exI [of _ w1], rule exI [of _ s2], rule exI [of _ w3], auto simp: s1'_def)
qed

text \<open>
  An empty log beside a non-empty index. \<^verbatim>\<open>recover\<close> returns before it resets the indexes when the
  log file is empty, so an index that outlived its log (the log's bytes were still in the page cache
  when the machine stopped) is used as it is: its stale positions send lookups past the new data.
\<close>

lemma empty_log_keeps_stale_index:
  defines "ix \<equiv> entry_bytes \<lparr>RelOffset = 0, Position = 0\<rparr> @ entry_bytes \<lparr>RelOffset = 2, Position = 20000\<rparr>"
  shows "\<exists>s w s1 w1. OpenSegment sample_opts (sample_world [] ix) = (Inr s, w) \<and> sg_nextOffset s = 0 \<and>
    Segment_Append s sample_batch w = (Inr (0, 2, 0), s1, w1) \<and>
    FindBatchAt s1 2 w1 = (Inr (sg_logSize s1), w1)"
proof -
  let ?es = "[\<lparr>RelOffset = 0, Position = 0\<rparr>, \<lparr>RelOffset = 2, Position = 20000\<rparr>]"
  let ?p = "seg_path sample_dir 0"
  define w0 where "w0 = put_file (?p logSuffix) (file_of (sample_world [] ix) (?p logSuffix)) (sample_world [] ix)"
  have w0: "w_plan w0 = []" "file_data w0 (?p indexSuffix) = concat (map entry_bytes ?es) @ []"
    "file_data w0 (?p logSuffix) = []"
    by (simp_all add: w0_def os_simps ix_def file_data_def [symmetric])
  define i where "i = \<lparr>ix_path = ?p indexSuffix, ix_file = Some 0, ix_entries = ?es, ix_lastIndexedPos = 20000,
      ix_interval = 16384\<rparr>"
  obtain w1 where a: "OpenIndex (?p indexSuffix) 16384 w0 = (Inr i, w1)" "w_plan w1 = []"
    by (rule OpenIndex_reads_entries [OF w0(1,2), of 16384]) (simp_all add: entry_ok_def i_def)
  obtain t w2 where b: "OpenTimeIndex (?p timeIndexSuffix) 16384 w1 = (Inr t, w2)"
    using OpenTimeIndex_ok [OF a(2)] by blast
  have w2: "w_plan w2 = []" "file_data w2 (?p logSuffix) = []"
    using touches_plan [OF OpenTimeIndex_frame(1) [OF b] a(2)] touches_data [OF OpenTimeIndex_frame(1) [OF b]]
      touches_data [OF OpenIndex_frame(1) [OF a(1)]] w0(3) by simp_all
  obtain m where m: "file_of w2 (?p logSuffix) = \<lparr>fdata = [], mtime = m\<rparr>"
    using w2(2) by (cases "file_of w2 (?p logSuffix)") (simp add: file_data_def)
  define s where "s = \<lparr>sg_dir = sample_dir, sg_baseOffset = 0, sg_logFile = Some 0, sg_logSize = 0, sg_createdAt = m,
     sg_idx = Some i, sg_tix = Some t, sg_nextOffset = 0, sg_maxBytes = 1000000, sg_maxAge = 0, sg_sealed = False\<rparr>"
  have op: "OpenSegment sample_opts (sample_world [] ix) = (Inr s, w2)"
    using a b w2 m by (simp add: OpenSegment_def sample_opts_def os_simps w0_def [symmetric] s_def Segment_recover_def)
  have att: "ValidateBatchAttributes 0 = None" by (simp add: ValidateBatchAttributes_iff good_attributes_def)
  define s1 where "s1 = s\<lparr>sg_logFile := Some 61, sg_logSize := 61, sg_nextOffset := 3\<rparr>"
  define w3 where "w3 = put_file (?p logSuffix) \<lparr>fdata = sample_batch, mtime = w_now w2\<rparr> w2"
  obtain t' w4 where ib: "index_batch s1 (header_of sample_batch) 0 w3 = (s1\<lparr>sg_tix := Some t'\<rparr>, w4)"
    by (cases "TimeIndex_MaybeAppend t 1000 0 0 w3")
      (simp add: index_batch_def s1_def s_def i_def Index_MaybeAppend_def sample_header i64_id)
  have ap: "Segment_Append s sample_batch w2 = (Inr (0, 2, 0), s1\<lparr>sg_tix := Some t'\<rparr>, w4)"
    using ib w2
    by (simp add: Segment_Append_def s1_def s_def sample_parse sample_crc sample_header att Let_def
        os_simps LogPath_def w3_def overwrite_def LastOffset_def i64_id)
  have "LookupPosition i 2 = (20000, True)"
    by (simp add: LookupPosition_def i_def Let_def sort_search_def search_loop.simps wrap_u_def)
  then have "FindBatchAt (s1\<lparr>sg_tix := Some t'\<rparr>) 2 w4 = (Inr 61, w4)"
    by (simp add: FindBatchAt_def s1_def s_def i64_id Let_def find_loop.simps)
  with op ap show ?thesis by (auto simp: s_def s1_def)
qed

end
