(* ===== verification/Partition_Log.thy ===== *)
theory Partition_Log
  imports Segment
begin

text \<open>
  A partition's log (\<^verbatim>\<open>internal/storage/log.go\<close>): a list of segments, the last one active. The model
  covers opening and recovery of a directory, append with rolling and the all-or-nothing validation,
  fetch, offset and timestamp lookups, deletion and closing. \<open>log_rep\<close> relates a log and the files it
  lives in to the list of batches it holds; the operations are shown to refine append, read and
  drop on that list.
\<close>

section \<open>State\<close>

record Config =
  cf_DataDir :: string
  cf_SegmentBytes :: int
  cf_SegmentMS :: int
  cf_IndexInterval :: int
  cf_FsyncMode :: string
  cf_FsyncInterval :: int

text \<open>\<open>lg_diskGuard\<close> says a disk guard is attached; its flag is \<^const>\<open>w_paused\<close>.\<close>

record Log =
  lg_dir :: string
  lg_topic :: string
  lg_partition :: int
  lg_cfg :: Config
  lg_segments :: "Segment list"
  lg_logStart :: int
  lg_diskGuard :: bool

datatype log_err =
    LogMkdir
  | LogReadDir
  | LogOpen seg_err
  | LogDiskFull
  | LogEmptyBatches
  | LogNoActive
  | LogRoll seg_err
  | LogBatch nat batch_err
  | LogAppendBatch nat seg_err
  | LogRollMidProduce seg_err
  | LogFsync seg_err
  | LogOffsetOutOfRange
  | LogFind seg_err
  | LogRead seg_err
  | LogParse batch_err
  | LogDelete seg_err
  | LogPanic

text \<open>A panic is not an error value a caller can wrap.\<close>

definition wrap_err :: "(seg_err \<Rightarrow> log_err) \<Rightarrow> seg_err \<Rightarrow> log_err" where
  "wrap_err f e = (if e = GoPanic then LogPanic else f e)"

text \<open>The default values \<^verbatim>\<open>Open\<close> fills in.\<close>

definition storage_defaults :: "Config \<Rightarrow> Config" where
  "storage_defaults cfg =
     (let cfg = (if cf_SegmentBytes cfg \<le> 0 then cfg\<lparr>cf_SegmentBytes := 1073741824\<rparr> else cfg);
          cfg = (if cf_SegmentMS cfg \<le> 0 then cfg\<lparr>cf_SegmentMS := 7 * 24 * 3600 * 1000\<rparr> else cfg);
          cfg = (if cf_IndexInterval cfg \<le> 0 then cfg\<lparr>cf_IndexInterval := 16 * 1024\<rparr> else cfg);
          cfg = (if cf_FsyncMode cfg = [] then cfg\<lparr>cf_FsyncMode := ''interval''\<rparr> else cfg)
      in if cf_FsyncInterval cfg \<le> 0 then cfg\<lparr>cf_FsyncInterval := 5000000000\<rparr> else cfg)"

definition segment_opts :: "Config \<Rightarrow> string \<Rightarrow> int \<Rightarrow> SegmentOpts" where
  "segment_opts cfg dir base =
     \<lparr>so_Dir = dir, so_BaseOffset = base, so_IndexInterval = cf_IndexInterval cfg,
      so_MaxBytes = cf_SegmentBytes cfg, so_MaxAge = i64 (cf_SegmentMS cfg * 1000000)\<rparr>"

section \<open>Opening\<close>

text \<open>
  \<^verbatim>\<open>os.ReadDir\<close>: the names of the directory's files. \<^verbatim>\<open>segmentFilenameRe\<close> is the pattern
  \<^verbatim>\<open>^(\d{20})\.log$\<close>; \<^verbatim>\<open>strconv.ParseInt\<close> fails above the largest int64.
\<close>

definition dir_names :: "string \<Rightarrow> world \<Rightarrow> string list" where
  "dir_names dir w = remdups
     [drop (length dir + 1) p. p \<leftarrow> map fst (w_dir w),
        take (length dir + 1) p = dir @ [CHR ''/''], CHR ''/'' \<notin> set (drop (length dir + 1) p)]"

definition segment_base :: "string \<Rightarrow> int option" where
  "segment_base name =
     (if length name = 24 \<and> (\<forall>c \<in> set (take 20 name). is_digit c) \<and> drop 20 name = logSuffix
      then let v = int (parse_dec (take 20 name)) in if v \<le> max_i64 then Some v else None
      else None)"

fun open_segments :: "Config \<Rightarrow> string \<Rightarrow> int list \<Rightarrow> world \<Rightarrow> (seg_err + Segment list) \<times> world" where
  "open_segments cfg dir [] w = (Inr [], w)"
| "open_segments cfg dir (base # bases) w =
     (case OpenSegment (segment_opts cfg dir base) w of
        (Inl e, w) \<Rightarrow> (Inl e, w)
      | (Inr seg, w) \<Rightarrow>
          let seg = (if bases \<noteq> [] then seg\<lparr>sg_sealed := True\<rparr> else seg) in
          (case open_segments cfg dir bases w of
             (Inl e, w) \<Rightarrow> (Inl e, w)
           | (Inr segs, w) \<Rightarrow> (Inr (seg # segs), w)))"

definition Log_recover :: "Log \<Rightarrow> world \<Rightarrow> (log_err + Log) \<times> world" where
  "Log_recover l w =
     (case os_ctl w of
        (False, w) \<Rightarrow> (Inl LogReadDir, w)
      | (True, w) \<Rightarrow>
          let bases = sort (List.map_filter segment_base (dir_names (lg_dir l) w)) in
          (case open_segments (lg_cfg l) (lg_dir l) bases w of
             (Inl e, w) \<Rightarrow> (Inl (wrap_err LogOpen e), w)
           | (Inr segs, w) \<Rightarrow>
               (Inr (l\<lparr>lg_segments := segs,
                       lg_logStart := (if segs \<noteq> [] then sg_baseOffset (hd segs) else lg_logStart l)\<rparr>), w)))"

definition PartitionDir :: "string \<Rightarrow> string \<Rightarrow> int \<Rightarrow> string" where
  "PartitionDir dataDir topic part =
     path_join (path_join (path_join dataDir ''topics'') topic) (dec_int part)"

text \<open>\<^verbatim>\<open>(s *Storage) OpenLog\<close>; \<open>guard\<close> says whether the storage has a disk guard attached.\<close>

definition OpenLog :: "Config \<Rightarrow> bool \<Rightarrow> string \<Rightarrow> int \<Rightarrow> world \<Rightarrow> (log_err + Log) \<times> world" where
  "OpenLog cfg guard topic part w =
     (let dir = PartitionDir (cf_DataDir cfg) topic part in
      case os_ctl w of
        (False, w) \<Rightarrow> (Inl LogMkdir, w)
      | (True, w) \<Rightarrow>
          (case Log_recover \<lparr>lg_dir = dir, lg_topic = topic, lg_partition = part, lg_cfg = cfg,
                             lg_segments = [], lg_logStart = 0, lg_diskGuard = guard\<rparr> w of
             (Inl e, w) \<Rightarrow> (Inl e, w)
           | (Inr l, w) \<Rightarrow>
               if lg_segments l = [] then
                 (case OpenSegment (segment_opts cfg dir 0) w of
                    (Inl e, w) \<Rightarrow> (Inl (wrap_err LogOpen e), w)
                  | (Inr seg, w) \<Rightarrow> (Inr (l\<lparr>lg_segments := [seg]\<rparr>), w))
               else (Inr l, w)))"

section \<open>Reading the state\<close>

definition HighWatermark :: "Log \<Rightarrow> int" where
  "HighWatermark l = (if lg_segments l = [] then 0 else sg_nextOffset (last (lg_segments l)))"

definition LogStartOffset :: "Log \<Rightarrow> int" where
  "LogStartOffset l = lg_logStart l"

definition EarliestOffset :: "Log \<Rightarrow> int" where
  "EarliestOffset l = (if lg_segments l = [] then 0 else sg_baseOffset (hd (lg_segments l)))"

definition LatestOffset :: "Log \<Rightarrow> int" where
  "LatestOffset l = HighWatermark l"

definition activeSegment :: "Log \<Rightarrow> Segment option" where
  "activeSegment l = (if lg_segments l = [] then None else Some (last (lg_segments l)))"

text \<open>\<^verbatim>\<open>make([]*Segment, 0, len-1)\<close> panics on a log that was closed.\<close>

definition SealedSegments :: "Log \<Rightarrow> log_err + Segment list" where
  "SealedSegments l = (if lg_segments l = [] then Inl LogPanic else Inr (butlast (lg_segments l)))"

definition AllSegments :: "Log \<Rightarrow> Segment list" where
  "AllSegments l = lg_segments l"

section \<open>Append\<close>

text \<open>The active segment is always the last element; it is updated in place.\<close>

definition set_active :: "Segment \<Rightarrow> Log \<Rightarrow> Log" where
  "set_active s l = l\<lparr>lg_segments := butlast (lg_segments l) @ [s]\<rparr>"

definition rollLocked :: "Log \<Rightarrow> world \<Rightarrow> seg_err option \<times> Log \<times> world" where
  "rollLocked l w =
     (let old = last (lg_segments l) in
      if sg_nextOffset old = sg_baseOffset old then (None, l, w)
      else case Segment_Seal old w of
        (Some e, old, w) \<Rightarrow> (Some e, set_active old l, w)
      | (None, old, w) \<Rightarrow>
          let l = set_active old l in
          (case OpenSegment (segment_opts (lg_cfg l) (lg_dir l) (sg_nextOffset old)) w of
             (Inl e, w) \<Rightarrow> (Some e, l, w)
           | (Inr seg, w) \<Rightarrow> (None, l\<lparr>lg_segments := lg_segments l @ [seg]\<rparr>, w)))"

fun validate_all :: "nat \<Rightarrow> bytes list \<Rightarrow> log_err option" where
  "validate_all i [] = None"
| "validate_all i (b # bs) =
     (case ValidateBatchForAppend b of Some e \<Rightarrow> Some (LogBatch i e) | None \<Rightarrow> validate_all (i + 1) bs)"

fun append_loop :: "nat \<Rightarrow> Log \<Rightarrow> bytes list \<Rightarrow> world \<Rightarrow> log_err option \<times> Log \<times> world" where
  "append_loop i l [] w = (None, l, w)"
| "append_loop i l (b # bs) w =
     (let active = last (lg_segments l);
          b = SetPartitionLeaderEpoch 0 (RewriteBaseOffset (sg_nextOffset active) b) in
      case Segment_Append active b w of
        (Inl e, active, w) \<Rightarrow> (Some (wrap_err (LogAppendBatch i) e), set_active active l, w)
      | (Inr _, active, w) \<Rightarrow>
          let l = set_active active l in
          if bs \<noteq> [] \<and> ShouldRoll active w then
            (case rollLocked l w of
               (Some e, l, w) \<Rightarrow> (Some (wrap_err LogRollMidProduce e), l, w)
             | (None, l, w) \<Rightarrow> append_loop (i + 1) l bs w)
          else append_loop (i + 1) l bs w)"

definition Log_Append :: "Log \<Rightarrow> bytes list \<Rightarrow> world \<Rightarrow> (log_err + int) \<times> Log \<times> world" where
  "Log_Append l batches w =
     (if lg_diskGuard l \<and> w_paused w then (Inl LogDiskFull, l, w)
      else if batches = [] then (Inl LogEmptyBatches, l, w)
      else case activeSegment l of
        None \<Rightarrow> (Inl LogNoActive, l, w)
      | Some active \<Rightarrow>
          (case (if ShouldRoll active w then rollLocked l w else (None, l, w)) of
             (Some e, l, w) \<Rightarrow> (Inl (wrap_err LogRoll e), l, w)
           | (None, l, w) \<Rightarrow>
               let startOffset = sg_nextOffset (last (lg_segments l)) in
               (case validate_all 0 batches of
                  Some e \<Rightarrow> (Inl e, l, w)
                | None \<Rightarrow>
                    (case append_loop 0 l batches w of
                       (Some e, l, w) \<Rightarrow> (Inl e, l, w)
                     | (None, l, w) \<Rightarrow>
                         if cf_FsyncMode (lg_cfg l) = ''always'' then
                           (case Segment_Sync (last (lg_segments l)) w of
                              (Some e, w) \<Rightarrow> (Inl (wrap_err LogFsync e), l, w)
                            | (None, w) \<Rightarrow> (Inr startOffset, l, w))
                         else (Inr startOffset, l, w)))))"

section \<open>Fetch\<close>

function trim_loop :: "bytes \<Rightarrow> nat \<Rightarrow> nat" where
  "trim_loop buf pos =
     (if pos < length buf then
        if pos + v2HeaderSize > length buf then pos
        else case ParseBatchHeader (gslice pos (pos + v2HeaderSize) buf) of
          (h, Some _) \<Rightarrow> pos
        | (h, None) \<Rightarrow>
            let end' = pos + nat (TotalSize h) in
            if end' > length buf then pos else trim_loop buf end'
      else pos)"
  by pat_completeness auto
termination
  by (relation "measure (\<lambda>(buf, pos). length buf - pos)") (auto dest!: parse_ok_size)

declare trim_loop.simps [simp del]

definition trimToBatchBoundary :: "bytes \<Rightarrow> bytes" where
  "trimToBatchBoundary buf = take (trim_loop buf 0) buf"

definition findSegmentLocked :: "Log \<Rightarrow> int \<Rightarrow> Segment option" where
  "findSegmentLocked l fetchOffset =
     (let segs = lg_segments l in
      if segs = [] then None
      else if fetchOffset < sg_baseOffset (hd segs) then None
      else if fetchOffset \<ge> sg_nextOffset (last segs) then None
      else
        let idx = sort_search (length segs) (\<lambda>k. sg_baseOffset (segs ! k) > fetchOffset) in
        if idx = 0 then Some (hd segs) else Some (segs ! (idx - 1)))"

text \<open>On an error \<^verbatim>\<open>FetchAt\<close> also returns the fetch offset unchanged.\<close>

definition FetchAt :: "Log \<Rightarrow> int \<Rightarrow> int \<Rightarrow> world \<Rightarrow> (log_err + bytes \<times> int) \<times> world" where
  "FetchAt l fetchOffset maxBytes w =
     (if lg_segments l = [] then (Inr ([], fetchOffset), w)
      else case findSegmentLocked l fetchOffset of
        None \<Rightarrow>
          if fetchOffset \<ge> sg_nextOffset (last (lg_segments l)) then (Inr ([], fetchOffset), w)
          else (Inl LogOffsetOutOfRange, w)
      | Some seg \<Rightarrow>
          (case FindBatchAt seg fetchOffset w of
             (Inl e, w) \<Rightarrow> (Inl (wrap_err LogFind e), w)
           | (Inr startPos, w) \<Rightarrow>
               (case Segment_ReadAt seg startPos maxBytes w of
                  (Inl e, w) \<Rightarrow> (Inl (wrap_err LogRead e), w)
                | (Inr buf, w) \<Rightarrow>
                    if length buf = 0 then (Inr ([], fetchOffset), w)
                    else
                      let trimmed = trimToBatchBoundary buf in
                      if length trimmed = 0 then
                        (case ParseBatchHeader buf of
                           (h, Some perr) \<Rightarrow> (Inl (LogParse perr), w)
                         | (h, None) \<Rightarrow>
                             let need = TotalSize h in
                             (case Segment_ReadAt seg startPos need w of
                                (Inl e, w) \<Rightarrow> (Inl (wrap_err LogRead e), w)
                              | (Inr full, w) \<Rightarrow>
                                  if int (length full) < need then (Inr ([], fetchOffset), w)
                                  else (Inr (full, BaseOffset (fst (ParseBatchHeader full))), w)))
                      else (Inr (trimmed, BaseOffset (fst (ParseBatchHeader trimmed))), w))))"

fun lookup_segments :: "int \<Rightarrow> Segment list \<Rightarrow> log_err + (int \<times> bool)" where
  "lookup_segments ts [] = Inr (0, False)"
| "lookup_segments ts (seg # segs) =
     (case Segment_LookupOffsetByTimestamp seg ts of
        Inl e \<Rightarrow> Inl LogPanic
      | Inr (off, True) \<Rightarrow> Inr (off, True)
      | Inr (_, False) \<Rightarrow> lookup_segments ts segs)"

definition Log_LookupOffsetByTimestamp :: "Log \<Rightarrow> int \<Rightarrow> log_err + (int \<times> bool)" where
  "Log_LookupOffsetByTimestamp l ts = lookup_segments ts (lg_segments l)"

section \<open>Deletion, sync, close\<close>

text \<open>
  The loop of \<^verbatim>\<open>DeleteSegmentsBefore\<close> always looks at the head of the list: the index is not
  advanced, the slice shrinks. \<^verbatim>\<open>Delete\<close> closes the segment's handles before it removes files, so a
  failed removal leaves a closed segment in the list.
\<close>

fun delete_loop :: "int \<Rightarrow> Segment list \<Rightarrow> nat \<Rightarrow> world \<Rightarrow> seg_err option \<times> nat \<times> Segment list \<times> world" where
  "delete_loop cutoff (seg # nxt # segs) deleted w =
     (if sg_baseOffset nxt > cutoff then (None, deleted, seg # nxt # segs, w)
      else case Segment_Delete seg w of
        (Some e, seg, w) \<Rightarrow> (Some e, deleted, seg # nxt # segs, w)
      | (None, seg, w) \<Rightarrow> delete_loop cutoff (nxt # segs) (deleted + 1) w)"
| "delete_loop cutoff segs deleted w = (None, deleted, segs, w)"

definition DeleteSegmentsBefore :: "Log \<Rightarrow> int \<Rightarrow> world \<Rightarrow> log_err option \<times> nat \<times> Log \<times> world" where
  "DeleteSegmentsBefore l cutoff w =
     (case delete_loop cutoff (lg_segments l) 0 w of
        (Some e, deleted, segs, w) \<Rightarrow> (Some (wrap_err LogDelete e), deleted, l\<lparr>lg_segments := segs\<rparr>, w)
      | (None, deleted, segs, w) \<Rightarrow>
          (None, deleted,
           l\<lparr>lg_segments := segs,
             lg_logStart := (if segs \<noteq> [] then sg_baseOffset (hd segs) else lg_logStart l)\<rparr>, w))"

definition FlushAndSync :: "Log \<Rightarrow> world \<Rightarrow> log_err option \<times> world" where
  "FlushAndSync l w =
     (if lg_segments l = [] then (None, w)
      else case Segment_Sync (last (lg_segments l)) w of (e, w) \<Rightarrow> (map_option (wrap_err LogFsync) e, w))"

fun close_all :: "Segment list \<Rightarrow> seg_err option \<Rightarrow> world \<Rightarrow> seg_err option \<times> world" where
  "close_all [] firstErr w = (firstErr, w)"
| "close_all (seg # segs) firstErr w =
     (case Segment_Close seg w of
        (e, _, w) \<Rightarrow> close_all segs (case firstErr of Some _ \<Rightarrow> firstErr | None \<Rightarrow> e) w)"

definition Log_Close :: "Log \<Rightarrow> world \<Rightarrow> log_err option \<times> Log \<times> world" where
  "Log_Close l w =
     (case close_all (lg_segments l) None w of
        (e, w) \<Rightarrow> (map_option (wrap_err LogOpen) e, l\<lparr>lg_segments := []\<rparr>, w))"

section \<open>Representation\<close>

text \<open>
  \<open>sealed_run w d x ss bss e\<close>: the sealed segments \<open>ss\<close> in directory \<open>d\<close> hold the batch lists \<open>bss\<close>, none
  of them empty, and cover the offsets from \<open>x\<close> to \<open>e\<close> without a gap.
\<close>

fun sealed_run :: "world \<Rightarrow> string \<Rightarrow> int \<Rightarrow> Segment list \<Rightarrow> bytes list list \<Rightarrow> int \<Rightarrow> bool" where
  "sealed_run w d x [] [] e \<longleftrightarrow> x = e"
| "sealed_run w d x (s # ss) (bs # bss) e \<longleftrightarrow>
     sg_baseOffset s = x \<and> sg_dir s = d \<and> sg_sealed s \<and> bs \<noteq> [] \<and> seg_rep s w bs \<and>
     sealed_run w d (sg_nextOffset s) ss bss e"
| "sealed_run w d x _ _ e \<longleftrightarrow> False"

text \<open>
  \<open>log_rep l w bss cur\<close>: the sealed segments hold \<open>bss\<close>, the active one holds \<open>cur\<close>; no file of a
  later base offset has contents, an empty active segment has an empty index file, and the \<^verbatim>\<open>.log\<close>
  files of the directory are exactly those of the segments.
\<close>

definition log_rep :: "Log \<Rightarrow> world \<Rightarrow> bytes list list \<Rightarrow> bytes list \<Rightarrow> bool" where
  "log_rep l w bss cur \<longleftrightarrow>
     lg_segments l \<noteq> [] \<and>
     sealed_run w (lg_dir l) (lg_logStart l) (butlast (lg_segments l)) bss (sg_baseOffset (last (lg_segments l))) \<and>
     seg_rep (last (lg_segments l)) w cur \<and> \<not> sg_sealed (last (lg_segments l)) \<and>
     sg_dir (last (lg_segments l)) = lg_dir l \<and> 0 \<le> lg_logStart l \<and>
     (cur = [] \<longrightarrow> file_data w (seg_path (lg_dir l) (sg_baseOffset (last (lg_segments l))) indexSuffix) = []) \<and>
     (\<forall>y. sg_baseOffset (last (lg_segments l)) < y \<and> y \<le> max_i64 \<longrightarrow>
        file_data w (seg_path (lg_dir l) y indexSuffix) = []) \<and>
     (\<forall>y. 0 \<le> y \<and> y \<le> max_i64 \<longrightarrow>
        (map_of (w_dir w) (seg_path (lg_dir l) y logSuffix) \<noteq> None \<longleftrightarrow>
         y \<in> sg_baseOffset ` set (lg_segments l)))"

lemma sealed_run_lengths: "sealed_run w d x ss bss e \<Longrightarrow> length ss = length bss"
  by (induction w d x ss bss e rule: sealed_run.induct) auto

lemma sealed_run_snoc:
  "sealed_run w d x (ss @ [s]) (bss @ [bs]) e \<longleftrightarrow>
     sealed_run w d x ss bss (sg_baseOffset s) \<and> sg_dir s = d \<and> sg_sealed s \<and> bs \<noteq> [] \<and>
     seg_rep s w bs \<and> sg_nextOffset s = e"
proof (cases "length ss = length bss")
  case True
  then show ?thesis by (induction ss bss arbitrary: x rule: list_induct2) auto
next
  case False
  then show ?thesis using sealed_run_lengths by fastforce
qed

lemma seg_rep_bounds:
  "seg_rep s w bs \<Longrightarrow> 0 \<le> sg_baseOffset s \<and> sg_baseOffset s \<le> sg_nextOffset s \<and> sg_nextOffset s \<le> max_i64"
  by (auto simp: seg_rep_def dest: chain_le)

lemma seg_rep_nonempty: "seg_rep s w bs \<Longrightarrow> bs \<noteq> [] \<longleftrightarrow> sg_baseOffset s < sg_nextOffset s"
  by (cases bs) (auto simp: seg_rep_def dest!: chain_le)

lemma sealed_run_le: "sealed_run w d x ss bss e \<Longrightarrow> x \<le> e"
  by (induction w d x ss bss e rule: sealed_run.induct) (auto dest: seg_rep_bounds)

lemma sealed_run_member:
  assumes "sealed_run w d x ss bss e" "s \<in> set ss"
  shows "x \<le> sg_baseOffset s \<and> sg_baseOffset s < sg_nextOffset s \<and> sg_nextOffset s \<le> e \<and> sg_dir s = d \<and>
    0 \<le> sg_baseOffset s \<and> (\<exists>bs \<in> set bss. seg_rep s w bs)"
  using assms
proof (induction w d x ss bss e rule: sealed_run.induct)
  case (2 w d x s' ss bs bss e)
  then have r: "seg_rep s' w bs" "bs \<noteq> []" "sealed_run w d (sg_nextOffset s') ss bss e" by auto
  then show ?case
    using 2 seg_rep_bounds [OF r(1)] seg_rep_nonempty [OF r(1)] sealed_run_le [OF r(3)]
    by (cases "s = s'") force+
qed auto

lemma sealed_run_cong:
  assumes "\<And>s. s \<in> set ss \<Longrightarrow> file_data w' (LogPath s) = file_data w (LogPath s)"
  shows "sealed_run w' d x ss bss e \<longleftrightarrow> sealed_run w d x ss bss e"
  using assms
proof (induction w d x ss bss e rule: sealed_run.induct)
  case (2 w d x s ss bs bss e)
  then show ?case using seg_rep_cong [of w' s w bs] by simp
qed simp_all

lemma sealed_run_touches:
  assumes "sealed_run w d x ss bss e" "touches (seg_path d y ` S) w w'" "e \<le> y" "y \<le> max_i64"
  shows "sealed_run w' d x ss bss e"
proof -
  have "file_data w' (LogPath s) = file_data w (LogPath s)" if "s \<in> set ss" for s
  proof (rule touches_data [OF assms(2)])
    show "LogPath s \<notin> seg_path d y ` S"
      using sealed_run_member [OF assms(1) that] assms(3,4) seg_path_eq_iff [of "sg_baseOffset s" y]
      by (auto simp: LogPath_def)
  qed
  then show ?thesis using sealed_run_cong [of ss w' w] assms(1) by blast
qed

lemma sealed_run_concat:
  "sealed_run w d x ss bss e \<Longrightarrow> chain x (concat bss) e \<and> (\<forall>b \<in> set (concat bss). good_batch b)"
proof (induction w d x ss bss e rule: sealed_run.induct)
  case (2 w d x s ss bs bss e)
  then show ?case by (auto simp: chain_append seg_rep_def)
qed auto

lemma log_rep_chain:
  assumes "log_rep l w bss cur"
  shows "chain (lg_logStart l) (concat bss @ cur) (HighWatermark l)" "\<forall>b \<in> set (concat bss @ cur). good_batch b"
    "0 \<le> lg_logStart l" "HighWatermark l \<le> max_i64" "lg_logStart l \<le> HighWatermark l"
proof -
  have s: "sealed_run w (lg_dir l) (lg_logStart l) (butlast (lg_segments l)) bss (sg_baseOffset (last (lg_segments l)))"
    and a: "seg_rep (last (lg_segments l)) w cur" and n: "lg_segments l \<noteq> []" "0 \<le> lg_logStart l"
    using assms by (auto simp: log_rep_def)
  show c: "chain (lg_logStart l) (concat bss @ cur) (HighWatermark l)"
    using sealed_run_concat [OF s] a n by (auto simp: chain_append HighWatermark_def seg_rep_def)
  show "\<forall>b \<in> set (concat bss @ cur). good_batch b"
    using sealed_run_concat [OF s] a by (auto simp: seg_rep_def)
  show "0 \<le> lg_logStart l" "HighWatermark l \<le> max_i64" "lg_logStart l \<le> HighWatermark l"
    using n a seg_rep_bounds [OF a] chain_le [OF c] by (auto simp: HighWatermark_def)
qed

section \<open>Appending one batch, rolling\<close>

text \<open>A client batch that the log can number: admitted, exactly as long as it says, delta not negative.\<close>

definition sound_batch :: "bytes \<Rightarrow> bool" where
  "sound_batch b \<longleftrightarrow> ValidateBatchForAppend b = None \<and> whole_batch b \<and> 0 \<le> LastOffsetDelta (header_of b)"

fun stamp_all :: "int \<Rightarrow> bytes list \<Rightarrow> bytes list" where
  "stamp_all x [] = []"
| "stamp_all x (b # bs) = stamp x b # stamp_all (x + LastOffsetDelta (header_of b) + 1) bs"

fun end_offset :: "int \<Rightarrow> bytes list \<Rightarrow> int" where
  "end_offset x [] = x"
| "end_offset x (b # bs) = end_offset (x + LastOffsetDelta (header_of b) + 1) bs"

lemma end_offset_ge: "\<forall>b \<in> set bs. sound_batch b \<Longrightarrow> x \<le> end_offset x bs"
proof (induction bs arbitrary: x)
  case (Cons b bs)
  then have "x + LastOffsetDelta (header_of b) + 1 \<le> end_offset (x + LastOffsetDelta (header_of b) + 1) bs"
    "0 \<le> LastOffsetDelta (header_of b)"
    by (auto simp: sound_batch_def)
  then show ?case by simp
qed simp

lemma set_active_simps [simp]:
  "lg_dir (set_active a l) = lg_dir l" "lg_logStart (set_active a l) = lg_logStart l"
  "lg_segments (set_active a l) = butlast (lg_segments l) @ [a]" "lg_cfg (set_active a l) = lg_cfg l"
  "lg_topic (set_active a l) = lg_topic l" "lg_partition (set_active a l) = lg_partition l"
  "lg_diskGuard (set_active a l) = lg_diskGuard l" "HighWatermark (set_active a l) = sg_nextOffset a"
  by (simp_all add: set_active_def HighWatermark_def)

lemma set_last: "xs \<noteq> [] \<Longrightarrow> set xs = insert (last xs) (set (butlast xs))"
  by (metis append_butlast_last_id list.simps(15) rotate1.simps(2) set_rotate1)

lemma append_step:
  assumes "log_rep l w bss cur" "Segment_Append (last (lg_segments l)) (stamp (HighWatermark l) b) w = (Inr r, a, w')"
    "sound_batch b" "HighWatermark l + LastOffsetDelta (header_of b) < max_i64"
  shows "log_rep (set_active a l) w' bss (cur @ [stamp (HighWatermark l) b])"
    "sg_nextOffset a = HighWatermark l + LastOffsetDelta (header_of b) + 1"
    "touches (seg_path (lg_dir l) (sg_baseOffset a) ` {logSuffix, indexSuffix, timeIndexSuffix}) w w'"
proof -
  let ?a = "last (lg_segments l)" and ?b = "stamp (HighWatermark l) b"
  note rep = assms(1) [unfolded log_rep_def]
  have hw: "HighWatermark l = sg_nextOffset ?a" using rep by (simp add: HighWatermark_def)
  have bnd: "0 \<le> HighWatermark l" "HighWatermark l \<le> max_i64" "0 \<le> sg_baseOffset ?a" "sg_baseOffset ?a \<le> max_i64"
    using seg_rep_bounds [of ?a w cur] rep hw by auto
  have wb: "whole_batch b" "61 \<le> length b" "0 \<le> LastOffsetDelta (header_of b)"
    using assms(3) whole_batchD(2) by (auto simp: sound_batch_def)
  have h: "header_of ?b = (header_of b)\<lparr>BaseOffset := HighWatermark l\<rparr>"
    using header_of_stamp [OF wb(2)] bnd by (simp add: i64_id)
  have A: "seg_rep a w' (cur @ [?b])" "touches (seg_files ?a) w w'"
    "sg_dir a = sg_dir ?a \<and> sg_baseOffset a = sg_baseOffset ?a \<and> sg_sealed a = sg_sealed ?a"
    "sg_nextOffset a = HighWatermark l + LastOffsetDelta (header_of b) + 1"
    using Append_result [of ?a w cur ?b r a w'] rep assms(2,4) hw h wb whole_batch_stamp [OF wb(1)] by auto
  show "sg_nextOffset a = HighWatermark l + LastOffsetDelta (header_of b) + 1" by (rule A(4))
  show T: "touches (seg_path (lg_dir l) (sg_baseOffset a) ` {logSuffix, indexSuffix, timeIndexSuffix}) w w'"
    using A(2,3) rep by simp
  have run: "sealed_run w' (lg_dir l) (lg_logStart l) (butlast (lg_segments l)) bss (sg_baseOffset a)"
    using sealed_run_touches [OF _ T] rep A(3) bnd by simp
  have fut: "file_data w' (seg_path (lg_dir l) y indexSuffix) = []" if "sg_baseOffset a < y" "y \<le> max_i64" for y
    using touches_data [OF T, of "seg_path (lg_dir l) y indexSuffix"] rep that A(3) bnd
      seg_path_eq_iff [of y "sg_baseOffset a"] by auto
  have ex: "map_of (w_dir w') (seg_path (lg_dir l) y logSuffix) \<noteq> None \<longleftrightarrow>
      y \<in> sg_baseOffset ` set (butlast (lg_segments l) @ [a])" if "0 \<le> y" "y \<le> max_i64" for y
  proof (cases "y = sg_baseOffset a")
    case True
    have "map_of (w_dir w) (seg_path (lg_dir l) y logSuffix) \<noteq> None"
      using rep that True A(3) by (metis imageI last_in_set)
    with touches_exists [OF T] True show ?thesis by auto
  next
    case False
    then have "map_of (w_dir w') (seg_path (lg_dir l) y logSuffix) = map_of (w_dir w) (seg_path (lg_dir l) y logSuffix)"
      using touches_map_of [OF T] seg_path_eq_iff [of y "sg_baseOffset a"] that A(3) bnd by auto
    then show ?thesis using rep that False A(3) set_last [of "lg_segments l"] by auto
  qed
  show "log_rep (set_active a l) w' bss (cur @ [?b])"
    using rep run A fut ex by (auto simp: log_rep_def)
qed

lemma Segment_Sync_ok: "seg_rep s w bs \<Longrightarrow> w_plan w = [] \<Longrightarrow> Segment_Sync s w = (None, w)"
  by (auto simp: Segment_Sync_def seg_rep_def seg_open_def Index_Sync_def TimeIndex_Sync_def os_simps)

text \<open>The files of the segments with base offsets in \<open>B\<close>, and all the segment files of a directory.\<close>

definition files_of :: "string \<Rightarrow> int set \<Rightarrow> string set" where
  "files_of d B = {seg_path d b suf | b suf. b \<in> B \<and> suf \<in> {logSuffix, indexSuffix, timeIndexSuffix}}"

abbreviation dir_files :: "string \<Rightarrow> string set" where "dir_files d \<equiv> files_of d UNIV"

lemma touches_dir:
  "touches (seg_path d y ` {logSuffix, indexSuffix, timeIndexSuffix}) w w' \<Longrightarrow> touches (dir_files d) w w'"
  by (erule touches_mono) (auto simp: files_of_def)

lemma roll_step:
  assumes "log_rep l w bss cur" "w_plan w = []"
  obtains l' w' bss' cur' where "rollLocked l w = (None, l', w')" "log_rep l' w' bss' cur'"
    "concat bss' @ cur' = concat bss @ cur" "HighWatermark l' = HighWatermark l" "w_plan w' = []"
    "w_now w' = w_now w" "\<exists>segs. l' = l\<lparr>lg_segments := segs\<rparr>" "touches (dir_files (lg_dir l)) w w'"
proof (cases "cur = []")
  case True
  then have "sg_nextOffset (last (lg_segments l)) = sg_baseOffset (last (lg_segments l))"
    using assms(1) by (auto simp: log_rep_def seg_rep_def)
  then have "rollLocked l w = (None, l, w)" by (simp add: rollLocked_def)
  moreover have "l = l\<lparr>lg_segments := lg_segments l\<rparr>" by simp
  ultimately show ?thesis using that [of l w bss cur] assms by blast
next
  case False
  let ?a = "last (lg_segments l)" and ?x = "sg_nextOffset (last (lg_segments l))"
  note rep = assms(1) [unfolded log_rep_def]
  have bnd: "0 \<le> sg_baseOffset ?a" "sg_baseOffset ?a < ?x" "?x \<le> max_i64" "0 \<le> ?x"
    using seg_rep_bounds [of ?a w cur] seg_rep_nonempty [of ?a w cur] rep False by auto
  define opts where "opts = segment_opts (lg_cfg l) (lg_dir l) ?x"
  have o: "so_Dir opts = lg_dir l" "so_BaseOffset opts = ?x" by (simp_all add: opts_def segment_opts_def)
  have "x \<noteq> ?x" if "x \<in> sg_baseOffset ` set (lg_segments l)" for x
    using that sealed_run_member bnd rep set_last [of "lg_segments l"] by fastforce
  then have none: "map_of (w_dir w) (seg_path (lg_dir l) ?x logSuffix) = None" using rep bnd by blast
  then have new: "file_data w (seg_path (so_Dir opts) (so_BaseOffset opts) logSuffix) = []"
    by (simp add: o file_data_def file_of_def)
  have newi: "file_data w (seg_path (so_Dir opts) (so_BaseOffset opts) indexSuffix) = []"
    using rep bnd o by simp
  obtain s w' where S: "OpenSegment opts w = (Inr s, w')" "seg_rep s w' []" "touches (seg_files s) w w'"
    "sg_dir s = lg_dir l" "sg_baseOffset s = ?x" "sg_nextOffset s = ?x" "\<not> sg_sealed s"
    "map_of (w_dir w') (LogPath s) \<noteq> None" "file_data w' (seg_path (lg_dir l) ?x indexSuffix) = []"
    by (rule OpenSegment_rep [OF assms(2) refl _ _ _ _ _, of opts "[]" ?x]) (use new newi o bnd in auto)
  define old where "old = ?a\<lparr>sg_sealed := True\<rparr>"
  define l' where "l' = l\<lparr>lg_segments := butlast (lg_segments l) @ [old, s]\<rparr>"
  have roll: "rollLocked l w = (None, l', w')"
    using S(1) bnd Segment_Sync_ok [of ?a w cur] rep assms(2)
    by (simp add: rollLocked_def Segment_Seal_def Let_def old_def l'_def set_active_def opts_def)
  have T: "touches (seg_path (lg_dir l) ?x ` {logSuffix, indexSuffix, timeIndexSuffix}) w w'" using S by simp
  have run1: "sealed_run w' (lg_dir l) (lg_logStart l) (butlast (lg_segments l)) bss (sg_baseOffset ?a)"
    using sealed_run_touches [OF _ T] rep bnd by simp
  have "file_data w' (LogPath ?a) = file_data w (LogPath ?a)"
    using touches_data [OF T, of "LogPath ?a"] rep bnd seg_path_eq_iff [of "sg_baseOffset ?a" ?x]
    by (auto simp: LogPath_def)
  then have "seg_rep ?a w' cur" using rep seg_rep_cong by blast
  then have old: "seg_rep old w' cur" by (simp add: old_def seg_rep_def seg_open_def LogPath_def)
  have run: "sealed_run w' (lg_dir l) (lg_logStart l) (butlast (lg_segments l) @ [old]) (bss @ [cur]) ?x"
    using run1 old rep False by (simp add: sealed_run_snoc old_def)
  have fut: "file_data w' (seg_path (lg_dir l) y indexSuffix) = []" if "?x < y" "y \<le> max_i64" for y
    using touches_data [OF T, of "seg_path (lg_dir l) y indexSuffix"] rep that bnd seg_path_eq_iff [of y ?x] by auto
  have ex: "map_of (w_dir w') (seg_path (lg_dir l) y logSuffix) \<noteq> None \<longleftrightarrow>
      y \<in> sg_baseOffset ` set (lg_segments l')" if "0 \<le> y" "y \<le> max_i64" for y
  proof (cases "y = ?x")
    case True
    then show ?thesis using S(4,5,8) by (auto simp: LogPath_def l'_def)
  next
    case False
    then have "map_of (w_dir w') (seg_path (lg_dir l) y logSuffix) = map_of (w_dir w) (seg_path (lg_dir l) y logSuffix)"
      using touches_map_of [OF T] seg_path_eq_iff [of y ?x] that bnd by auto
    then show ?thesis
      using rep that False S(5) set_last [of "lg_segments l"] by (auto simp: l'_def old_def)
  qed
  have "log_rep l' w' (bss @ [cur]) []"
    using run S fut ex rep bnd by (simp add: log_rep_def l'_def butlast_append)
  moreover have "HighWatermark l' = HighWatermark l"
    using S(6) rep by (simp add: HighWatermark_def l'_def)
  ultimately show ?thesis
    using roll touches_plan [OF T assms(2)] touches_now [OF T] touches_dir [OF T]
    by (intro that [of l' w' "bss @ [cur]" "[]"]) (auto simp: l'_def)
qed

section \<open>Append refines list append\<close>

lemma sound_batchD:
  assumes "sound_batch b"
  shows "whole_batch b" "61 \<le> length b" "ValidateCRC b = None" "good_attributes (Attributes (header_of b))"
    "0 \<le> LastOffsetDelta (header_of b)" "ValidateBatchForAppend b = None"
  using assms whole_batchD [of b] by (auto simp: sound_batch_def validate_append_iff)

lemma stamp_good: "sound_batch b \<Longrightarrow> good_batch (stamp x b) \<and> good_attributes (Attributes (header_of (stamp x b)))"
  using sound_batchD [of b] whole_batch_stamp [of b x] header_of_stamp [of b x] by (simp add: good_batch_def)

lemma append_loop_refines:
  assumes "log_rep l w bss cur" "w_plan w = []" "\<forall>b \<in> set bs. sound_batch b" "end_offset (HighWatermark l) bs \<le> max_i64"
  shows "\<exists>l' w' bss' cur'. append_loop i l bs w = (None, l', w') \<and> log_rep l' w' bss' cur' \<and>
    concat bss' @ cur' = concat bss @ cur @ stamp_all (HighWatermark l) bs \<and>
    HighWatermark l' = end_offset (HighWatermark l) bs \<and> w_plan w' = [] \<and> (\<exists>segs. l' = l\<lparr>lg_segments := segs\<rparr>) \<and>
    touches (dir_files (lg_dir l)) w w'"
  using assms
proof (induction bs arbitrary: i l w bss cur)
  case Nil
  then show ?case by (intro exI [of _ l] exI [of _ w] exI [of _ bss] exI [of _ cur]) (auto intro: exI [of _ "lg_segments l"])
next
  case (Cons b bs)
  let ?hw = "HighWatermark l" and ?a = "last (lg_segments l)" and ?b = "stamp (HighWatermark l) b"
  let ?nx = "?hw + LastOffsetDelta (header_of b) + 1"
  have sb: "sound_batch b" and rest: "\<forall>b \<in> set bs. sound_batch b" using Cons.prems by auto
  have lt: "?hw + LastOffsetDelta (header_of b) < max_i64"
    using end_offset_ge [OF rest, of ?nx] Cons.prems(4) by simp
  have hw: "?hw = sg_nextOffset ?a" "seg_rep ?a w cur" "\<not> sg_sealed ?a"
    using Cons.prems(1) by (auto simp: log_rep_def HighWatermark_def)
  obtain r a w1 where ap: "Segment_Append ?a ?b w = (Inr r, a, w1)"
    using Append_accepts [OF hw(2) Cons.prems(2) hw(3)] stamp_good [OF sb] by blast
  note st = append_step [OF Cons.prems(1) ap sb lt]
  have p1: "w_plan w1 = []" using touches_plan [OF st(3) Cons.prems(2)] .
  define l1 where "l1 = set_active a l"
  have l1: "HighWatermark l1 = ?nx" "\<exists>segs. l1 = l\<lparr>lg_segments := segs\<rparr>"
    using st(2) by (auto simp: l1_def set_active_def HighWatermark_def)
  obtain l2 w2 bss2 cur2 where mid: "append_loop i l (b # bs) w = append_loop (i + 1) l2 bs w2"
    "log_rep l2 w2 bss2 cur2" "concat bss2 @ cur2 = concat bss @ cur @ [?b]" "HighWatermark l2 = ?nx"
    "w_plan w2 = []" "\<exists>segs. l2 = l\<lparr>lg_segments := segs\<rparr>" "touches (dir_files (lg_dir l)) w w2"
  proof (cases "bs \<noteq> [] \<and> ShouldRoll a w1")
    case True
    obtain l2 w2 bss2 cur2 where ro: "rollLocked l1 w1 = (None, l2, w2)" "log_rep l2 w2 bss2 cur2"
      "concat bss2 @ cur2 = concat bss @ (cur @ [?b])" "HighWatermark l2 = HighWatermark l1" "w_plan w2 = []"
      "\<exists>segs. l2 = l1\<lparr>lg_segments := segs\<rparr>" "touches (dir_files (lg_dir l1)) w1 w2"
      by (rule roll_step [OF st(1) p1]) (simp add: l1_def)
    have dir: "lg_dir l1 = lg_dir l" by (simp add: l1_def set_active_def)
    have "append_loop i l (b # bs) w = append_loop (i + 1) l2 bs w2"
      using ap True ro(1) hw(1) by (simp add: Let_def l1_def)
    moreover have "touches (dir_files (lg_dir l)) w w2" using touches_trans [OF touches_dir [OF st(3)]] ro(7) dir by simp
    ultimately show ?thesis using that ro l1 by force
  next
    case False
    then have "append_loop i l (b # bs) w = append_loop (i + 1) l1 bs w1"
      using ap hw(1) by (auto simp: Let_def l1_def)
    then show ?thesis using that [of l1 w1 bss "cur @ [?b]"] st(1) l1 p1 touches_dir [OF st(3)] by (simp add: l1_def)
  qed
  obtain l' w' bss' cur' where "append_loop (i + 1) l2 bs w2 = (None, l', w')" "log_rep l' w' bss' cur'"
    "concat bss' @ cur' = concat bss2 @ cur2 @ stamp_all ?nx bs" "HighWatermark l' = end_offset ?nx bs"
    "w_plan w' = []" "\<exists>segs. l' = l2\<lparr>lg_segments := segs\<rparr>" "touches (dir_files (lg_dir l2)) w2 w'"
    using Cons.IH [OF mid(2,5) rest, of "i + 1"] Cons.prems(4) unfolding mid(4) end_offset.simps by blast
  moreover have "concat bss2 @ cur2 @ stamp_all ?nx bs = concat bss @ cur @ stamp_all ?hw (b # bs)"
    using mid(3) by (metis append.assoc append_Cons append_Nil stamp_all.simps(2))
  moreover have "lg_dir l2 = lg_dir l" using mid(6) by auto
  ultimately show ?case
    using mid(1,6) touches_trans [OF mid(7)] by (intro exI [of _ l'] exI [of _ w'] exI [of _ bss'] exI [of _ cur']) auto
qed

lemma validate_all_sound: "\<forall>b \<in> set bs. sound_batch b \<Longrightarrow> validate_all i bs = None"
  by (induction bs arbitrary: i) (auto simp: sound_batch_def)

lemma Log_Append_frame:
  assumes "log_rep l w bss cur" "w_plan w = []" "batches \<noteq> []" "\<forall>b \<in> set batches. sound_batch b"
    "\<not> (lg_diskGuard l \<and> w_paused w)" "end_offset (HighWatermark l) batches \<le> max_i64"
  shows "\<exists>l' w' bss' cur'. Log_Append l batches w = (Inr (HighWatermark l), l', w') \<and> log_rep l' w' bss' cur' \<and>
    concat bss' @ cur' = (concat bss @ cur) @ stamp_all (HighWatermark l) batches \<and>
    HighWatermark l' = end_offset (HighWatermark l) batches \<and> lg_logStart l' = lg_logStart l \<and>
    w_plan w' = [] \<and> (\<exists>segs. l' = l\<lparr>lg_segments := segs\<rparr>) \<and> touches (dir_files (lg_dir l)) w w'"
proof -
  have ne: "lg_segments l \<noteq> []" using assms(1) by (simp add: log_rep_def)
  let ?a = "last (lg_segments l)"
  obtain l1 w1 bss1 cur1 where r1: "(if ShouldRoll ?a w then rollLocked l w else (None, l, w)) = (None, l1, w1)"
    "log_rep l1 w1 bss1 cur1" "concat bss1 @ cur1 = concat bss @ cur" "HighWatermark l1 = HighWatermark l"
    "w_plan w1 = []" "\<exists>segs. l1 = l\<lparr>lg_segments := segs\<rparr>" "touches (dir_files (lg_dir l)) w w1"
  proof (cases "ShouldRoll ?a w")
    case True
    obtain l1 w1 bss1 cur1 where "rollLocked l w = (None, l1, w1)"
      "log_rep l1 w1 bss1 cur1" "concat bss1 @ cur1 = concat bss @ cur" "HighWatermark l1 = HighWatermark l"
      "w_plan w1 = []" "\<exists>segs. l1 = l\<lparr>lg_segments := segs\<rparr>" "touches (dir_files (lg_dir l)) w w1"
      by (rule roll_step [OF assms(1,2)])
    then show ?thesis using that [of l1 w1 bss1 cur1] True by simp
  next
    case False
    moreover have "l = l\<lparr>lg_segments := lg_segments l\<rparr>" by simp
    ultimately show ?thesis using that [of l w bss cur] assms(1,2) by (simp, blast)
  qed
  have ne1: "lg_segments l1 \<noteq> []" using r1(2) by (simp add: log_rep_def)
  then have start: "sg_nextOffset (last (lg_segments l1)) = HighWatermark l"
    using r1(4) by (simp add: HighWatermark_def)
  obtain l2 w2 bss2 cur2 where r2: "append_loop 0 l1 batches w1 = (None, l2, w2)" "log_rep l2 w2 bss2 cur2"
    "concat bss2 @ cur2 = concat bss1 @ cur1 @ stamp_all (HighWatermark l) batches"
    "HighWatermark l2 = end_offset (HighWatermark l) batches" "w_plan w2 = []" "\<exists>segs. l2 = l1\<lparr>lg_segments := segs\<rparr>"
    "touches (dir_files (lg_dir l1)) w1 w2"
    using append_loop_refines [OF r1(2,5) assms(4), of 0] assms(6) unfolding r1(4) by blast
  have "Segment_Sync (last (lg_segments l2)) w2 = (None, w2)"
    using r2(2,5) by (intro Segment_Sync_ok) (auto simp: log_rep_def)
  then have "Log_Append l batches w = (Inr (HighWatermark l), l2, w2)"
    using assms(3,5) ne r1(1) start validate_all_sound [OF assms(4)] r2(1)
    by (auto simp: Log_Append_def activeSegment_def Let_def)
  moreover have "concat bss2 @ cur2 = (concat bss @ cur) @ stamp_all (HighWatermark l) batches"
    using r2(3) r1(3) by (metis append.assoc)
  moreover have "lg_dir l1 = lg_dir l" using r1(6) by auto
  ultimately show ?thesis
    using r2 r1(6) touches_trans [OF r1(7)] by (intro exI [of _ l2] exI [of _ w2] exI [of _ bss2] exI [of _ cur2]) auto
qed

lemma Log_Append_refines:
  assumes "log_rep l w bss cur" "w_plan w = []" "batches \<noteq> []" "\<forall>b \<in> set batches. sound_batch b"
    "\<not> (lg_diskGuard l \<and> w_paused w)" "end_offset (HighWatermark l) batches \<le> max_i64"
  shows "\<exists>l' w' bss' cur'. Log_Append l batches w = (Inr (HighWatermark l), l', w') \<and> log_rep l' w' bss' cur' \<and>
    concat bss' @ cur' = (concat bss @ cur) @ stamp_all (HighWatermark l) batches \<and>
    HighWatermark l' = end_offset (HighWatermark l) batches \<and> lg_logStart l' = lg_logStart l \<and>
    w_plan w' = [] \<and> (\<exists>segs. l' = l\<lparr>lg_segments := segs\<rparr>)"
  using Log_Append_frame [OF assms] by blast

lemma validate_all_error:
  assumes "validate_all i bs = Some e"
  shows "\<exists>k b e'. e = LogBatch (i + k) e' \<and> k < length bs \<and> ValidateBatchForAppend (bs ! k) = Some e'"
  using assms
proof (induction bs arbitrary: i)
  case (Cons b bs)
  show ?case
  proof (cases "ValidateBatchForAppend b")
    case None
    with Cons obtain k e' where "e = LogBatch (i + 1 + k) e'" "k < length bs" "ValidateBatchForAppend (bs ! k) = Some e'"
      by fastforce
    then show ?thesis by (intro exI [of _ "k + 1"]) auto
  next
    case (Some e')
    with Cons.prems show ?thesis by (intro exI [of _ 0]) auto
  qed
qed simp

section \<open>What a fetch returns\<close>

lemma trim_loop_frames:
  "trim_loop (pre @ rest) (length pre) = length pre + length (concat (fst (frames batch_size rest)))"
proof (induction rest arbitrary: pre rule: length_induct)
  case (1 rest)
  have sl: "gslice (length pre) (length pre + 61) (pre @ rest) = take 61 rest"
    by (simp add: gslice_def)
  show ?case
  proof (cases "\<exists>n. batch_size rest = Some n \<and> n \<le> length rest")
    case True
    then obtain n where n: "batch_size rest = Some n" "n \<le> length rest" by blast
    have len: "61 \<le> length rest" "0 < n" using bf.sz_SomeD [OF n(1)] bf.sz_pos [OF n(1)] by auto
    then have ne: "rest \<noteq> []" by auto
    obtain h where h: "ParseBatchHeader (take 61 rest) = (h, None)" "n = nat (TotalSize h)"
      using n(1) ParseBatchHeader_take [of 61 rest] len by (auto simp: batch_size_Some)
    have "trim_loop (pre @ rest) (length pre) = trim_loop ((pre @ take n rest) @ drop n rest) (length (pre @ take n rest))"
      using h n len ne by (subst trim_loop.simps) (simp add: sl Let_def)
    also have "\<dots> = length (pre @ take n rest) + length (concat (fst (frames batch_size (drop n rest))))"
      using 1 len n by (intro "1.IH" [rule_format]) simp
    finally show ?thesis
      using n len by (subst frames.simps) (simp split: prod.splits)
  next
    case False
    have "trim_loop (pre @ rest) (length pre) = length pre"
    proof (cases "length rest < 61")
      case True
      then show ?thesis by (subst trim_loop.simps) simp
    next
      case len: False
      then have "ParseBatchHeader (take 61 rest) = ParseBatchHeader rest"
        by (intro ParseBatchHeader_take) simp_all
      then show ?thesis
        using False len
        by (subst trim_loop.simps) (auto simp: sl batch_size_def Let_def split: prod.splits option.splits)
    qed
    moreover have "fst (frames batch_size rest) = []"
      using False by (subst frames.simps) (auto split: option.splits)
    ultimately show ?thesis by simp
  qed
qed

lemma trim_frames: "trimToBatchBoundary buf = concat (fst (frames batch_size buf))"
proof -
  have "trim_loop buf 0 = length (concat (fst (frames batch_size buf)))"
    using trim_loop_frames [of "[]" buf] by simp
  then show ?thesis
    using bf.frames_cat [of buf] by (metis append_eq_conv_conj trimToBatchBoundary_def)
qed

lemma sealed_run_nth:
  assumes "sealed_run w d x ss bss e" "k < length ss"
  shows "seg_rep (ss ! k) w (bss ! k) \<and> sg_baseOffset (ss ! k) < sg_nextOffset (ss ! k) \<and>
    sg_nextOffset (ss ! k) = (if k + 1 < length ss then sg_baseOffset (ss ! (k + 1)) else e) \<and>
    sg_baseOffset (ss ! 0) = x"
  using assms
proof (induction w d x ss bss e arbitrary: k rule: sealed_run.induct)
  case (2 w d x s ss bs bss e)
  have r: "seg_rep s w bs" "bs \<noteq> []" "sealed_run w d (sg_nextOffset s) ss bss e" "sg_baseOffset s = x"
    using 2(2) by auto
  show ?case
  proof (cases k)
    case 0
    have "sg_nextOffset s = (if ss = [] then e else sg_baseOffset (ss ! 0))"
      using r(3) 2(1) [OF r(3), of 0] sealed_run_lengths [OF r(3)] by (cases ss) auto
    then show ?thesis using r 0 seg_rep_nonempty by auto
  next
    case (Suc k')
    then show ?thesis using 2(1) [OF r(3), of k'] 2(3) r(4) by auto
  qed
qed auto

lemma log_rep_nth:
  assumes "log_rep l w bss cur" "k < length (lg_segments l)"
  shows "seg_rep (lg_segments l ! k) w ((bss @ [cur]) ! k)"
    "length (lg_segments l) = length (bss @ [cur])" "sg_baseOffset (lg_segments l ! 0) = lg_logStart l"
    "k + 1 < length (lg_segments l) \<Longrightarrow> sg_nextOffset (lg_segments l ! k) = sg_baseOffset (lg_segments l ! (k + 1)) \<and>
       sg_baseOffset (lg_segments l ! k) < sg_nextOffset (lg_segments l ! k)"
proof -
  note rep = assms(1) [unfolded log_rep_def]
  define ss a where "ss = butlast (lg_segments l)" and "a = last (lg_segments l)"
  have segs: "lg_segments l = ss @ [a]" using rep by (simp add: ss_def a_def)
  have run: "sealed_run w (lg_dir l) (lg_logStart l) ss bss (sg_baseOffset a)" and a: "seg_rep a w cur"
    using rep by (auto simp: ss_def a_def)
  have len: "length ss = length bss" using sealed_run_lengths [OF run] .
  show "length (lg_segments l) = length (bss @ [cur])" using segs len by simp
  show "seg_rep (lg_segments l ! k) w ((bss @ [cur]) ! k)"
    using sealed_run_nth [OF run, of k] a assms(2) len by (auto simp: segs nth_append less_Suc_eq)
  show "sg_baseOffset (lg_segments l ! 0) = lg_logStart l"
    using sealed_run_nth [OF run, of 0] run len by (cases ss) (auto simp: segs)
  show "k + 1 < length (lg_segments l) \<Longrightarrow> sg_nextOffset (lg_segments l ! k) = sg_baseOffset (lg_segments l ! (k + 1)) \<and>
       sg_baseOffset (lg_segments l ! k) < sg_nextOffset (lg_segments l ! k)"
    using sealed_run_nth [OF run, of k] by (auto simp: segs nth_append)
qed

lemma log_rep_bases_mono:
  assumes "log_rep l w bss cur" "i \<le> j" "j < length (lg_segments l)"
  shows "sg_baseOffset (lg_segments l ! i) \<le> sg_baseOffset (lg_segments l ! j)"
  using assms(2,3)
proof (induction j)
  case (Suc j)
  then show ?case
    using log_rep_nth(4) [OF assms(1), of j] by (cases "i = Suc j") auto
qed simp

lemma findSegmentLocked_finds:
  assumes "log_rep l w bss cur" "lg_logStart l \<le> x" "x < HighWatermark l"
  obtains k where "k < length (lg_segments l)" "findSegmentLocked l x = Some (lg_segments l ! k)"
    "sg_baseOffset (lg_segments l ! k) \<le> x" "x < sg_nextOffset (lg_segments l ! k)"
proof -
  let ?segs = "lg_segments l"
  let ?f = "\<lambda>k. sg_baseOffset (?segs ! k) > x"
  define r where "r = sort_search (length ?segs) ?f"
  have ne: "?segs \<noteq> []" using assms(1) by (simp add: log_rep_def)
  have b0: "sg_baseOffset (?segs ! 0) = lg_logStart l" using log_rep_nth(3) [OF assms(1), of 0] ne by simp
  have edge: "?f k \<longleftrightarrow> r \<le> k" if "k < length ?segs" for k
    unfolding r_def using log_rep_bases_mono [OF assms(1)] that by (intro sort_search_mono) force+
  have r: "r \<le> length ?segs" "0 < r"
    using sort_search_edge(1) edge [of 0] b0 assms(2) ne by (auto simp: r_def)
  let ?k = "r - 1"
  have k: "?k < length ?segs" using r by simp
  have lo: "sg_baseOffset (?segs ! ?k) \<le> x" using edge [OF k] r by auto
  have hi: "x < sg_nextOffset (?segs ! ?k)"
  proof (cases "r < length ?segs")
    case True
    then show ?thesis using edge [OF True] log_rep_nth(4) [OF assms(1) k] r by auto
  next
    case False
    then have "?segs ! ?k = last ?segs" using r ne by (simp add: last_conv_nth)
    then show ?thesis using assms(3) ne by (simp add: HighWatermark_def)
  qed
  have "findSegmentLocked l x = Some (?segs ! ?k)"
    using ne r assms(2,3) b0 by (simp add: findSegmentLocked_def Let_def r_def [symmetric] hd_conv_nth HighWatermark_def)
  from k this lo hi show ?thesis by (rule that)
qed

lemma ReadAt_rep:
  assumes "seg_rep s w (pre @ rest)" "w_plan w = []" "0 \<le> m"
  shows "Segment_ReadAt s (length (concat pre)) m w = (Inr (take (nat m) (concat rest)), w)"
proof (cases "concat rest = []")
  case True
  then show ?thesis using assms(1) by (simp add: Segment_ReadAt_def seg_rep_def)
next
  case False
  have d: "file_data w (LogPath s) = concat pre @ concat rest" "sg_logSize s = length (concat pre) + length (concat rest)"
    "sg_logFile s \<noteq> None"
    using assms(1) by (auto simp: seg_rep_def)
  let ?n = "length (concat rest)"
  have "nat (if m > int ?n then int ?n else m) = min (nat m) ?n" using assms(3) by auto
  then show ?thesis
    using False d assms(2,3) by (auto simp: Segment_ReadAt_def Let_def os_simps)
qed

lemma concat_nth_split:
  assumes "k < length xss" "xss ! k = pre @ mid"
  obtains before after where "concat xss = before @ mid @ after"
proof -
  have "concat xss = concat (take k xss) @ xss ! k @ concat (drop (Suc k) xss)"
    using assms(1) by (subst id_take_nth_drop [OF assms(1)]) simp
  then show ?thesis using assms(2) that [of "concat (take k xss) @ pre" "concat (drop (Suc k) xss)"] by simp
qed

lemma parse_run: "good_batch b \<Longrightarrow> fst (ParseBatchHeader (b @ r)) = header_of b"
  using good_batchD(1,2) [of b] ParseBatchHeader_append [of b r] by simp

lemma FetchAt_run:
  assumes "log_rep l w bss cur" "w_plan w = []" "lg_logStart l \<le> x" "x < HighWatermark l" "61 \<le> m"
  obtains before b run after where "concat bss @ cur = before @ (b # run) @ after"
    "FetchAt l x m w = (Inr (concat (b # run), BaseOffset (header_of b)), w)"
    "BaseOffset (header_of b) \<le> x" "x \<le> BaseOffset (header_of b) + LastOffsetDelta (header_of b)"
    "int (length (concat (b # run))) \<le> m \<or> run = []"
proof -
  obtain k where k: "k < length (lg_segments l)" "findSegmentLocked l x = Some (lg_segments l ! k)"
    "sg_baseOffset (lg_segments l ! k) \<le> x" "x < sg_nextOffset (lg_segments l ! k)"
    using findSegmentLocked_finds [OF assms(1,3,4)] by metis
  define s where "s = lg_segments l ! k"
  have rep: "seg_rep s w ((bss @ [cur]) ! k)" and len: "k < length (bss @ [cur])"
    using log_rep_nth(1,2) [OF assms(1) k(1)] k(1) by (auto simp: s_def)
  obtain pre b post where P: "(bss @ [cur]) ! k = pre @ b # post" "FindBatchAt s x w = (Inr (length (concat pre)), w)"
    "BaseOffset (header_of b) \<le> x" "x \<le> BaseOffset (header_of b) + LastOffsetDelta (header_of b)"
    using FindBatchAt_finds [OF rep assms(2)] k(3,4) by (metis s_def)
  have good: "\<forall>c \<in> set (b # post). good_batch c" and gb: "good_batch b"
    using rep P(1) by (auto simp: seg_rep_def)
  note bD = good_batchD [OF gb]
  have rd: "Segment_ReadAt s (length (concat pre)) j w = (Inr (take (nat j) (concat (b # post))), w)" if "0 \<le> j" for j
    using ReadAt_rep [of s w pre "b # post" j] rep P(1) assms(2) that by simp
  define buf where "buf = take (nat m) (concat (b # post))"
  have buf: "buf \<noteq> []" using assms(5) bD(2) by (auto simp: buf_def)
  have rdm: "Segment_ReadAt s (length (concat pre)) m w = (Inr buf, w)"
    using rd [of m] assms(5) by (simp only: buf_def)
  have ne: "lg_segments l \<noteq> []" using k(1) by auto
  obtain j where j: "fst (frames batch_size buf) = take j (b # post)" "length (concat (take j (b # post))) \<le> nat m"
    "j < length (b # post) \<longrightarrow> nat m < length (concat (take (Suc j) (b # post)))"
    using bf.frames_take [of "b # post" "nat m"] good good_batchD(5) unfolding buf_def by blast
  have trim: "trimToBatchBoundary buf = concat (take j (b # post))" by (simp only: trim_frames j(1))
  show ?thesis
  proof (cases j)
    case 0
    then have mb: "nat m < length b" using j(3) by simp
    then have "buf = take (nat m) b" by (simp add: buf_def)
    then have pb: "ParseBatchHeader buf = (header_of b, None)"
      using ParseBatchHeader_take [of "nat m" b] bD(1,2) assms(5) by simp
    have need: "TotalSize (header_of b) = int (length b)" using bD(2,3) by auto
    then have rdb: "Segment_ReadAt s (length (concat pre)) (TotalSize (header_of b)) w = (Inr b, w)"
      using rd [of "int (length b)"] by simp
    have "FetchAt l x m w = (Inr (b, BaseOffset (header_of b)), w)"
      using ne k(2) P(2) rdm buf trim 0 bD(1) pb rdb need
      by (simp add: FetchAt_def s_def [symmetric] Let_def)
    then have F: "FetchAt l x m w = (Inr (concat (b # []), BaseOffset (header_of b)), w)" by simp
    obtain before after where "concat (bss @ [cur]) = before @ (b # []) @ after"
      using concat_nth_split [OF len, of pre "b # post"] P(1) by (metis append.assoc append_Cons append_Nil)
    then show ?thesis using that [of before b "[]" after] F P(3,4) by simp
  next
    case (Suc j')
    let ?run = "take j' post"
    have "FetchAt l x m w = (Inr (concat (b # ?run), BaseOffset (header_of b)), w)"
      using ne k(2) P(2) rdm buf trim Suc bD(2) parse_run [OF gb, of "concat ?run"]
      by (auto simp: FetchAt_def s_def [symmetric] Let_def)
    moreover have "int (length (concat (b # ?run))) \<le> m" using j(2) Suc assms(5) by simp
    moreover obtain before after where "concat (bss @ [cur]) = before @ (b # ?run) @ after"
    proof -
      have "(bss @ [cur]) ! k = pre @ ((b # ?run) @ drop j' post)" using P(1) by simp
      then show ?thesis using concat_nth_split [OF len] that by (metis append.assoc)
    qed
    ultimately show ?thesis using that [of before b ?run after] P(3,4) by simp
  qed
qed

section \<open>Reopening\<close>

lemma parse_dec_inj:
  assumes "length s = length t" "\<forall>c \<in> set s. is_digit c" "\<forall>c \<in> set t. is_digit c" "parse_dec s = parse_dec t"
  shows "s = t"
  using assms
proof (induction s arbitrary: t rule: rev_induct)
  case (snoc c s)
  then obtain t' d where t: "t = t' @ [d]" by (cases t rule: rev_cases) auto
  have dig: "is_digit c" "is_digit d" using snoc.prems t by auto
  let ?v = "\<lambda>c. of_char c - 48 :: nat"
  have v: "?v c < 10" "?v d < 10" using dig by (auto simp: is_digit_def)
  have eq: "parse_dec s * 10 + ?v c = parse_dec t' * 10 + ?v d"
    using snoc.prems(4) t by (simp add: parse_dec_snoc)
  with v have "parse_dec s = parse_dec t'" by linarith
  moreover from this eq have "?v c = ?v d" by linarith
  moreover have "(of_char c :: nat) = of_char d" using \<open>?v c = ?v d\<close> dig unfolding is_digit_def by linarith
  then have "c = d" by simp
  ultimately show ?case using snoc t by auto
qed simp

lemma segment_base_iff:
  "segment_base n = Some x \<longleftrightarrow> 0 \<le> x \<and> x \<le> max_i64 \<and> n = segmentFilename x logSuffix"
proof
  assume a: "segment_base n = Some x"
  then have n: "length n = 24" "\<forall>c \<in> set (take 20 n). is_digit c" "drop 20 n = logSuffix"
    "x = int (parse_dec (take 20 n))" "0 \<le> x" "x \<le> max_i64"
    by (auto simp: segment_base_def Let_def split: if_splits)
  have "take 20 n = pad20 x"
    using pad20_nonneg [OF n(5,6)] n by (intro parse_dec_inj) auto
  then show "0 \<le> x \<and> x \<le> max_i64 \<and> n = segmentFilename x logSuffix"
    using n append_take_drop_id [of 20 n] by (metis segmentFilename_def)
next
  assume "0 \<le> x \<and> x \<le> max_i64 \<and> n = segmentFilename x logSuffix"
  then show "segment_base n = Some x"
    using pad20_nonneg [of x] by (auto simp: segment_base_def segmentFilename_def Let_def)
qed

lemma no_slash_segment: "0 \<le> x \<Longrightarrow> x \<le> max_i64 \<Longrightarrow> CHR ''/'' \<notin> set (segmentFilename x logSuffix)"
  using pad20_nonneg(2) [of x] by (auto simp: segmentFilename_def is_digit_def)

lemma dir_names_iff:
  "n \<in> set (dir_names dir w) \<longleftrightarrow> map_of (w_dir w) (path_join dir n) \<noteq> None \<and> CHR ''/'' \<notin> set n"
proof -
  have eq: "take (length dir + 1) p = dir @ [CHR ''/''] \<and> drop (length dir + 1) p = n \<longleftrightarrow> p = path_join dir n" for p
    by (auto simp: path_join_def) (metis append.assoc append_Cons append_Nil append_take_drop_id)
  have "n \<in> set (dir_names dir w) \<longleftrightarrow>
      (\<exists>p \<in> fst ` set (w_dir w). (take (length dir + 1) p = dir @ [CHR ''/''] \<and> drop (length dir + 1) p = n) \<and>
        CHR ''/'' \<notin> set n)"
    unfolding dir_names_def by force
  also have "\<dots> \<longleftrightarrow> path_join dir n \<in> fst ` set (w_dir w) \<and> CHR ''/'' \<notin> set n"
    by (simp only: eq) auto
  finally show ?thesis by (simp add: map_of_eq_None_iff)
qed

lemma files_of_mono: "A \<subseteq> B \<Longrightarrow> files_of d A \<subseteq> files_of d B"
  by (auto simp: files_of_def)

lemma not_in_files_of:
  "0 \<le> y \<Longrightarrow> y \<le> max_i64 \<Longrightarrow> y \<notin> B \<Longrightarrow> \<forall>b \<in> B. 0 \<le> b \<and> b \<le> max_i64 \<Longrightarrow> seg_path d y suf \<notin> files_of d B"
  by (auto simp: files_of_def seg_path_eq_iff)

lemma reopen_segment:
  assumes "seg_rep s w bs" "w_plan w = []" "sg_dir s = d"
    "bs = [] \<longrightarrow> file_data w (seg_path d (sg_baseOffset s) indexSuffix) = []"
  obtains s' w' where "OpenSegment (segment_opts cfg d (sg_baseOffset s)) w = (Inr s', w')" "seg_rep s' w' bs"
    "sg_baseOffset s' = sg_baseOffset s" "sg_nextOffset s' = sg_nextOffset s" "sg_dir s' = d" "\<not> sg_sealed s'"
    "touches (files_of d {sg_baseOffset s}) w w'"
    "bs = [] \<longrightarrow> file_data w' (seg_path d (sg_baseOffset s) indexSuffix) = []"
proof -
  let ?o = "segment_opts cfg d (sg_baseOffset s)"
  have o: "so_Dir ?o = d" "so_BaseOffset ?o = sg_baseOffset s" by (simp_all add: segment_opts_def)
  have dat: "file_data w (seg_path d (sg_baseOffset s) logSuffix) = concat bs"
    and good: "\<forall>b \<in> set bs. good_batch b" and ch: "chain (sg_baseOffset s) bs (sg_nextOffset s)"
    and bnd: "0 \<le> sg_baseOffset s" "sg_nextOffset s \<le> max_i64"
    using assms(1,3) by (auto simp: seg_rep_def LogPath_def)
  have ne: "concat bs = [] \<longleftrightarrow> bs = []" using good good_batchD(2) by (cases bs) fastforce+
  have vp: "valid_prefix (concat bs) = bs" using valid_prefix_concat [OF good, of "[]"] by simp
  obtain s' w' where S: "OpenSegment ?o w = (Inr s', w')" "seg_rep s' w' bs" "touches (seg_files s') w w'"
    "sg_dir s' = d" "sg_baseOffset s' = sg_baseOffset s" "sg_nextOffset s' = sg_nextOffset s" "\<not> sg_sealed s'"
    "concat bs = [] \<Longrightarrow> file_data w' (seg_path d (sg_baseOffset s) indexSuffix) = []"
    by (rule OpenSegment_rep [OF assms(2), of "concat bs" ?o bs "sg_nextOffset s"])
      (use dat ch bnd assms(4) ne o vp in auto)
  moreover have "seg_files s' \<subseteq> files_of d {sg_baseOffset s}" using S(4,5) by (auto simp: files_of_def)
  ultimately show ?thesis using ne touches_mono by (intro that [of s' w']) auto
qed

lemma reopen_run:
  assumes "sealed_run w d x ss bss e" "seg_rep a w cur" "sg_baseOffset a = e" "sg_dir a = d" "w_plan w = []"
    "cur = [] \<longrightarrow> file_data w (seg_path d e indexSuffix) = []"
  shows "\<exists>ss' a' w'. open_segments cfg d (map sg_baseOffset (ss @ [a])) w = (Inr (ss' @ [a']), w') \<and>
    sealed_run w' d x ss' bss e \<and> seg_rep a' w' cur \<and> sg_baseOffset a' = e \<and> sg_nextOffset a' = sg_nextOffset a \<and>
    \<not> sg_sealed a' \<and> sg_dir a' = d \<and> touches (files_of d (sg_baseOffset ` set (ss @ [a]))) w w' \<and>
    map sg_baseOffset ss' = map sg_baseOffset ss \<and> (cur = [] \<longrightarrow> file_data w' (seg_path d e indexSuffix) = [])"
  using assms
proof (induction ss arbitrary: w x bss)
  case 1: Nil
  then have bss: "bss = []" by (cases bss) auto
  with 1 have xe: "x = e" by simp
  obtain a' w' where A: "OpenSegment (segment_opts cfg d e) w = (Inr a', w')" "seg_rep a' w' cur"
    "sg_baseOffset a' = e" "sg_nextOffset a' = sg_nextOffset a" "sg_dir a' = d" "\<not> sg_sealed a'"
    "touches (files_of d {e}) w w'" "cur = [] \<longrightarrow> file_data w' (seg_path d e indexSuffix) = []"
    using reopen_segment [OF 1(2,5,4), of cfg] 1(3,6) by metis
  then show ?case
    using 1(2-) bss xe by (intro exI [of _ "[]"] exI [of _ a'] exI [of _ w']) auto
next
  case 2: (Cons s ss w x bss0)
  obtain bs bss where bss0: "bss0 = bs # bss" using 2(2) by (cases bss0) auto
  have r: "seg_rep s w bs" "sg_baseOffset s = x" "sg_dir s = d" "bs \<noteq> []"
    and run: "sealed_run w d (sg_nextOffset s) ss bss e" and ea: "e = sg_baseOffset a"
    using 2(2,4) bss0 by auto
  obtain s' w1 where S: "OpenSegment (segment_opts cfg d x) w = (Inr s', w1)" "seg_rep s' w1 bs"
    "sg_baseOffset s' = x" "sg_nextOffset s' = sg_nextOffset s" "sg_dir s' = d" "touches (files_of d {x}) w w1"
    using reopen_segment [OF r(1) 2(6) r(3), of cfg] r(2,4) by metis
  have bnd: "0 \<le> x" "x < sg_nextOffset s" "sg_nextOffset s \<le> e" "e \<le> max_i64"
    using seg_rep_bounds [OF r(1)] seg_rep_nonempty [OF r(1)] r sealed_run_le [OF run] seg_rep_bounds [OF 2(3)] ea by auto
  have later: "seg_path d y suf \<notin> files_of d {x}" if "sg_nextOffset s \<le> y" "y \<le> max_i64" for y suf
    using that bnd by (intro not_in_files_of) auto
  have run1: "sealed_run w1 d (sg_nextOffset s) ss bss e"
  proof -
    have "file_data w1 (LogPath t) = file_data w (LogPath t)" if "t \<in> set ss" for t
      using touches_data [OF S(6)] later [of "sg_baseOffset t"] sealed_run_member [OF run that] bnd
      by (simp add: LogPath_def)
    then show ?thesis using sealed_run_cong [of ss w1 w] run by blast
  qed
  have a1: "seg_rep a w1 cur"
    using seg_rep_cong [of w1 a w cur] 2(3) touches_data [OF S(6), of "LogPath a"] later [of e] bnd ea 2(5)
    by (simp add: LogPath_def)
  have i1: "cur = [] \<longrightarrow> file_data w1 (seg_path d e indexSuffix) = []"
    using 2(7) touches_data [OF S(6)] later [of e] bnd by simp
  obtain ss' a' w' where I: "open_segments cfg d (map sg_baseOffset (ss @ [a])) w1 = (Inr (ss' @ [a']), w')"
    "sealed_run w' d (sg_nextOffset s) ss' bss e" "seg_rep a' w' cur" "sg_baseOffset a' = e"
    "sg_nextOffset a' = sg_nextOffset a" "\<not> sg_sealed a'" "sg_dir a' = d"
    "touches (files_of d (sg_baseOffset ` set (ss @ [a]))) w1 w'" "map sg_baseOffset ss' = map sg_baseOffset ss"
    "cur = [] \<longrightarrow> file_data w' (seg_path d e indexSuffix) = []"
    using 2(1) [OF run1 a1 2(4,5) touches_plan [OF S(6) 2(6)] i1] by blast
  define s'' where "s'' = s'\<lparr>sg_sealed := True\<rparr>"
  have "LogPath s'' \<notin> files_of d (sg_baseOffset ` set (ss @ [a]))"
  proof -
    have "\<forall>b \<in> sg_baseOffset ` set (ss @ [a]). sg_nextOffset s \<le> b \<and> b \<le> max_i64"
      using sealed_run_member [OF run] bnd ea by fastforce
    then show ?thesis
      using bnd S(3,5) not_in_files_of [of x "sg_baseOffset ` set (ss @ [a])" d logSuffix]
      by (fastforce simp: LogPath_def s''_def)
  qed
  then have "file_data w' (LogPath s'') = file_data w1 (LogPath s'')" by (rule touches_data [OF I(8)])
  then have "seg_rep s'' w' bs"
    using S(2) seg_rep_cong [of w' s' w1 bs] by (simp add: s''_def seg_rep_def LogPath_def seg_open_def)
  then have "sealed_run w' d x (s'' # ss') bss0 e"
    using I(2) S(3,4,5) r(4) bss0 by (simp add: s''_def)
  moreover have "open_segments cfg d (map sg_baseOffset ((s # ss) @ [a])) w = (Inr ((s'' # ss') @ [a']), w')"
    using S(1) I(1) r(2) by (simp add: s''_def)
  moreover have "touches (files_of d (sg_baseOffset ` set ((s # ss) @ [a]))) w w'"
    by (rule touches_trans [OF touches_mono [OF S(6)] touches_mono [OF I(8)]]; rule files_of_mono) (auto simp: r(2))
  moreover have "sg_baseOffset s'' = sg_baseOffset s" using S(3) r(2) by (simp add: s''_def)
  ultimately show ?case
    using I(3-7,9,10) by (intro exI [of _ "s'' # ss'"] exI [of _ a'] exI [of _ w']) simp
qed

lemma strict_sorted_unique:
  "sorted_wrt (<) (xs :: int list) \<Longrightarrow> sorted ys \<Longrightarrow> distinct ys \<Longrightarrow> set ys = set xs \<Longrightarrow> ys = xs"
  by (metis sorted_distinct_set_unique strict_sorted_iff)

lemma sealed_run_bases: "sealed_run w d x ss bss e \<Longrightarrow> sorted_wrt (<) (map sg_baseOffset ss @ [e])"
proof (induction w d x ss bss e rule: sealed_run.induct)
  case (2 w d x s ss bs bss e)
  then have r: "seg_rep s w bs" "bs \<noteq> []" "sealed_run w d (sg_nextOffset s) ss bss e" by auto
  moreover have "sg_baseOffset s < y" if "y \<in> set (map sg_baseOffset ss @ [e])" for y
    using that sealed_run_member [OF r(3)] sealed_run_le [OF r(3)] seg_rep_nonempty [OF r(1)] r(2) by fastforce
  ultimately show ?case using 2 by auto
qed auto

lemma in_set_map_filter: "y \<in> set (List.map_filter f xs) \<longleftrightarrow> (\<exists>x \<in> set xs. f x = Some y)"
  by (induction xs) (auto simp: List.map_filter_def)

lemma bases_of_dir:
  assumes "log_rep l w bss cur"
  shows "sort (List.map_filter segment_base (dir_names (lg_dir l) w)) = map sg_baseOffset (lg_segments l)"
proof (rule strict_sorted_unique)
  note rep = assms [unfolded log_rep_def]
  have segs: "lg_segments l = butlast (lg_segments l) @ [last (lg_segments l)]" using rep by simp
  show "sorted_wrt (<) (map sg_baseOffset (lg_segments l))"
  proof -
    have "map sg_baseOffset (lg_segments l) =
        map sg_baseOffset (butlast (lg_segments l)) @ [sg_baseOffset (last (lg_segments l))]"
      using segs by (metis list.simps(8,9) map_append)
    then show ?thesis using sealed_run_bases rep by metis
  qed
  let ?ns = "dir_names (lg_dir l) w"
  have "distinct (List.map_filter segment_base xs)" if "distinct xs" for xs
    using that
  proof (induction xs)
    case (Cons n xs)
    have "x \<notin> set (List.map_filter segment_base xs)" if "segment_base n = Some x" for x
      using that Cons.prems by (auto simp: in_set_map_filter segment_base_iff)
    with Cons show ?case by (auto simp: List.map_filter_def split: option.splits)
  qed (simp add: List.map_filter_def)
  then show "distinct (sort (List.map_filter segment_base ?ns))" by (simp add: dir_names_def)
  have "y \<in> set (List.map_filter segment_base ?ns) \<longleftrightarrow> y \<in> sg_baseOffset ` set (lg_segments l)" for y
  proof -
    have "y \<in> set (List.map_filter segment_base ?ns) \<longleftrightarrow> (\<exists>n \<in> set ?ns. segment_base n = Some y)"
      by (rule in_set_map_filter)
    also have "\<dots> \<longleftrightarrow> 0 \<le> y \<and> y \<le> max_i64 \<and> map_of (w_dir w) (seg_path (lg_dir l) y logSuffix) \<noteq> None"
      by (auto simp: segment_base_iff dir_names_iff seg_path_def no_slash_segment)
    also have "\<dots> \<longleftrightarrow> y \<in> sg_baseOffset ` set (lg_segments l)"
    proof -
      have "0 \<le> sg_baseOffset s \<and> sg_baseOffset s \<le> max_i64" if "s \<in> set (lg_segments l)" for s
      proof -
        obtain k where "k < length (lg_segments l)" "s = lg_segments l ! k" using \<open>s \<in> _\<close> by (metis in_set_conv_nth)
        then show ?thesis using seg_rep_bounds [OF log_rep_nth(1) [OF assms]] by fastforce
      qed
      then show ?thesis using rep by blast
    qed
    finally show ?thesis .
  qed
  then show "set (sort (List.map_filter segment_base ?ns)) = set (map sg_baseOffset (lg_segments l))" by auto
qed simp

lemma OpenLog_restores:
  assumes "log_rep l w bss cur" "w_plan w = []" "lg_dir l = PartitionDir (cf_DataDir cfg) topic part"
  obtains l' w' where "OpenLog cfg guard topic part w = (Inr l', w')" "log_rep l' w' bss cur"
    "HighWatermark l' = HighWatermark l" "lg_logStart l' = lg_logStart l" "w_plan w' = []"
    "lg_dir l' = lg_dir l" "lg_topic l' = topic" "lg_partition l' = part" "lg_cfg l' = cfg" "lg_diskGuard l' = guard"
    "touches (dir_files (lg_dir l)) w w'"
proof -
  note rep = assms(1) [unfolded log_rep_def]
  define ss a where "ss = butlast (lg_segments l)" and "a = last (lg_segments l)"
  have segs: "lg_segments l = ss @ [a]" using rep by (simp add: ss_def a_def)
  let ?d = "lg_dir l"
  obtain ss' a' w' where R: "open_segments cfg ?d (map sg_baseOffset (ss @ [a])) w = (Inr (ss' @ [a']), w')"
    "sealed_run w' ?d (lg_logStart l) ss' bss (sg_baseOffset a)" "seg_rep a' w' cur" "sg_baseOffset a' = sg_baseOffset a"
    "sg_nextOffset a' = sg_nextOffset a" "\<not> sg_sealed a'" "sg_dir a' = ?d"
    "touches (files_of ?d (sg_baseOffset ` set (ss @ [a]))) w w'" "map sg_baseOffset ss' = map sg_baseOffset ss"
    "cur = [] \<longrightarrow> file_data w' (seg_path ?d (sg_baseOffset a) indexSuffix) = []"
    using reopen_run [of w ?d "lg_logStart l" ss bss "sg_baseOffset a" a cur cfg] rep assms(2)
    by (auto simp: ss_def a_def)
  define l' where "l' = \<lparr>lg_dir = ?d, lg_topic = topic, lg_partition = part, lg_cfg = cfg, lg_segments = ss' @ [a'],
      lg_logStart = lg_logStart l, lg_diskGuard = guard\<rparr>"
  have hd: "sg_baseOffset (hd (ss' @ [a'])) = lg_logStart l"
    using R(2,4) sealed_run_nth [OF R(2), of 0] sealed_run_lengths [OF R(2)] by (cases ss'; cases bss) auto
  have O: "OpenLog cfg guard topic part w = (Inr l', w')"
    using R(1) bases_of_dir [OF assms(1)] segs hd assms(2,3)
    by (simp add: OpenLog_def Log_recover_def Let_def os_simps l'_def)
  have bases: "sg_baseOffset ` set (ss' @ [a']) = sg_baseOffset ` set (lg_segments l)"
    using R(4,9) segs by (metis map_append list.simps(8,9) set_map)
  have bnd: "\<forall>b \<in> sg_baseOffset ` set (ss @ [a]). 0 \<le> b \<and> b \<le> sg_baseOffset a" "sg_baseOffset a \<le> max_i64"
  proof -
    have "sealed_run w ?d (lg_logStart l) ss bss (sg_baseOffset a)" "seg_rep a w cur"
      using rep by (auto simp: ss_def a_def)
    then show "\<forall>b \<in> sg_baseOffset ` set (ss @ [a]). 0 \<le> b \<and> b \<le> sg_baseOffset a" "sg_baseOffset a \<le> max_i64"
      using sealed_run_member seg_rep_bounds [of a w cur] by fastforce+
  qed
  have out: "seg_path ?d y suf \<notin> files_of ?d (sg_baseOffset ` set (ss @ [a]))"
    if "0 \<le> y" "y \<le> max_i64" "y \<notin> sg_baseOffset ` set (lg_segments l)" for y suf
    using that segs bnd by (intro not_in_files_of) fastforce+
  have fut: "file_data w' (seg_path ?d y indexSuffix) = []" if "sg_baseOffset a < y" "y \<le> max_i64" for y
  proof -
    have "y \<notin> sg_baseOffset ` set (lg_segments l)" "0 \<le> y" using bnd(1) that segs by fastforce+
    then show ?thesis using touches_data [OF R(8) out] rep that by (simp add: a_def)
  qed
  have ex: "map_of (w_dir w') (seg_path ?d y logSuffix) \<noteq> None \<longleftrightarrow> y \<in> sg_baseOffset ` set (ss' @ [a'])"
    if "0 \<le> y" "y \<le> max_i64" for y
  proof (cases "y \<in> sg_baseOffset ` set (lg_segments l)")
    case True
    then show ?thesis using touches_exists [OF R(8)] rep that bases by blast
  next
    case False
    then show ?thesis using touches_map_of [OF R(8) out] rep that bases by metis
  qed
  have "log_rep l' w' bss cur"
    using R rep fut ex by (simp add: log_rep_def l'_def)
  moreover have "HighWatermark l' = HighWatermark l" using R(5) segs by (simp add: HighWatermark_def l'_def)
  ultimately show ?thesis
    using O touches_plan [OF R(8) assms(2)] touches_mono [OF R(8) files_of_mono [OF subset_UNIV]]
    by (intro that [of l' w']) (simp_all add: l'_def)
qed

text \<open>A partition whose directory holds no segment file opens as an empty log.\<close>

lemma OpenLog_fresh:
  assumes "w_plan w = []" "\<And>p. p \<in> dir_files (PartitionDir (cf_DataDir cfg) topic part) \<Longrightarrow> map_of (w_dir w) p = None"
  obtains l w' where "OpenLog cfg guard topic part w = (Inr l, w')" "log_rep l w' [] []" "HighWatermark l = 0"
    "lg_logStart l = 0" "w_plan w' = []" "lg_dir l = PartitionDir (cf_DataDir cfg) topic part" "lg_topic l = topic"
    "lg_partition l = part" "lg_cfg l = cfg" "lg_diskGuard l = guard" "touches (dir_files (lg_dir l)) w w'"
proof -
  define d where "d = PartitionDir (cf_DataDir cfg) topic part"
  have none: "map_of (w_dir w) (seg_path d y suf) = None" if "suf \<in> {logSuffix, indexSuffix, timeIndexSuffix}" for y suf
    using assms(2) that by (auto simp: files_of_def d_def)
  then have empty: "file_data w (seg_path d y suf) = []" if "suf \<in> {logSuffix, indexSuffix, timeIndexSuffix}" for y suf
    using that by (simp add: file_data_def file_of_def)
  have "x \<notin> set (List.map_filter segment_base (dir_names d w))" for x
    using none by (auto simp: in_set_map_filter segment_base_iff dir_names_iff seg_path_def)
  then have bases: "List.map_filter segment_base (dir_names d w) = []" by (metis list.set_intros(1) neq_Nil_conv)
  let ?o = "segment_opts cfg d 0"
  have o: "so_Dir ?o = d" "so_BaseOffset ?o = 0" by (simp_all add: segment_opts_def)
  obtain s w' where S: "OpenSegment ?o w = (Inr s, w')" "seg_rep s w' []" "touches (seg_files s) w w'" "sg_dir s = d"
    "sg_baseOffset s = 0" "sg_nextOffset s = 0" "\<not> sg_sealed s" "map_of (w_dir w') (LogPath s) \<noteq> None"
    "file_data w' (seg_path d 0 indexSuffix) = []"
    by (rule OpenSegment_rep [OF assms(1), of "[]" ?o "[]" 0]) (use o empty in auto)
  define l where "l = \<lparr>lg_dir = d, lg_topic = topic, lg_partition = part, lg_cfg = cfg, lg_segments = [s], lg_logStart = 0,
    lg_diskGuard = guard\<rparr>"
  have T: "touches (files_of d {0}) w w'" using S(3-5) by (auto simp: files_of_def elim!: touches_mono)
  have out: "map_of (w_dir w') (seg_path d y suf) = None"
    if "0 < y" "y \<le> max_i64" "suf \<in> {logSuffix, indexSuffix, timeIndexSuffix}" for y suf
    using touches_map_of [OF T not_in_files_of [of y "{0}"]] none that by simp
  have ex: "map_of (w_dir w') (seg_path d y logSuffix) \<noteq> None \<longleftrightarrow> y = 0" if "0 \<le> y" "y \<le> max_i64" for y
    using S(4,5,8) out [of y logSuffix] that by (cases "y = 0") (auto simp: LogPath_def)
  have fut: "file_data w' (seg_path d y indexSuffix) = []" if "0 < y" "y \<le> max_i64" for y
    using out [of y indexSuffix] that by (simp add: file_data_def file_of_def)
  have "OpenLog cfg guard topic part w = (Inr l, w')"
    using S(1) bases assms(1) by (simp add: OpenLog_def Log_recover_def Let_def os_simps l_def flip: d_def)
  moreover have "log_rep l w' [] []"
    using S ex fut by (simp add: log_rep_def l_def)
  moreover have "HighWatermark l = 0" using S(6) by (simp add: HighWatermark_def l_def)
  ultimately show ?thesis
    using touches_plan [OF T assms(1)] touches_mono [OF T files_of_mono [OF subset_UNIV]]
    by (intro that [of l w']) (simp_all add: l_def d_def)
qed

text \<open>Directories do not share segment files, and what happens outside a log's directory does not change the log.\<close>

lemma no_slash_pad20: "CHR ''/'' \<notin> set (pad20 y)"
  using is_digit_dec [of "CHR ''/''"] by (auto simp: pad20_def is_digit_def)

lemma dir_files_disjoint: "d \<noteq> d' \<Longrightarrow> dir_files d \<inter> dir_files d' = {}"
proof -
  have *: "takeWhile (\<lambda>c. c \<noteq> CHR ''/'') (rev (seg_path d y suf)) = rev (segmentFilename y suf)"
    if "suf \<in> {logSuffix, indexSuffix, timeIndexSuffix}" for d y suf
  proof -
    have "\<forall>c \<in> set (rev (segmentFilename y suf)). c \<noteq> CHR ''/''"
      using that no_slash_pad20 [of y] by (auto simp: segmentFilename_def)
    then have "takeWhile (\<lambda>c. c \<noteq> CHR ''/'') (rev (segmentFilename y suf) @ CHR ''/'' # rev d) = rev (segmentFilename y suf)"
      by (subst takeWhile_append2) auto
    then show ?thesis by (simp add: seg_path_def path_join_def)
  qed
  assume "d \<noteq> d'"
  moreover have "d = d'" if "seg_path d y suf = seg_path d' y' suf'" "suf \<in> {logSuffix, indexSuffix, timeIndexSuffix}"
    "suf' \<in> {logSuffix, indexSuffix, timeIndexSuffix}" for y y' suf suf'
  proof -
    have "segmentFilename y suf = segmentFilename y' suf'" using * [OF that(2), of d y] * [OF that(3), of d' y'] that(1) by simp
    then show ?thesis using that(1) by (simp add: seg_path_def path_join_def)
  qed
  ultimately show ?thesis unfolding files_of_def by blast
qed

lemma log_rep_alters:
  assumes "log_rep l w bss cur" "alters P w w'" "dir_files (lg_dir l) \<inter> P = {}"
  shows "log_rep l w' bss cur"
proof -
  have m: "map_of (w_dir w') (seg_path (lg_dir l) y suf) = map_of (w_dir w) (seg_path (lg_dir l) y suf)"
    if "suf \<in> {logSuffix, indexSuffix, timeIndexSuffix}" for y suf
    using assms(2,3) that by (auto simp: alters_def files_of_def)
  then have f: "file_data w' (seg_path (lg_dir l) y suf) = file_data w (seg_path (lg_dir l) y suf)"
    if "suf \<in> {logSuffix, indexSuffix, timeIndexSuffix}" for y suf
    using m [OF that] by (simp add: file_data_def file_of_def split: option.splits)
  note rep = assms(1) [unfolded log_rep_def]
  have "sealed_run w' (lg_dir l) (lg_logStart l) (butlast (lg_segments l)) bss (sg_baseOffset (last (lg_segments l)))"
    using sealed_run_cong [of "butlast (lg_segments l)" w' w] rep sealed_run_member f by (fastforce simp: LogPath_def)
  moreover have "seg_rep (last (lg_segments l)) w' cur"
    using seg_rep_cong [of w' "last (lg_segments l)" w cur] rep f by (simp add: LogPath_def)
  ultimately show ?thesis using rep m f by (simp add: log_rep_def)
qed

section \<open>Deleting old segments\<close>

lemma map_of_delete_w: "map_of (w_dir (w\<lparr>w_dir := AList.delete n (w_dir w)\<rparr>)) = (map_of (w_dir w))(n := None)"
  by (simp add: delete_conv')

lemma Segment_Close_ok:
  "w_plan w = [] \<Longrightarrow> Segment_Close s w = (None, s\<lparr>sg_logFile := None, sg_idx := None, sg_tix := None\<rparr>, w)"
  by (auto simp: Segment_Close_def Index_Close_def TimeIndex_Close_def os_simps split: option.splits)

lemma Segment_Delete_ok:
  assumes "w_plan w = []"
  obtains w' where "Segment_Delete s w = (None, s\<lparr>sg_logFile := None, sg_idx := None, sg_tix := None\<rparr>, w')"
    "alters (seg_files s) w w'" "map_of (w_dir w') (LogPath s) = None" "w_plan w' = []"
proof -
  let ?p = "seg_path (sg_dir s) (sg_baseOffset s)"
  let ?del = "\<lambda>n w. w\<lparr>w_dir := AList.delete n (w_dir w)\<rparr>"
  define w' where "w' = ?del (?p timeIndexSuffix) (?del (?p indexSuffix) (?del (?p logSuffix) w))"
  have "Segment_Delete s w = (None, s\<lparr>sg_logFile := None, sg_idx := None, sg_tix := None\<rparr>, w')"
    using assms by (simp add: Segment_Delete_def Segment_Close_ok os_simps w'_def)
  moreover have "alters (seg_files s) w w'" "map_of (w_dir w') (LogPath s) = None" "w_plan w' = []"
    using assms by (auto simp: alters_def w'_def map_of_delete_w LogPath_def delete_conv')
  ultimately show ?thesis by (rule that)
qed

lemma sealed_run_alters:
  assumes "sealed_run w d x ss bss e" "alters (seg_path d y ` S) w w'" "y < x" "0 \<le> y" "e \<le> max_i64"
  shows "sealed_run w' d x ss bss e"
proof -
  have "file_data w' (LogPath s) = file_data w (LogPath s)" if "s \<in> set ss" for s
  proof (rule alters_data [OF assms(2)])
    show "LogPath s \<notin> seg_path d y ` S"
      using sealed_run_member [OF assms(1) that] assms(3-5) seg_path_eq_iff [of "sg_baseOffset s" y]
      by (auto simp: LogPath_def)
  qed
  then show ?thesis using sealed_run_cong [of ss w' w] assms(1) by blast
qed

lemma delete_first:
  assumes "log_rep l w bss cur" "lg_segments l = s # t # r" "w_plan w = []"
  obtains s' w' where "Segment_Delete s w = (None, s', w')" "w_plan w' = []"
    "log_rep (l\<lparr>lg_segments := t # r, lg_logStart := sg_baseOffset t\<rparr>) w' (tl bss) cur" "bss \<noteq> []"
    "sg_baseOffset t = sg_nextOffset s" "lg_logStart l < sg_baseOffset t"
proof -
  let ?d = "lg_dir l" and ?a = "last (t # r)" and ?l = "l\<lparr>lg_segments := t # r, lg_logStart := sg_baseOffset t\<rparr>"
  note rep = assms(1) [unfolded log_rep_def]
  obtain bs bss' where bss: "bss = bs # bss'" using rep assms(2) by (cases bss) auto
  have s: "sg_baseOffset s = lg_logStart l" "sg_dir s = ?d" "seg_rep s w bs" "bs \<noteq> []"
    and run: "sealed_run w ?d (sg_nextOffset s) (butlast (t # r)) bss' (sg_baseOffset ?a)"
    and a: "seg_rep ?a w cur"
    using rep assms(2) bss by auto
  have t: "sg_baseOffset t = sg_nextOffset s" "lg_logStart l < sg_nextOffset s"
    using log_rep_nth(4) [OF assms(1), of 0] assms(2) s(1) by auto
  have bnd: "0 \<le> lg_logStart l" "sg_nextOffset s \<le> sg_baseOffset ?a" "sg_baseOffset ?a \<le> max_i64"
    using rep sealed_run_le [OF run] seg_rep_bounds [OF a] by auto
  obtain w' where D: "Segment_Delete s w = (None, s\<lparr>sg_logFile := None, sg_idx := None, sg_tix := None\<rparr>, w')"
    "alters (seg_files s) w w'" "map_of (w_dir w') (LogPath s) = None" "w_plan w' = []"
    using Segment_Delete_ok [OF assms(3)] by blast
  have A: "alters (seg_path ?d (lg_logStart l) ` {logSuffix, indexSuffix, timeIndexSuffix}) w w'"
    using D(2) s by simp
  have out: "seg_path ?d y suf \<notin> seg_path ?d (lg_logStart l) ` {logSuffix, indexSuffix, timeIndexSuffix}"
    if "0 \<le> y" "y \<le> max_i64" "y \<noteq> lg_logStart l" for y suf
    using that bnd t seg_path_eq_iff [of y "lg_logStart l"] by auto
  have "sealed_run w' ?d (sg_nextOffset s) (butlast (t # r)) bss' (sg_baseOffset ?a)"
    using sealed_run_alters [OF run A] t(2) bnd by simp
  moreover have "seg_rep ?a w' cur"
    using a alters_data [OF A out [of "sg_baseOffset ?a" logSuffix]] seg_rep_cong [of w' ?a w cur] bnd t rep assms(2)
    by (simp add: LogPath_def)
  moreover have "file_data w' (seg_path ?d y indexSuffix) = file_data w (seg_path ?d y indexSuffix)"
    if "sg_baseOffset ?a \<le> y" "y \<le> max_i64" for y
    using alters_data [OF A out] that bnd t by simp
  moreover have "map_of (w_dir w') (seg_path ?d y logSuffix) \<noteq> None \<longleftrightarrow> y \<in> sg_baseOffset ` set (t # r)"
    if "0 \<le> y" "y \<le> max_i64" for y
  proof (cases "y = lg_logStart l")
    case True
    have "sg_nextOffset s \<le> z" if z: "z \<in> sg_baseOffset ` set (t # r)" for z
    proof -
      obtain u where u: "z = sg_baseOffset u" "u \<in> set (t # r)" using z by blast
      then have "u = ?a \<or> u \<in> set (butlast (t # r))" using set_last [of "t # r"] by blast
      then show ?thesis using u(1) sealed_run_member [OF run] bnd(2) by blast
    qed
    then show ?thesis using D(3) s t True by (fastforce simp: LogPath_def)
  next
    case False
    have "map_of (w_dir w') (seg_path ?d y logSuffix) = map_of (w_dir w) (seg_path ?d y logSuffix)"
      using A out [OF that False] by (simp add: alters_def)
    then show ?thesis using rep assms(2) that False s by auto
  qed
  ultimately have "log_rep ?l w' bss' cur"
    using rep assms(2) t bnd by (auto simp: log_rep_def)
  then show ?thesis using D t bss by (intro that) auto
qed

lemma delete_loop_count: "delete_loop c segs n w = (e, m, segs2, w2) \<Longrightarrow> n \<le> m \<and> (m = n \<longrightarrow> e = None \<longrightarrow> segs2 = segs)"
  by (induction c segs n w arbitrary: e m segs2 w2 rule: delete_loop.induct)
    (fastforce split: if_splits prod.splits option.splits)+

lemma log_rep_cong:
  "lg_segments l' = lg_segments l \<Longrightarrow> lg_logStart l' = lg_logStart l \<Longrightarrow> lg_dir l' = lg_dir l \<Longrightarrow>
   log_rep l' w bss cur \<longleftrightarrow> log_rep l w bss cur"
  by (simp add: log_rep_def)

lemma delete_loop_rep:
  assumes "log_rep l w bss cur" "w_plan w = []"
  shows "\<exists>k segs w'. delete_loop cutoff (lg_segments l) n w = (None, n + k, segs, w') \<and> k \<le> length bss \<and>
    log_rep (l\<lparr>lg_segments := segs, lg_logStart := sg_baseOffset (hd segs)\<rparr>) w' (drop k bss) cur \<and> w_plan w' = [] \<and>
    last segs = last (lg_segments l) \<and> segs \<noteq> [] \<and> lg_logStart l \<le> sg_baseOffset (hd segs) \<and>
    (0 < k \<longrightarrow> sg_baseOffset (hd segs) \<le> cutoff)"
  using assms
proof (induction bss arbitrary: l w n)
  case Nil
  then obtain a where a: "lg_segments l = [a]" using log_rep_nth(2) [OF Nil(1), of 0]
    by (cases "lg_segments l") (auto simp: log_rep_def)
  then have b0: "lg_logStart l = sg_baseOffset a" using log_rep_nth(3) [OF Nil(1), of 0] by simp
  then have "log_rep (l\<lparr>lg_segments := [a], lg_logStart := sg_baseOffset a\<rparr>) w [] cur"
    using a Nil(1) log_rep_cong [of "l\<lparr>lg_segments := [a], lg_logStart := sg_baseOffset a\<rparr>" l] by simp
  then show ?case using Nil a b0 by (intro exI [of _ 0] exI [of _ "[a]"] exI [of _ w]) simp
next
  case (Cons bs bss)
  have "length (lg_segments l) = Suc (Suc (length bss))"
    using log_rep_nth(2) [OF Cons.prems(1), of 0] Cons.prems(1) by (simp add: log_rep_def)
  then obtain s t r where segs: "lg_segments l = s # t # r" by (metis Suc_length_conv)
  have b0: "lg_logStart l = sg_baseOffset s" using log_rep_nth(3) [OF Cons.prems(1), of 0] segs by simp
  show ?case
  proof (cases "sg_baseOffset t > cutoff")
    case True
    moreover have "log_rep (l\<lparr>lg_segments := s # t # r, lg_logStart := sg_baseOffset s\<rparr>) w (bs # bss) cur"
      using segs b0 Cons.prems(1) log_rep_cong [of "l\<lparr>lg_segments := s # t # r, lg_logStart := sg_baseOffset s\<rparr>" l]
      by simp
    ultimately show ?thesis
      using Cons.prems segs b0 by (intro exI [of _ 0] exI [of _ "s # t # r"] exI [of _ w]) simp
  next
    case False
    obtain s' w1 where D: "Segment_Delete s w = (None, s', w1)" "w_plan w1 = []"
      "log_rep (l\<lparr>lg_segments := t # r, lg_logStart := sg_baseOffset t\<rparr>) w1 bss cur" "lg_logStart l < sg_baseOffset t"
      using delete_first [OF Cons.prems(1) segs Cons.prems(2)] by (metis list.sel(3))
    obtain k segs' w' where I: "delete_loop cutoff (t # r) (n + 1) w1 = (None, n + 1 + k, segs', w')" "k \<le> length bss"
      "log_rep (l\<lparr>lg_segments := segs', lg_logStart := sg_baseOffset (hd segs')\<rparr>) w' (drop k bss) cur" "w_plan w' = []"
      "last segs' = last (t # r)" "segs' \<noteq> []" "sg_baseOffset t \<le> sg_baseOffset (hd segs')"
      "0 < k \<longrightarrow> sg_baseOffset (hd segs') \<le> cutoff" "k = 0 \<longrightarrow> segs' = t # r"
    proof -
      obtain k segs' w' where *: "delete_loop cutoff (t # r) (n + 1) w1 = (None, n + 1 + k, segs', w')" "k \<le> length bss"
        "log_rep (l\<lparr>lg_segments := segs', lg_logStart := sg_baseOffset (hd segs')\<rparr>) w' (drop k bss) cur" "w_plan w' = []"
        "last segs' = last (t # r)" "segs' \<noteq> []" "sg_baseOffset t \<le> sg_baseOffset (hd segs')"
        "0 < k \<longrightarrow> sg_baseOffset (hd segs') \<le> cutoff"
        using Cons.IH [OF D(3,2), of "n + 1"] by auto
      have "segs' = t # r" if "k = 0"
        using delete_loop_count [OF *(1)] that by simp
      then show ?thesis using that * by blast
    qed
    have "sg_baseOffset (hd segs') \<le> cutoff" using I(8,9) False by (cases k) auto
    then show ?thesis
      using False D(1,4) I segs by (intro exI [of _ "Suc k"] exI [of _ segs'] exI [of _ w']) auto
  qed
qed

section \<open>Properties\<close>

lemma validate_all_None: "validate_all i bs = None \<Longrightarrow> b \<in> set bs \<Longrightarrow> ValidateBatchForAppend b = None"
  by (induction bs arbitrary: i) (auto split: option.splits)

lemma digit_0: "digit 0 = CHR ''0''"
  by code_simp

lemma chain_before:
  "chain x (p @ b # r @ b' # q) e \<Longrightarrow>
   BaseOffset (header_of b) + LastOffsetDelta (header_of b) < BaseOffset (header_of b')"
  by (auto simp: chain_append dest!: chain_le)

lemma chain_unique:
  assumes "chain o1 cs e" "cs = p @ b # q" "cs = p' @ b' # q'"
    "BaseOffset (header_of b) \<le> x" "x \<le> BaseOffset (header_of b) + LastOffsetDelta (header_of b)"
    "BaseOffset (header_of b') \<le> x" "x \<le> BaseOffset (header_of b') + LastOffsetDelta (header_of b')"
  shows "b = b'"
proof -
  have "p @ b # q = p' @ b' # q'" using assms(2,3) by simp
  then consider us where "p = p' @ us" "us @ b # q = b' # q'" | us where "p @ us = p'" "b # q = us @ b' # q'"
    by (auto simp: append_eq_append_conv2)
  then show ?thesis
  proof cases
    case 1
    then show ?thesis
      using chain_before [of o1 p' b' "tl us" b q e] assms by (cases us) auto
  next
    case 2
    then show ?thesis
      using chain_before [of o1 p b "tl us" b' q' e] assms by (cases us) auto
  qed
qed

text \<open>A log whose single segment holds the sample batch, in the directory of topic t, partition 0.\<close>

definition sample_cfg :: Config where
  "sample_cfg = \<lparr>cf_DataDir = ''data'', cf_SegmentBytes = 1000000, cf_SegmentMS = 0, cf_IndexInterval = 16384,
     cf_FsyncMode = ''always'', cf_FsyncInterval = 0\<rparr>"

definition sample_log :: Log where
  "sample_log = \<lparr>lg_dir = sample_dir, lg_topic = ''t'', lg_partition = 0, lg_cfg = sample_cfg,
     lg_segments = [sample_seg 61 3 [\<lparr>RelOffset = 0, Position = 0\<rparr>]], lg_logStart = 0, lg_diskGuard = True\<rparr>"

abbreviation sample_w :: world where "sample_w \<equiv> sample_world sample_batch []"

lemma sample_seg_sel [simp]:
  "sg_dir (sample_seg n x es) = sample_dir" "sg_baseOffset (sample_seg n x es) = 0"
  "sg_nextOffset (sample_seg n x es) = x" "\<not> sg_sealed (sample_seg n x es)"
  by (simp_all add: sample_seg_def)

lemma sample_world_future:
  "0 < y \<Longrightarrow> y \<le> max_i64 \<Longrightarrow> file_data (sample_world d ix) (seg_path sample_dir y suf) = [] \<and>
   map_of (w_dir (sample_world d ix)) (seg_path sample_dir y suf) = None"
  by (simp add: sample_world_def file_data_def file_of_def seg_path_eq_iff)

lemma sample_log_rep: "log_rep sample_log sample_w [] [sample_batch]"
proof -
  have "map_of (w_dir sample_w) (seg_path sample_dir y logSuffix) \<noteq> None \<longleftrightarrow> y = 0" if "0 \<le> y" "y \<le> max_i64" for y
    using sample_world_future [of y sample_batch "[]" logSuffix] that
    by (cases "y = 0") (auto simp: sample_world_def)
  then show ?thesis
    using sample_seg_rep(1) sample_world_future by (simp add: log_rep_def sample_log_def)
qed

lemma sample_log_sel [simp]:
  "HighWatermark sample_log = 3" "lg_logStart sample_log = 0" "lg_dir sample_log = sample_dir" "\<not> w_paused sample_w"
  by (simp_all add: sample_log_def HighWatermark_def sample_world_def)

lemma sample_sound: "sound_batch sample_batch"
  by (simp add: sound_batch_def sample_valid sample_whole sample_header)

text \<open>
  C1: append refines list append. On a well-formed log, appending admitted batches (each exactly as
  long as its header says, with a non-negative offset delta) with the disk guard quiet returns the old
  high watermark, and the log then holds exactly the old batches followed by the new ones, numbered
  consecutively from that offset. This holds whatever rolling of segments the append causes.
\<close>

theorem Log_Append_correct:
  assumes "log_rep l w bss cur" "w_plan w = []" "batches \<noteq> []" "\<forall>b \<in> set batches. sound_batch b"
    "\<not> (lg_diskGuard l \<and> w_paused w)" "end_offset (HighWatermark l) batches \<le> max_i64"
  shows "\<exists>l' w' bss' cur'. Log_Append l batches w = (Inr (HighWatermark l), l', w') \<and> log_rep l' w' bss' cur' \<and>
    concat bss' @ cur' = (concat bss @ cur) @ stamp_all (HighWatermark l) batches \<and>
    HighWatermark l' = end_offset (HighWatermark l) batches \<and> LogStartOffset l' = LogStartOffset l"
  using Log_Append_refines [OF assms] by (auto simp: LogStartOffset_def)

theorem Log_Append_correct_witness:
  "\<exists>l' w' bss' cur'. Log_Append sample_log [sample_batch, sample_batch] sample_w = (Inr 3, l', w') \<and> log_rep l' w' bss' cur' \<and>
     concat bss' @ cur' = [sample_batch, SetPartitionLeaderEpoch 0 (RewriteBaseOffset 3 sample_batch),
       SetPartitionLeaderEpoch 0 (RewriteBaseOffset 6 sample_batch)] \<and> HighWatermark l' = 9"
  using Log_Append_correct [OF sample_log_rep, of "[sample_batch, sample_batch]"]
  by (auto simp: sample_sound sample_header)

text \<open>
  C12: a produce request is rejected as a whole. If any batch of the request fails admission, append
  returns the error of the first such batch and the log holds exactly the batches it held before.
\<close>

theorem Log_Append_rejects_whole_request:
  assumes "log_rep l w bss cur" "w_plan w = []" "\<not> (lg_diskGuard l \<and> w_paused w)"
    "\<exists>b \<in> set batches. ValidateBatchForAppend b \<noteq> None"
  shows "\<exists>k e l' w' bss' cur'. Log_Append l batches w = (Inl (LogBatch k e), l', w') \<and> k < length batches \<and>
    ValidateBatchForAppend (batches ! k) = Some e \<and> log_rep l' w' bss' cur' \<and>
    concat bss' @ cur' = concat bss @ cur \<and> HighWatermark l' = HighWatermark l"
proof -
  have ne: "lg_segments l \<noteq> []" "batches \<noteq> []" using assms(1,4) by (auto simp: log_rep_def)
  let ?a = "last (lg_segments l)"
  obtain l1 w1 bss1 cur1 where r1: "(if ShouldRoll ?a w then rollLocked l w else (None, l, w)) = (None, l1, w1)"
    "log_rep l1 w1 bss1 cur1" "concat bss1 @ cur1 = concat bss @ cur" "HighWatermark l1 = HighWatermark l"
  proof (cases "ShouldRoll ?a w")
    case True
    then show ?thesis using roll_step [OF assms(1,2)] that by (metis (no_types, lifting))
  next
    case False
    then show ?thesis using that [of l w bss cur] assms(1) by simp
  qed
  have "validate_all 0 batches \<noteq> None"
    using assms(4) validate_all_None [of 0 batches] by (metis)
  then obtain e where e: "validate_all 0 batches = Some e" by blast
  obtain k e' where k: "e = LogBatch k e'" "k < length batches" "ValidateBatchForAppend (batches ! k) = Some e'"
    using validate_all_error [OF e] by auto
  have "Log_Append l batches w = (Inl (LogBatch k e'), l1, w1)"
    using assms(3) ne r1(1) e k(1) by (auto simp: Log_Append_def activeSegment_def Let_def)
  with k r1 show ?thesis by blast
qed

theorem Log_Append_rejects_whole_request_witness:
  "\<exists>k e l' w' bss' cur'. Log_Append sample_log [sample_batch, take 20 sample_batch] sample_w = (Inl (LogBatch k e), l', w') \<and>
     k < 2 \<and> log_rep l' w' bss' cur' \<and> concat bss' @ cur' = [sample_batch] \<and> HighWatermark l' = 3"
  using Log_Append_rejects_whole_request [OF sample_log_rep, of "[sample_batch, take 20 sample_batch]"]
  by (force simp: sample_valid validate_append_iff numeral_2_eq_2 simp del: split_paired_Ex)

text \<open>
  C10: a fetch inside the log. For every offset between the log start and the high watermark and any
  byte limit of at least one batch header, the answer is a non-empty run of whole consecutive batches,
  the first of which contains the offset; it respects the limit unless the first batch alone exceeds
  it; the reported offset is the first batch's; nothing on disk changes.
\<close>

theorem FetchAt_correct:
  assumes "log_rep l w bss cur" "w_plan w = []" "LogStartOffset l \<le> x" "x < HighWatermark l" "61 \<le> maxBytes"
  shows "\<exists>before run after. concat bss @ cur = before @ run @ after \<and> run \<noteq> [] \<and>
    FetchAt l x maxBytes w = (Inr (concat run, BaseOffset (hdr (hd run))), w) \<and>
    BaseOffset (hdr (hd run)) \<le> x \<and> x \<le> LastOffset (hdr (hd run)) \<and>
    (int (length (concat run)) \<le> maxBytes \<or> length run = 1)"
proof -
  obtain before b run after where R: "concat bss @ cur = before @ (b # run) @ after"
    "FetchAt l x maxBytes w = (Inr (concat (b # run), BaseOffset (header_of b)), w)"
    "BaseOffset (header_of b) \<le> x" "x \<le> BaseOffset (header_of b) + LastOffsetDelta (header_of b)"
    "int (length (concat (b # run))) \<le> maxBytes \<or> run = []"
    using FetchAt_run [OF assms(1,2) _ assms(4,5)] assms(3) unfolding LogStartOffset_def by blast
  note c = log_rep_chain [OF assms(1)]
  have "hdr b = header_of b" using c(2) R(1) good_batchD(1) by simp
  moreover have "LastOffset (header_of b) = BaseOffset (header_of b) + LastOffsetDelta (header_of b)"
    using chain_member [OF c(1), of before b "run @ after"] R(1) c(3,4) LastOffset_simp [of "header_of b"] by auto
  ultimately show ?thesis
    using R by (intro exI [of _ before] exI [of _ "b # run"] exI [of _ after]) auto
qed

theorem FetchAt_correct_witness:
  "\<exists>before run after. [sample_batch] = before @ run @ after \<and> run \<noteq> [] \<and>
     FetchAt sample_log 2 100 sample_w = (Inr (concat run, BaseOffset (hdr (hd run))), sample_w)"
  using FetchAt_correct [OF sample_log_rep, of 2 100] by (auto simp: LogStartOffset_def)

text \<open>
  C14: a fetch outside the log. Below the log start the answer is the out-of-range error, at or above the
  high watermark it is no data; neither reads a file.
\<close>

theorem FetchAt_outside:
  assumes "log_rep l w bss cur"
  shows "(x < LogStartOffset l \<longrightarrow> FetchAt l x maxBytes w = (Inl LogOffsetOutOfRange, w)) \<and>
    (HighWatermark l \<le> x \<longrightarrow> FetchAt l x maxBytes w = (Inr ([], x), w))"
proof -
  have ne: "lg_segments l \<noteq> []" using assms by (simp add: log_rep_def)
  have b: "sg_baseOffset (hd (lg_segments l)) = lg_logStart l"
    using log_rep_nth(3) [OF assms, of 0] ne by (simp add: hd_conv_nth)
  note c = log_rep_chain [OF assms]
  show ?thesis
    using ne b c(5) by (auto simp: FetchAt_def findSegmentLocked_def Let_def HighWatermark_def LogStartOffset_def)
qed

theorem FetchAt_outside_witness:
  "FetchAt sample_log (- 1) 100 sample_w = (Inl LogOffsetOutOfRange, sample_w) \<and>
   FetchAt sample_log 3 100 sample_w = (Inr ([], 3), sample_w)"
  using FetchAt_outside [OF sample_log_rep, of "- 1" 100] FetchAt_outside [OF sample_log_rep, of 3 100]
  by (simp add: LogStartOffset_def)

text \<open>
  C6: what was appended can be fetched. After a successful append of batches at high watermark
  \<open>hw\<close>, a fetch at \<open>hw\<close> answers with a run of batches that starts with the first appended batch,
  carrying offset \<open>hw\<close> and the client's bytes from the magic byte on.
\<close>

theorem append_then_fetch:
  assumes "log_rep l w bss cur" "w_plan w = []" "\<forall>b \<in> set (b0 # bs). sound_batch b"
    "\<not> (lg_diskGuard l \<and> w_paused w)" "end_offset (HighWatermark l) (b0 # bs) \<le> max_i64" "61 \<le> maxBytes"
  shows "\<exists>l' w' b run. Log_Append l (b0 # bs) w = (Inr (HighWatermark l), l', w') \<and>
    FetchAt l' (HighWatermark l) maxBytes w' = (Inr (concat (b # run), HighWatermark l), w') \<and>
    BaseOffset (hdr b) = HighWatermark l \<and> drop 16 b = drop 16 b0 \<and> ValidateCRC b = None"
proof -
  let ?hw = "HighWatermark l" and ?b = "stamp (HighWatermark l) b0"
  obtain l' w' bss' cur' where A: "Log_Append l (b0 # bs) w = (Inr ?hw, l', w')" "log_rep l' w' bss' cur'"
    "concat bss' @ cur' = (concat bss @ cur) @ stamp_all ?hw (b0 # bs)" "HighWatermark l' = end_offset ?hw (b0 # bs)"
    "lg_logStart l' = lg_logStart l" "w_plan w' = []"
    using Log_Append_refines [OF assms(1,2) _ assms(3-5)] by auto
  note c = log_rep_chain [OF assms(1)] and c' = log_rep_chain [OF A(2)]
  have sb: "sound_batch b0" "61 \<le> length b0" using assms(3) sound_batchD(2) by auto
  have hw': "lg_logStart l' \<le> ?hw" "?hw < HighWatermark l'"
    using A(4,5) c(5) end_offset_ge [of bs "?hw + LastOffsetDelta (header_of b0) + 1"] assms(3) sound_batchD(5) [OF sb(1)]
    by auto
  obtain before b run after where R: "concat bss' @ cur' = before @ (b # run) @ after"
    "FetchAt l' ?hw maxBytes w' = (Inr (concat (b # run), BaseOffset (header_of b)), w')"
    "BaseOffset (header_of b) \<le> ?hw" "?hw \<le> BaseOffset (header_of b) + LastOffsetDelta (header_of b)"
    "int (length (concat (b # run))) \<le> maxBytes \<or> run = []"
    by (rule FetchAt_run [OF A(2,6) hw' assms(6)])
  have hb: "header_of ?b = (header_of b0)\<lparr>BaseOffset := ?hw\<rparr>"
    using header_of_stamp [OF sb(2)] c(3-5) by (simp add: i64_id)
  have "b = ?b"
  proof (rule chain_unique [OF c'(1), where x = ?hw])
    show "concat bss' @ cur' = before @ b # (run @ after)" using R(1) by simp
    show "concat bss' @ cur' = (concat bss @ cur) @ ?b # stamp_all (?hw + LastOffsetDelta (header_of b0) + 1) bs"
      using A(3) by simp
  qed (use R(3,4) hb sound_batchD(5) [OF sb(1)] in auto)
  then have "BaseOffset (hdr b) = ?hw" "drop 16 b = drop 16 b0" "ValidateCRC b = None" "BaseOffset (header_of b) = ?hw"
    using hb stamp_frame(1,2) [OF sb(2)] sb sound_batchD(3) [OF sb(1)] by (auto simp: hdr_header_of)
  with A(1) R(2) show ?thesis by auto
qed

theorem append_then_fetch_witness:
  "\<exists>l' w' b run. Log_Append sample_log [sample_batch] sample_w = (Inr 3, l', w') \<and>
     FetchAt l' 3 100 w' = (Inr (concat (b # run), 3), w') \<and> BaseOffset (hdr b) = 3 \<and>
     drop 16 b = drop 16 sample_batch \<and> ValidateCRC b = None"
  using append_then_fetch [OF sample_log_rep, of sample_batch "[]" 100] by (simp add: sample_sound sample_header)

text \<open>
  C11: restart. Opening the partition directory of a well-formed log, with any configuration, yields a
  log with the same batches in the same segments, the same high watermark and the same log start.
\<close>

theorem OpenLog_restores_log:
  assumes "log_rep l w bss cur" "w_plan w = []" "lg_dir l = PartitionDir (cf_DataDir cfg) topic part"
  shows "\<exists>l' w'. OpenLog cfg guard topic part w = (Inr l', w') \<and> log_rep l' w' bss cur \<and>
    HighWatermark l' = HighWatermark l \<and> LogStartOffset l' = LogStartOffset l"
  using OpenLog_restores [OF assms, of guard] by (metis LogStartOffset_def)

theorem OpenLog_restores_log_witness:
  "\<exists>l' w'. OpenLog sample_cfg True ''t'' 0 sample_w = (Inr l', w') \<and> log_rep l' w' [] [sample_batch] \<and>
     HighWatermark l' = 3 \<and> LogStartOffset l' = 0"
  using OpenLog_restores_log [OF sample_log_rep, of sample_cfg "''t''" 0 True]
  by (simp add: sample_cfg_def PartitionDir_def path_join_def dec_int_def dec.simps digit_def sample_dir_def LogStartOffset_def
      digit_0 [unfolded digit_def, simplified])



end
