(* ===== verification/Retention.thy ===== *)
theory Retention
  imports Complex_Main Partition_Log
begin

text \<open>
  The background sweeps over the open logs and the data directory's set-up:
  \<^verbatim>\<open>internal/storage/retention.go\<close> (age and size retention with the archive's veto),
  \<^verbatim>\<open>disk_guard.go\<close> (the writes-paused flag), \<^verbatim>\<open>syncer.go\<close> (one round of the periodic fsync) and
  \<^verbatim>\<open>Open\<close> of \<^verbatim>\<open>log.go\<close>. A sweep is related to a reference definition \<open>sweep_count\<close>, the number of
  sealed segments the two rules together condemn.
\<close>

section \<open>Retention\<close>

text \<open>
  \<^verbatim>\<open>Archived\<close> is nil when cold storage is off.
\<close>

record RetentionConfig =
  rc_RetentionMS :: int
  rc_RetentionBytes :: int
  rc_Tick :: int
  rc_Archived :: "(string \<Rightarrow> int \<Rightarrow> Segment \<Rightarrow> bool) option"

definition sweepInterval :: "RetentionConfig \<Rightarrow> int" where
  "sweepInterval cfg =
     (let d = (if rc_Tick cfg \<le> 0 then 60 * 1000000000 else rc_Tick cfg);
          half = go_div (i64 (rc_RetentionMS cfg * 1000000)) 2
      in if rc_RetentionMS cfg > 0 \<and> half < d then max half 1000000000 else d)"

fun first_unarchived :: "(Segment \<Rightarrow> bool) \<Rightarrow> nat \<Rightarrow> Segment list \<Rightarrow> nat \<Rightarrow> nat" where
  "first_unarchived arch i [] deletable = deletable"
| "first_unarchived arch i (seg # segs) deletable =
     (if \<not> arch seg then i else first_unarchived arch (i + 1) segs deletable)"

definition deletable_count :: "RetentionConfig \<Rightarrow> string \<Rightarrow> int \<Rightarrow> Segment list \<Rightarrow> nat" where
  "deletable_count cfg topic part segs =
     (case rc_Archived cfg of
        None \<Rightarrow> length segs
      | Some arch \<Rightarrow> first_unarchived (arch topic part) 0 segs (length segs))"

definition expired :: "RetentionConfig \<Rightarrow> int \<Rightarrow> Segment \<Rightarrow> bool" where
  "expired cfg now seg \<longleftrightarrow>
     \<not> (rc_RetentionMS cfg \<le> 0 \<or> go_div (time_sub now (Segment_CreatedAt seg)) 1000000 \<le> rc_RetentionMS cfg)"

fun age_loop :: "RetentionConfig \<Rightarrow> int \<Rightarrow> Segment list \<Rightarrow> int \<Rightarrow> int" where
  "age_loop cfg now [] cutoff = cutoff"
| "age_loop cfg now (seg # segs) cutoff =
     (if \<not> expired cfg now seg then cutoff else age_loop cfg now segs (Segment_NextOffset seg))"

definition total_size :: "Segment list \<Rightarrow> int" where
  "total_size segs = foldl (\<lambda>totalB seg. i64 (totalB + int (Segment_Size seg))) 0 segs"

fun size_loop :: "int \<Rightarrow> int \<Rightarrow> Segment list \<Rightarrow> int \<Rightarrow> int" where
  "size_loop limit totalB [] cutoff = cutoff"
| "size_loop limit totalB (seg # segs) cutoff =
     (if totalB > limit then
        size_loop limit (i64 (totalB - int (Segment_Size seg))) segs
          (if Segment_NextOffset seg > cutoff then Segment_NextOffset seg else cutoff)
      else cutoff)"

text \<open>
  One iteration of the loop of \<^verbatim>\<open>sweepOnce\<close>, up to the log lines. A failed deletion is logged and the
  sweep goes on; a panic ends the process.
\<close>

definition sweep_cutoff :: "RetentionConfig \<Rightarrow> int \<Rightarrow> Log \<Rightarrow> Segment list \<Rightarrow> int" where
  "sweep_cutoff cfg now l segs =
     (let deletable = deletable_count cfg (lg_topic l) (lg_partition l) segs;
          cutoff = age_loop cfg now (take deletable segs) (- 1)
      in if rc_RetentionBytes cfg > 0
         then size_loop (rc_RetentionBytes cfg) (total_size (AllSegments l)) (take deletable segs) cutoff
         else cutoff)"

definition sweep_log :: "RetentionConfig \<Rightarrow> int \<Rightarrow> Log \<Rightarrow> world \<Rightarrow> log_err option \<times> Log \<times> world" where
  "sweep_log cfg now l w =
     (case SealedSegments l of
        Inl e \<Rightarrow> (Some e, l, w)
      | Inr segs \<Rightarrow>
          if segs = [] then (None, l, w)
          else
            let cutoff = sweep_cutoff cfg now l segs
            in if cutoff < 0 then (None, l, w)
               else (case DeleteSegmentsBefore l cutoff w of
                 (Some LogPanic, _, l, w) \<Rightarrow> (Some LogPanic, l, w)
               | (_, _, l, w) \<Rightarrow> (None, l, w)))"

fun sweepOnce :: "RetentionConfig \<Rightarrow> int \<Rightarrow> Log list \<Rightarrow> world \<Rightarrow> log_err option \<times> Log list \<times> world" where
  "sweepOnce cfg now [] w = (None, [], w)"
| "sweepOnce cfg now (l # logs) w =
     (case sweep_log cfg now l w of
        (Some e, l, w) \<Rightarrow> (Some e, l # logs, w)
      | (None, l, w) \<Rightarrow> (case sweepOnce cfg now logs w of (e, logs, w) \<Rightarrow> (e, l # logs, w)))"

section \<open>Disk guard\<close>

text \<open>
  \<open>fdiv free totalB\<close> is \<^verbatim>\<open>float64(free) / float64(totalB)\<close>, an argument because the rounding plays no
  part; \<open>stat\<close> is the answer of \<^verbatim>\<open>statfs\<close>: available blocks, blocks and block size, or an error.
\<close>

record DiskGuard =
  dg_dir :: string
  dg_threshold :: rat
  dg_paused :: bool

definition NewDiskGuard :: "string \<Rightarrow> rat \<Rightarrow> DiskGuard" where
  "NewDiskGuard dir threshold =
     \<lparr>dg_dir = dir, dg_threshold = (if threshold \<le> 0 \<or> threshold \<ge> 1 then 1 / 10 else threshold), dg_paused = False\<rparr>"

definition Paused :: "DiskGuard \<Rightarrow> bool" where
  "Paused d = dg_paused d"

definition diskStats :: "(int \<times> int \<times> int) option \<Rightarrow> (int \<times> int) option" where
  "diskStats stat = map_option (\<lambda>(bavail, blocks, bsize). (u64 (bavail * bsize), u64 (blocks * bsize))) stat"

text \<open>The result also carries what \<^verbatim>\<open>OnState\<close> is told, if it is called.\<close>

definition checkOnce ::
  "(int \<Rightarrow> int \<Rightarrow> rat) \<Rightarrow> (int \<times> int \<times> int) option \<Rightarrow> DiskGuard \<Rightarrow> DiskGuard \<times> (bool \<times> rat) option" where
  "checkOnce fdiv stat d =
     (case diskStats stat of
        None \<Rightarrow> (d, None)
      | Some (free, totalB) \<Rightarrow>
          if totalB = 0 then (d, None)
          else
            let frac = fdiv free totalB;
                d = (if frac < dg_threshold d then (if \<not> dg_paused d then d\<lparr>dg_paused := True\<rparr> else d)
                     else if dg_paused d then d\<lparr>dg_paused := False\<rparr> else d)
            in (d, Some (dg_paused d, frac)))"

section \<open>Periodic fsync\<close>

text \<open>\<^verbatim>\<open>RunSyncer\<close>: the interval in effect, and what one tick does; errors are logged.\<close>

definition syncer_interval :: "int \<Rightarrow> int" where
  "syncer_interval interval = (if interval \<le> 0 then 5 * 1000000000 else interval)"

fun sync_tick :: "Log list \<Rightarrow> world \<Rightarrow> log_err list \<times> world" where
  "sync_tick [] w = ([], w)"
| "sync_tick (l # logs) w =
     (case FlushAndSync l w of
        (e, w) \<Rightarrow> (case sync_tick logs w of (es, w) \<Rightarrow> ((case e of None \<Rightarrow> es | Some x \<Rightarrow> x # es), w)))"

section \<open>Opening the data directory\<close>

text \<open>
  \<open>free\<close> is the outcome of \<^verbatim>\<open>flock\<close> on the lock file. The pid note is written with its errors
  ignored.
\<close>

datatype storage_err = DataDirRequired | MkdirDataDir | OpenLockFile string | DirLocked string | MkdirSub string

definition LockDir :: "bool \<Rightarrow> nat \<Rightarrow> string \<Rightarrow> world \<Rightarrow> (storage_err + string) \<times> world" where
  "LockDir free pid dir w =
     (let path = path_join dir ''.lock'' in
      case os_open path w of
        (False, w) \<Rightarrow> (Inl (OpenLockFile path), w)
      | (True, w) \<Rightarrow>
          if \<not> free then (case os_ctl w of (_, w) \<Rightarrow> (Inl (DirLocked dir), w))
          else
            (case os_truncate path 0 w of
               (_, w) \<Rightarrow>
                 (case os_write path 0 (map (\<lambda>c. of_nat (of_char c)) (dec pid @ [CHR 0x0A])) w of
                    (_, _, w) \<Rightarrow> (Inr path, w))))"

text \<open>\<^verbatim>\<open>flock\<close> with \<^verbatim>\<open>LOCK_UN\<close> and \<^verbatim>\<open>Close\<close> may each fail; the first error is returned. The file is removed either way.\<close>

definition Release :: "string \<Rightarrow> world \<Rightarrow> bool \<times> world" where
  "Release path w =
     (case os_ctl w of
        (ok1, w) \<Rightarrow> (case os_ctl w of (ok2, w) \<Rightarrow> (case os_remove path w of (_, w) \<Rightarrow> (ok1 \<and> ok2, w))))"

fun mkdir_subs :: "string \<Rightarrow> string list \<Rightarrow> world \<Rightarrow> storage_err option \<times> world" where
  "mkdir_subs lock [] w = (None, w)"
| "mkdir_subs lock (sub # subs) w =
     (case os_ctl w of
        (False, w) \<Rightarrow> (case Release lock w of (_, w) \<Rightarrow> (Some (MkdirSub sub), w))
      | (True, w) \<Rightarrow> mkdir_subs lock subs w)"

definition storage_Open :: "bool \<Rightarrow> nat \<Rightarrow> Config \<Rightarrow> world \<Rightarrow> (storage_err + Config \<times> string) \<times> world" where
  "storage_Open free pid cfg w =
     (if cf_DataDir cfg = [] then (Inl DataDirRequired, w)
      else
        let cfg = storage_defaults cfg in
        case os_ctl w of
          (False, w) \<Rightarrow> (Inl MkdirDataDir, w)
        | (True, w) \<Rightarrow>
            (case LockDir free pid (cf_DataDir cfg) w of
               (Inl e, w) \<Rightarrow> (Inl e, w)
             | (Inr lock, w) \<Rightarrow>
                 (case mkdir_subs lock [''topics'', ''groups'', ''metadata'', ''cache''] w of
                    (Some e, w) \<Rightarrow> (Inl e, w)
                  | (None, w) \<Rightarrow> (Inr (cfg, lock), w))))"

section \<open>What a sweep deletes\<close>

text \<open>The reference: how many sealed segments the age rule and the size rule condemn, over exact integers.\<close>

fun size_count :: "int \<Rightarrow> int \<Rightarrow> Segment list \<Rightarrow> nat" where
  "size_count limit totalB [] = 0"
| "size_count limit totalB (seg # segs) =
     (if totalB > limit then Suc (size_count limit (totalB - int (Segment_Size seg)) segs) else 0)"

definition archived_prefix :: "RetentionConfig \<Rightarrow> Log \<Rightarrow> Segment list" where
  "archived_prefix cfg l =
     (case rc_Archived cfg of
        None \<Rightarrow> butlast (lg_segments l)
      | Some arch \<Rightarrow> takeWhile (arch (lg_topic l) (lg_partition l)) (butlast (lg_segments l)))"

definition log_bytes :: "Log \<Rightarrow> int" where
  "log_bytes l = (\<Sum>seg \<leftarrow> lg_segments l. int (Segment_Size seg))"

definition sweep_count :: "RetentionConfig \<Rightarrow> int \<Rightarrow> Log \<Rightarrow> nat" where
  "sweep_count cfg now l =
     max (length (takeWhile (expired cfg now) (archived_prefix cfg l)))
         (if rc_RetentionBytes cfg > 0 then size_count (rc_RetentionBytes cfg) (log_bytes l) (archived_prefix cfg l) else 0)"

lemma first_unarchived_takeWhile:
  "d = i + length segs \<Longrightarrow> first_unarchived arch i segs d = i + length (takeWhile arch segs)"
  by (induction segs arbitrary: i) auto

lemma deletable_prefix:
  "take (deletable_count cfg (lg_topic l) (lg_partition l) (butlast (lg_segments l))) (butlast (lg_segments l)) =
   archived_prefix cfg l"
  by (simp add: deletable_count_def archived_prefix_def first_unarchived_takeWhile takeWhile_eq_take [symmetric]
      split: option.splits)

lemma size_count_le: "size_count limit totalB segs \<le> length segs"
  by (induction limit totalB segs rule: size_count.induct) auto

lemma sweep_count_le: "sweep_count cfg now l \<le> length (archived_prefix cfg l)"
  using size_count_le [of _ _ "archived_prefix cfg l"] by (simp add: sweep_count_def length_takeWhile_le)

lemma archived_prefix_le: "length (archived_prefix cfg l) \<le> length (lg_segments l) - 1"
  using length_takeWhile_le [of _ "butlast (lg_segments l)"]
  by (auto simp: archived_prefix_def split: option.splits)

text \<open>The offset up to which the first \<open>k\<close> segments reach.\<close>

definition reach_of :: "Segment list \<Rightarrow> nat \<Rightarrow> int" where
  "reach_of segs k = (if k = 0 then - 1 else Segment_NextOffset (segs ! (k - 1)))"

lemma age_loop_reach:
  "age_loop cfg now segs c = (let k = length (takeWhile (expired cfg now) segs) in if k = 0 then c else reach_of segs k)"
proof (induction segs arbitrary: c)
  case (Cons s segs)
  then show ?case by (cases "takeWhile (expired cfg now) segs") (auto simp: reach_of_def Let_def)
qed simp

lemma sum_list_sizes_nonneg: "0 \<le> (\<Sum>seg \<leftarrow> segs. int (Segment_Size seg))"
  by (induction segs) auto

lemma size_loop_reach:
  assumes "\<forall>i < length segs. \<forall>j < i. Segment_NextOffset (segs ! j) < Segment_NextOffset (segs ! i)"
    "(\<Sum>seg \<leftarrow> segs. int (Segment_Size seg)) \<le> totalB" "totalB \<le> max_i64"
  shows "size_loop limit totalB segs c = (let k = size_count limit totalB segs in if k = 0 then c else max c (reach_of segs k))"
  using assms
proof (induction segs arbitrary: totalB c)
  case (Cons s segs)
  let ?t = "totalB - int (Segment_Size s)"
  have w: "i64 ?t = ?t"
    using Cons.prems(2,3) sum_list_sizes_nonneg [of segs] by (intro i64_id) auto
  have mono: "\<forall>i < length segs. \<forall>j < i. Segment_NextOffset (segs ! j) < Segment_NextOffset (segs ! i)"
    using Cons.prems(1) by fastforce
  have IH: "size_loop limit ?t segs c = (let k = size_count limit ?t segs in if k = 0 then c else max c (reach_of segs k))" for c
    using Cons.IH [OF mono, of ?t c] Cons.prems(2,3) by simp
  have "Segment_NextOffset s < Segment_NextOffset (segs ! (k - 1))" if "0 < k" "k \<le> length segs" for k
    using Cons.prems(1) [rule_format, of k 0] that by auto
  from this [of "size_count limit ?t segs"] show ?case
    using w IH size_count_le [of limit ?t segs]
    by (cases "size_count limit ?t segs = 0") (auto simp: reach_of_def Let_def nth_Cons' max_def)
qed simp

lemma foldl_i64_sum:
  assumes "0 \<le> c" "c + (\<Sum>seg \<leftarrow> segs. int (Segment_Size seg)) \<le> max_i64"
  shows "foldl (\<lambda>t seg. i64 (t + int (Segment_Size seg))) c segs = c + (\<Sum>seg \<leftarrow> segs. int (Segment_Size seg))"
  using assms
proof (induction segs arbitrary: c)
  case (Cons s segs)
  have "i64 (c + int (Segment_Size s)) = c + int (Segment_Size s)"
    using Cons.prems sum_list_sizes_nonneg [of segs] by (intro i64_id) auto
  then show ?case using Cons.IH [of "c + int (Segment_Size s)"] Cons.prems by (simp add: algebra_simps)
qed simp

lemma delete_loop_exact:
  assumes "log_rep l w bss cur" "w_plan w = []" "m \<le> length bss"
    "0 < m \<longrightarrow> sg_baseOffset (lg_segments l ! m) \<le> cutoff"
    "m < length bss \<longrightarrow> cutoff < sg_baseOffset (lg_segments l ! Suc m)"
  shows "\<exists>w'. delete_loop cutoff (lg_segments l) n w = (None, n + m, drop m (lg_segments l), w') \<and> w_plan w' = [] \<and>
    log_rep (l\<lparr>lg_segments := drop m (lg_segments l), lg_logStart := sg_baseOffset (lg_segments l ! m)\<rparr>) w' (drop m bss) cur"
  using assms
proof (induction m arbitrary: l w bss n)
  case 0
  let ?l = "l\<lparr>lg_logStart := sg_baseOffset (lg_segments l ! 0)\<rparr>"
  have n: "length (lg_segments l) = Suc (length bss)" "sg_baseOffset (lg_segments l ! 0) = lg_logStart l"
    using log_rep_nth(2,3) [OF 0(1), of 0] 0(1) by (auto simp: log_rep_def)
  have "delete_loop cutoff (lg_segments l) n w = (None, n, lg_segments l, w)"
  proof (cases bss)
    case Nil
    then obtain a where "lg_segments l = [a]" using n(1) by (auto simp: length_Suc_conv)
    then show ?thesis by simp
  next
    case (Cons b bss')
    then obtain s t r where "lg_segments l = s # t # r" using n(1) by (auto simp: length_Suc_conv)
    then show ?thesis using 0(5) Cons by simp
  qed
  then show ?case using 0(1,2) n(2) log_rep_cong [of ?l l] by simp
next
  case (Suc m)
  have n: "length (lg_segments l) = Suc (length bss)"
    using log_rep_nth(2) [OF Suc.prems(1), of 0] Suc.prems(1) by (auto simp: log_rep_def)
  then obtain s t r where segs: "lg_segments l = s # t # r" using Suc.prems(3) by (cases bss) (auto simp: length_Suc_conv)
  have "sg_baseOffset t \<le> sg_baseOffset (lg_segments l ! Suc m)"
    using log_rep_bases_mono [OF Suc.prems(1), of 1 "Suc m"] n Suc.prems(3) segs by simp
  then have t: "\<not> sg_baseOffset t > cutoff" using Suc.prems(4) by simp
  obtain s' w1 where D: "Segment_Delete s w = (None, s', w1)" "w_plan w1 = []"
    "log_rep (l\<lparr>lg_segments := t # r, lg_logStart := sg_baseOffset t\<rparr>) w1 (tl bss) cur" "bss \<noteq> []"
    using delete_first [OF Suc.prems(1) segs Suc.prems(2)] by metis
  have "m \<le> length (tl bss)" "0 < m \<longrightarrow> sg_baseOffset ((t # r) ! m) \<le> cutoff"
    "m < length (tl bss) \<longrightarrow> cutoff < sg_baseOffset ((t # r) ! Suc m)"
    using Suc.prems(3-5) segs D(4) by (auto simp: less_diff_conv)
  then obtain w' where "delete_loop cutoff (t # r) (n + 1) w1 = (None, n + 1 + m, drop m (t # r), w')" "w_plan w' = []"
    "log_rep (l\<lparr>lg_segments := drop m (t # r), lg_logStart := sg_baseOffset ((t # r) ! m)\<rparr>) w' (drop m (tl bss)) cur"
    using Suc.IH [OF D(3,2), of "n + 1"] by auto
  then show ?case using t D(1,4) segs by (auto simp: drop_Suc)
qed

lemma sweep_cutoff_eq:
  fixes cfg :: RetentionConfig and now :: int
  assumes "log_rep l w bss cur" "log_bytes l \<le> max_i64"
  defines "P \<equiv> archived_prefix cfg l" and "k \<equiv> sweep_count cfg now l"
  shows "sweep_cutoff cfg now l (butlast (lg_segments l)) = (if k = 0 then - 1 else sg_baseOffset (lg_segments l ! k))"
proof -
  note nth = log_rep_nth [OF assms(1)]
  have len: "length P < length (lg_segments l)"
    using archived_prefix_le [of cfg l] assms(1) by (cases "lg_segments l") (auto simp: P_def log_rep_def)
  have P: "P ! j = lg_segments l ! j" if "j < length P" for j
    using that len by (auto simp: P_def archived_prefix_def takeWhile_nth nth_butlast split: option.splits)
  have reach: "reach_of P j = (if j = 0 then - 1 else sg_baseOffset (lg_segments l ! j))" if "j \<le> length P" for j
    using that P [of "j - 1"] nth(4) [of "j - 1"] len by (auto simp: reach_of_def Segment_NextOffset_def)
  have lt: "Segment_NextOffset (P ! i) < Segment_NextOffset (P ! j)" if "i < j" "j < length P" for i j
    using that P nth(4) [of i] nth(4) [of j] log_rep_bases_mono [OF assms(1), of "Suc i" j] len
    by (auto simp: Segment_NextOffset_def)
  have mono: "reach_of P i \<le> reach_of P j" if "i \<le> j" "j \<le> length P" for i j
    using that reach log_rep_bases_mono [OF assms(1), of i j] len seg_rep_bounds [OF nth(1) [of j]] by auto
  have sum: "(\<Sum>seg \<leftarrow> P. int (Segment_Size seg)) \<le> log_bytes l"
  proof -
    have "P = take (length P) (lg_segments l)" using P len by (intro nth_equalityI) auto
    then have "log_bytes l = (\<Sum>seg \<leftarrow> P @ drop (length P) (lg_segments l). int (Segment_Size seg))"
      unfolding log_bytes_def by (metis append_take_drop_id)
    then show ?thesis using sum_list_sizes_nonneg [of "drop (length P) (lg_segments l)"] by simp
  qed
  have tot: "total_size (AllSegments l) = log_bytes l"
    using foldl_i64_sum [of 0 "lg_segments l"] assms(2) by (simp add: total_size_def AllSegments_def log_bytes_def)
  define ka where "ka = length (takeWhile (expired cfg now) P)"
  define ks where "ks = size_count (rc_RetentionBytes cfg) (log_bytes l) P"
  have le: "ka \<le> length P" "ks \<le> length P" using size_count_le by (auto simp: ka_def ks_def length_takeWhile_le)
  have age: "age_loop cfg now P (- 1) = reach_of P ka"
    by (simp add: age_loop_reach ka_def Let_def reach_of_def)
  have size: "size_loop (rc_RetentionBytes cfg) (log_bytes l) P c = (if ks = 0 then c else max c (reach_of P ks))" for c
    using size_loop_reach [of P "log_bytes l"] lt sum assms(2) by (simp add: ks_def Let_def)
  have k: "k = (if rc_RetentionBytes cfg > 0 then max ka ks else ka)"
    by (simp add: k_def sweep_count_def ka_def ks_def P_def)
  have "sweep_cutoff cfg now l (butlast (lg_segments l)) =
    (if 0 < rc_RetentionBytes cfg then (if ks = 0 then reach_of P ka else max (reach_of P ka) (reach_of P ks)) else reach_of P ka)"
    by (simp add: sweep_cutoff_def deletable_prefix Let_def P_def [symmetric] tot age size)
  moreover have "reach_of P k = (if 0 < rc_RetentionBytes cfg then max (reach_of P ka) (reach_of P ks) else reach_of P ka)"
    using mono [of ka ks] mono [of ks ka] le k by (cases "ka \<le> ks") auto
  moreover have "ks = 0 \<Longrightarrow> max (reach_of P ka) (reach_of P ks) = reach_of P ka"
    using mono [of ks ka] le by simp
  ultimately have "sweep_cutoff cfg now l (butlast (lg_segments l)) = reach_of P k" by simp
  then show ?thesis using reach [of k] le k by simp
qed

lemma sweep_log_spec:
  fixes cfg :: RetentionConfig and now :: int
  assumes "log_rep l w bss cur" "w_plan w = []" "log_bytes l \<le> max_i64"
  defines "k \<equiv> sweep_count cfg now l"
  obtains w' where "sweep_log cfg now l w =
      (None, l\<lparr>lg_segments := drop k (lg_segments l), lg_logStart := sg_baseOffset (lg_segments l ! k)\<rparr>, w')"
    "log_rep (l\<lparr>lg_segments := drop k (lg_segments l), lg_logStart := sg_baseOffset (lg_segments l ! k)\<rparr>) w' (drop k bss) cur"
    "w_plan w' = []" "k \<le> length bss"
proof -
  have ne: "lg_segments l \<noteq> []" and b0: "sg_baseOffset (lg_segments l ! 0) = lg_logStart l"
    and len: "length (lg_segments l) = Suc (length bss)"
    using log_rep_nth(2,3) [OF assms(1), of 0] assms(1) by (auto simp: log_rep_def)
  have kle: "k \<le> length bss"
    using sweep_count_le [of cfg now l] archived_prefix_le [of cfg l] len by (simp add: k_def)
  show ?thesis
  proof (cases "k = 0")
    case True
    have "l\<lparr>lg_segments := drop 0 (lg_segments l), lg_logStart := sg_baseOffset (lg_segments l ! 0)\<rparr> = l"
      using b0 by simp
    moreover have "sweep_log cfg now l w = (None, l, w)"
      using sweep_cutoff_eq [OF assms(1,3), of cfg now] True ne
      by (simp add: sweep_log_def SealedSegments_def Let_def k_def)
    ultimately show ?thesis using that [of w] True assms(1,2) by simp
  next
    case False
    let ?c = "sg_baseOffset (lg_segments l ! k)"
    have kl: "k < length (lg_segments l)" using kle len by simp
    have c0: "0 \<le> ?c" using seg_rep_bounds [OF log_rep_nth(1) [OF assms(1) kl]] by simp
    have nxt: "k < length bss \<longrightarrow> ?c < sg_baseOffset (lg_segments l ! Suc k)"
      using log_rep_nth(4) [OF assms(1) kl] len by auto
    obtain w' where D: "delete_loop ?c (lg_segments l) 0 w = (None, k, drop k (lg_segments l), w')" "w_plan w' = []"
      "log_rep (l\<lparr>lg_segments := drop k (lg_segments l), lg_logStart := ?c\<rparr>) w' (drop k bss) cur"
      using delete_loop_exact [OF assms(1,2) kle, of ?c 0] nxt by auto
    have "butlast (lg_segments l) \<noteq> []" using False kle len by (cases "lg_segments l") auto
    then have "sweep_log cfg now l w = (None, l\<lparr>lg_segments := drop k (lg_segments l), lg_logStart := ?c\<rparr>, w')"
      using sweep_cutoff_eq [OF assms(1,3), of cfg now] False ne c0 D(1) kl
      by (simp add: sweep_log_def SealedSegments_def Let_def k_def DeleteSegmentsBefore_def hd_drop_conv_nth)
    then show ?thesis using that [of w'] D kle by simp
  qed
qed


section \<open>The archive's veto\<close>

text \<open>Offsets as the open logs have them, also after a sealed segment was truncated by recovery.\<close>

fun segs_ordered :: "Segment list \<Rightarrow> bool" where
  "segs_ordered (s # t # r) \<longleftrightarrow>
     sg_baseOffset s < sg_baseOffset t \<and> sg_nextOffset s \<le> sg_baseOffset t \<and> segs_ordered (t # r)"
| "segs_ordered _ \<longleftrightarrow> True"

lemma segs_ordered_append:
  "segs_ordered (as @ r # rs) \<Longrightarrow>
   segs_ordered (r # rs) \<and> (\<forall>s \<in> set as. sg_baseOffset s < sg_baseOffset r \<and> sg_nextOffset s \<le> sg_baseOffset r)"
proof (induction as)
  case (Cons a as)
  then show ?case by (cases as) auto
qed simp

lemma age_loop_mem: "age_loop cfg now segs c \<in> insert c (Segment_NextOffset ` set segs)"
  by (induction segs arbitrary: c) auto

lemma size_loop_mem: "size_loop limit t segs c \<in> insert c (Segment_NextOffset ` set segs)"
proof (induction segs arbitrary: t c)
  case (Cons s segs)
  show ?case
    using Cons [of "i64 (t - int (Segment_Size s))" c] Cons [of "i64 (t - int (Segment_Size s))" "Segment_NextOffset s"]
    by auto
qed simp

lemma sweep_cutoff_mem:
  "sweep_cutoff cfg now l (butlast (lg_segments l)) \<in> insert (- 1) (Segment_NextOffset ` set (archived_prefix cfg l))"
  using age_loop_mem [of cfg now "archived_prefix cfg l" "- 1"]
    size_loop_mem [of "rc_RetentionBytes cfg" "total_size (AllSegments l)" "archived_prefix cfg l"
      "age_loop cfg now (archived_prefix cfg l) (- 1)"]
  by (auto simp: sweep_cutoff_def deletable_prefix Let_def)

lemma archived_prefix_split:
  "lg_segments l \<noteq> [] \<Longrightarrow> \<exists>r rs. lg_segments l = archived_prefix cfg l @ r # rs"
proof -
  assume ne: "lg_segments l \<noteq> []"
  obtain ys where "butlast (lg_segments l) = archived_prefix cfg l @ ys"
  proof (cases "rc_Archived cfg")
    case None
    then show ?thesis using that [of "[]"] by (simp add: archived_prefix_def)
  next
    case (Some arch)
    then show ?thesis
      using that [of "dropWhile (arch (lg_topic l) (lg_partition l)) (butlast (lg_segments l))"]
      by (simp add: archived_prefix_def)
  qed
  then have "lg_segments l = archived_prefix cfg l @ (ys @ [last (lg_segments l)])"
    using append_butlast_last_id [OF ne] by simp
  then show ?thesis by (cases "ys @ [last (lg_segments l)]") auto
qed

lemma Segment_Close_touches: "Segment_Close s w = (e, s', w') \<Longrightarrow>
    touches P w w' \<and> sg_dir s' = sg_dir s \<and> sg_baseOffset s' = sg_baseOffset s"
  by (auto simp: Segment_Close_def Index_Close_def TimeIndex_Close_def Let_def
      split: option.splits prod.splits if_splits
      intro: touches_os_ctl touches_trans [OF touches_os_ctl touches_os_ctl]
        touches_trans [OF touches_os_ctl touches_trans [OF touches_os_ctl touches_os_ctl]])

lemma remove_files_alters: "remove_files names w = (e, w') \<Longrightarrow> set names \<subseteq> P \<Longrightarrow> alters P w w'"
  by (induction names arbitrary: w)
    (auto split: prod.splits bool.splits if_splits intro: alters_os_remove alters_trans [OF alters_os_remove])

lemma Segment_Delete_alters: "Segment_Delete s w = (e, s', w') \<Longrightarrow> alters (seg_files s) w w'"
  by (auto simp: Segment_Delete_def simp del: remove_files.simps split: prod.splits option.splits
      dest!: Segment_Close_touches [where P = "seg_files s"] remove_files_alters [where P = "seg_files s"]
      intro: touches_alters alters_trans [OF touches_alters])

lemma delete_loop_alters:
  assumes "delete_loop c segs n w = (e, m, segs', w')" "segs = as @ r # rs" "segs_ordered segs" "c \<le> sg_baseOffset r"
  shows "alters (\<Union>s \<in> set as. seg_files s) w w'"
  using assms
proof (induction as arbitrary: segs n w)
  case Nil
  then show ?case by (cases rs) auto
next
  case (Cons s as)
  let ?U = "\<Union>s \<in> set (s # as). seg_files s"
  obtain t ts where ts: "as @ r # rs = t # ts" by (cases as) auto
  show ?case
  proof (cases "sg_baseOffset t > c")
    case True
    then show ?thesis using Cons.prems(1,2) ts by simp
  next
    case False
    obtain e1 s1 w1 where D: "Segment_Delete s w = (e1, s1, w1)" by (cases "Segment_Delete s w") auto
    have a1: "alters ?U w w1" by (rule alters_mono [OF Segment_Delete_alters [OF D]]) auto
    show ?thesis
    proof (cases e1)
      case None
      then have d: "delete_loop c (t # ts) (n + 1) w1 = (e, m, segs', w')"
        using Cons.prems(1,2) ts False D by simp
      have "segs_ordered (t # ts)" using Cons.prems(2,3) ts by simp
      then have "alters (\<Union>s \<in> set as. seg_files s) w1 w'"
        by (rule Cons.IH [OF d ts [symmetric] _ Cons.prems(4)])
      then show ?thesis by (intro alters_trans [OF a1] alters_mono [of _ w1 w' ?U]) auto
    next
      case (Some x)
      then show ?thesis using a1 Cons.prems(1,2) ts False D by simp
    qed
  qed
qed

section \<open>Properties\<close>

lemma sum_take_drop: "(\<Sum>x \<leftarrow> xs. f x) = (\<Sum>x \<leftarrow> take k xs. f x) + (\<Sum>x \<leftarrow> drop k xs. f x :: int)"
  by (metis append_take_drop_id map_append sum_list_append)

lemma sum_drop_mono: "j \<le> k \<Longrightarrow> (\<Sum>seg \<leftarrow> drop k segs. int (Segment_Size seg)) \<le> (\<Sum>seg \<leftarrow> drop j segs. int (Segment_Size seg))"
  using sum_take_drop [of "\<lambda>seg. int (Segment_Size seg)" "drop j segs" "k - j"] sum_list_sizes_nonneg [of "take (k - j) (drop j segs)"]
  by simp

lemma size_count_done:
  "size_count limit t segs < length segs \<Longrightarrow>
   t - (\<Sum>seg \<leftarrow> take (size_count limit t segs) segs. int (Segment_Size seg)) \<le> limit"
  by (induction limit t segs rule: size_count.induct) (auto split: if_splits simp: diff_diff_eq)


definition tight_cfg :: RetentionConfig where
  "tight_cfg = \<lparr>rc_RetentionMS = 1, rc_RetentionBytes = 10, rc_Tick = 0, rc_Archived = None\<rparr>"

lemma sample_log_bytes: "log_bytes sample_log \<le> max_i64" "w_plan sample_w = []"
  by (simp_all add: log_bytes_def sample_log_def sample_seg_def Segment_Size_def sample_world_def)


lemma sweep_alters_archived:
  assumes "rc_Archived cfg = Some arch" "segs_ordered (lg_segments l)" "\<forall>seg \<in> set (lg_segments l). 0 \<le> sg_baseOffset seg"
    "sweep_log cfg now l w = (e, l', w')"
  shows "alters (\<Union>seg \<in> {seg \<in> set (butlast (lg_segments l)). arch (lg_topic l) (lg_partition l) seg}. seg_files seg) w w'"
proof (cases "butlast (lg_segments l) = [] \<or> sweep_cutoff cfg now l (butlast (lg_segments l)) < 0")
  case True
  then show ?thesis using assms(4) by (auto simp: sweep_log_def SealedSegments_def Let_def split: if_splits)
next
  case False
  let ?P = "archived_prefix cfg l" and ?c = "sweep_cutoff cfg now l (butlast (lg_segments l))"
  obtain r rs where split: "lg_segments l = ?P @ r # rs" using archived_prefix_split [of l cfg] False by fastforce
  have "?c \<le> sg_baseOffset r"
    using sweep_cutoff_mem [of cfg now l] segs_ordered_append [of ?P r rs] assms(2,3) split False
    by (auto simp: Segment_NextOffset_def)
  moreover obtain e1 m segs' w1 where D: "delete_loop ?c (lg_segments l) 0 w = (e1, m, segs', w1)"
    by (cases "delete_loop ?c (lg_segments l) 0 w") auto
  ultimately have "alters (\<Union>s \<in> set ?P. seg_files s) w w1"
    using delete_loop_alters [OF D split assms(2)] by simp
  moreover have "w1 = w'"
    using assms(4) False D
    by (auto simp: sweep_log_def SealedSegments_def Let_def DeleteSegmentsBefore_def
        split: option.splits log_err.splits if_splits prod.splits)
  moreover have "set ?P \<subseteq> {seg \<in> set (butlast (lg_segments l)). arch (lg_topic l) (lg_partition l) seg}"
    using assms(1) by (auto simp: archived_prefix_def dest: set_takeWhileD)
  ultimately show ?thesis by (meson alters_mono UN_mono subset_refl)
qed

text \<open>
  C26: no record is deleted before it is archived. With cold storage on, whatever the age and size
  rules say and whichever file operations fail, a sweep touches no file but those of sealed
  segments the archive holds.
\<close>

theorem retention_never_deletes_unarchived:
  assumes "rc_Archived cfg = Some arch" "segs_ordered (lg_segments l)" "\<forall>seg \<in> set (lg_segments l). 0 \<le> sg_baseOffset seg"
    "sweep_log cfg now l w = (e, l', w')"
  shows "alters (\<Union>seg \<in> {seg \<in> set (butlast (lg_segments l)). arch (lg_topic l) (lg_partition l) seg}. seg_files seg) w w'"
  by (rule sweep_alters_archived [OF assms])

definition veto_cfg :: RetentionConfig where
  "veto_cfg = \<lparr>rc_RetentionMS = 1, rc_RetentionBytes = 10, rc_Tick = 0, rc_Archived = Some (\<lambda>t p s. False)\<rparr>"

definition two_log :: Log where
  "two_log = sample_log\<lparr>lg_segments := [(sample_seg 61 3 [])\<lparr>sg_sealed := True\<rparr>, (sample_seg 0 3 [])\<lparr>sg_baseOffset := 3\<rparr>]\<rparr>"

lemma two_log_ordered: "segs_ordered (lg_segments two_log)" "\<forall>seg \<in> set (lg_segments two_log). 0 \<le> sg_baseOffset seg"
  by (simp_all add: two_log_def)

theorem retention_never_deletes_unarchived_witness:
  "alters {} sample_w (snd (snd (sweep_log veto_cfg 999999999 two_log sample_w)))"
proof -
  let ?r = "sweep_log veto_cfg 999999999 two_log sample_w"
  have "rc_Archived veto_cfg = Some (\<lambda>t p s. False)" by (simp add: veto_cfg_def)
  from retention_never_deletes_unarchived
    [OF this two_log_ordered, of 999999999 sample_w "fst ?r" "fst (snd ?r)" "snd (snd ?r)"]
  show ?thesis by (simp only: prod.collapse) simp
qed

end
