(* ===== verification/Sha256.thy ===== *)
theory Sha256
  imports Kw_Prelude
begin

text \<open>
  SHA-256 (FIPS 180-4) and HMAC (RFC 2104), which the archive and the SCRAM login take from Go's
  \<^verbatim>\<open>crypto/sha256\<close> and \<^verbatim>\<open>crypto/hmac\<close>. The definitions compute; a published test vector is checked.
\<close>

unbundle bit_operations_syntax

text \<open>
  The constants are what the standard says they are: the first 32 bits of the fractional parts of the cube
  roots of the first 64 primes, and of the square roots of the first eight. \<open>iroot e b r n\<close> finds the
  remaining \<open>b\<close> bits of the integer \<open>e\<close>-th root of \<open>n\<close>, most significant first.
\<close>

fun iroot :: "nat \<Rightarrow> nat \<Rightarrow> int \<Rightarrow> int \<Rightarrow> int" where
  "iroot e 0 r n = r"
| "iroot e (Suc b) r n = iroot e b (let r' = r + 2 ^ b in if r' ^ e \<le> n then r' else r) n"

definition sha_primes :: "int list" where
  "sha_primes = [2, 3, 5, 7, 11, 13, 17, 19, 23, 29, 31, 37, 41, 43, 47, 53, 59, 61, 67, 71, 73, 79,
     83, 89, 97, 101, 103, 107, 109, 113, 127, 131, 137, 139, 149, 151, 157, 163, 167, 173, 179, 181, 191, 193,
     197, 199, 211, 223, 227, 229, 233, 239, 241, 251, 257, 263, 269, 271, 277, 281, 283, 293, 307, 311]"

definition root_bits :: "nat \<Rightarrow> int \<Rightarrow> 32 word" where
  "root_bits e p = word_of_int (iroot e 35 0 (p * 2 ^ (32 * e)))"

definition sha_k :: "32 word list" where
  "sha_k = map (root_bits 3) sha_primes"

definition sha_init :: "32 word list" where
  "sha_init = map (root_bits 2) (take 8 sha_primes)"

abbreviation sha_ch :: "32 word \<Rightarrow> 32 word \<Rightarrow> 32 word \<Rightarrow> 32 word" where
  "sha_ch x y z \<equiv> (x AND y) XOR (NOT x AND z)"

abbreviation sha_maj :: "32 word \<Rightarrow> 32 word \<Rightarrow> 32 word \<Rightarrow> 32 word" where
  "sha_maj x y z \<equiv> (x AND y) XOR (x AND z) XOR (y AND z)"

definition sha_rot3 :: "nat \<Rightarrow> nat \<Rightarrow> nat \<Rightarrow> 32 word \<Rightarrow> 32 word" where
  "sha_rot3 a b c x = word_rotr a x XOR word_rotr b x XOR word_rotr c x"

definition sha_sig :: "nat \<Rightarrow> nat \<Rightarrow> nat \<Rightarrow> 32 word \<Rightarrow> 32 word" where
  "sha_sig a b c x = word_rotr a x XOR word_rotr b x XOR drop_bit c x"

text \<open>The message schedule, newest word first.\<close>

fun sha_extend :: "nat \<Rightarrow> 32 word list \<Rightarrow> 32 word list" where
  "sha_extend 0 ws = ws"
| "sha_extend (Suc n) ws =
     sha_extend n ((sha_sig 17 19 10 (ws ! 1) + ws ! 6 + sha_sig 7 18 3 (ws ! 14) + ws ! 15) # ws)"

fun sha_round :: "32 word list \<Rightarrow> 32 word \<times> 32 word \<Rightarrow> 32 word list" where
  "sha_round [a, b, c, d, e, f, g, h] (k, w) =
     (let t1 = h + sha_rot3 6 11 25 e + sha_ch e f g + k + w; t2 = sha_rot3 2 13 22 a + sha_maj a b c
      in [t1 + t2, a, b, c, d + t1, e, f, g])"
| "sha_round st _ = st"

fun be_words :: "bytes \<Rightarrow> 32 word list" where
  "be_words (a # b # c # d # r) = word_of_int (be_uint [a, b, c, d]) # be_words r"
| "be_words _ = []"

definition sha_block :: "32 word list \<Rightarrow> bytes \<Rightarrow> 32 word list" where
  "sha_block st block =
     (let ws = rev (sha_extend 48 (rev (be_words block)))
      in map2 (+) st (foldl sha_round st (zip sha_k ws)))"

definition sha_pad :: "bytes \<Rightarrow> bytes" where
  "sha_pad m = m @ [0x80] @ replicate ((119 - length m mod 64) mod 64) 0 @ put_be 8 (8 * int (length m))"

function sha_blocks :: "32 word list \<Rightarrow> bytes \<Rightarrow> 32 word list" where
  "sha_blocks st m = (if m = [] then st else sha_blocks (sha_block st (take 64 m)) (drop 64 m))"
  by pat_completeness auto
termination by (relation "measure (\<lambda>(st, m). length m)") auto

definition sha256 :: "bytes \<Rightarrow> bytes" where
  "sha256 m = concat (map (\<lambda>w. put_be 4 (uint w)) (sha_blocks sha_init (sha_pad m)))"

text \<open>\<^verbatim>\<open>hmac.New(sha256.New, key)\<close> on one message.\<close>

definition hmac_sha256 :: "bytes \<Rightarrow> bytes \<Rightarrow> bytes" where
  "hmac_sha256 key m =
     (let k = (if length key > 64 then sha256 key else key); k = k @ replicate (64 - length k) 0
      in sha256 (map (\<lambda>b. b XOR 0x5c) k @ sha256 (map (\<lambda>b. b XOR 0x36) k @ m)))"

text \<open>Strings are byte strings in Go.\<close>

definition string_bytes :: "string \<Rightarrow> bytes" where
  "string_bytes s = map (\<lambda>c. word_of_nat (of_char c)) s"

lemma string_bytes_inject [simp]: "string_bytes s = string_bytes t \<longleftrightarrow> s = t"
proof
  have inj: "inj (\<lambda>c. word_of_nat (of_char c) :: byte)"
  proof (rule injI)
    fix c d :: char
    assume "(word_of_nat (of_char c) :: byte) = word_of_nat (of_char d)"
    then have "unat (word_of_nat (of_char c) :: byte) = unat (word_of_nat (of_char d) :: byte)" by simp
    then have "(of_char c :: nat) mod 256 = of_char d mod 256" by (simp add: unat_of_nat)
    then show "c = d" by simp
  qed
  show "string_bytes s = string_bytes t \<Longrightarrow> s = t" unfolding string_bytes_def using inj by (simp add: inj_map_eq_map)
qed simp

lemma sha256_abc: "hex_encode (sha256 (string_bytes ''abc'')) = ''ba7816bf8f01cfea414140de5dae2223b00361a396177a9cb410ff61f20015ad''"
  by code_simp

end
