(* ===== verification/Archive_Manifest.thy ===== *)
theory Archive_Manifest
  imports Group_Coordinator Retention Sha256
begin

text \<open>
  The archive manifest (\<^verbatim>\<open>internal/tiering/manifest.go\<close>): which segments are in cold storage, which
  uploads are in flight, the keys under which segments are stored and the signatures that bind a
  segment to its owner. Shown here: the archived ranges of a partition never overlap, a recorded
  upload is found again after a restart, and with the manifest as the retention sweeper's veto every
  file the sweep removes belongs to a segment that the manifest holds completely.
\<close>

section \<open>Entries\<close>

record SegmentEntry =
  ar_Topic :: string
  ar_Partition :: int
  ar_BaseOffset :: int
  ar_NextOffset :: int
  ar_SizeBytes :: int
  ar_SHA256 :: string
  ar_S3Key :: string
  ar_UploadedAt :: int
  ar_TenantID :: string
  ar_HMACSignature :: string

record PendingUploadPart =
  pp_PartNumber :: int
  pp_ETag :: string
  pp_SizeBytes :: int

record PendingUpload =
  pu_Topic :: string
  pu_Partition :: int
  pu_BaseOffset :: int
  pu_NextOffset :: int
  pu_TenantID :: string
  pu_SHA256 :: string
  pu_S3Key :: string
  pu_UploadID :: string
  pu_Parts :: "PendingUploadPart list"
  pu_StartedAt :: int

text \<open>A null in the pending file decodes to a nil pointer (\<open>None\<close>), which a later dereference panics on.\<close>

record Manifest =
  mf_dir :: string
  mf_completed :: "SegmentEntry list"
  mf_pending :: "(string \<times> PendingUpload option) list"

datatype manifest_err = MfMkdir | MfRead | MfWrite | MfPanic

section \<open>The files\<close>

text \<open>\<^verbatim>\<open>omitempty\<close>: an empty string or a zero is not written.\<close>

definition opt_str :: "string \<Rightarrow> string \<Rightarrow> (string \<times> json) list" where
  "opt_str k s = (if s = [] then [] else [(k, JStr s)])"

definition enc_entry :: "SegmentEntry \<Rightarrow> json" where
  "enc_entry e = JObj ([(''topic'', JStr (ar_Topic e)), (''partition'', JNum (ar_Partition e)),
     (''base_offset'', JNum (ar_BaseOffset e)), (''next_offset'', JNum (ar_NextOffset e)),
     (''size_bytes'', JNum (ar_SizeBytes e)), (''sha256'', JStr (ar_SHA256 e)), (''s3_key'', JStr (ar_S3Key e)),
     (''uploaded_at'', JTime (ar_UploadedAt e))] @ opt_str ''tenant_id'' (ar_TenantID e) @
     opt_str ''hmac_signature'' (ar_HMACSignature e))"

definition dec_entry :: "json \<Rightarrow> SegmentEntry option" where
  "dec_entry j =
     (case fields_of j of
        None \<Rightarrow> None
      | Some fs \<Rightarrow>
          (case (dec_str (jfield ''topic'' fs), dec_int_w 32 (jfield ''partition'' fs), dec_int_w 64 (jfield ''base_offset'' fs),
                 dec_int_w 64 (jfield ''next_offset'' fs), dec_int_w 64 (jfield ''size_bytes'' fs), dec_str (jfield ''sha256'' fs),
                 dec_str (jfield ''s3_key'' fs), dec_time (jfield ''uploaded_at'' fs), dec_str (jfield ''tenant_id'' fs),
                 dec_str (jfield ''hmac_signature'' fs)) of
             (Some t, Some p, Some b, Some n, Some z, Some h, Some k, Some u, Some o', Some g) \<Rightarrow>
               Some \<lparr>ar_Topic = t, ar_Partition = p, ar_BaseOffset = b, ar_NextOffset = n, ar_SizeBytes = z, ar_SHA256 = h,
                     ar_S3Key = k, ar_UploadedAt = u, ar_TenantID = o', ar_HMACSignature = g\<rparr>
           | _ \<Rightarrow> None))"

definition enc_part :: "PendingUploadPart \<Rightarrow> json" where
  "enc_part p = JObj [(''part_number'', JNum (pp_PartNumber p)), (''etag'', JStr (pp_ETag p)), (''size_bytes'', JNum (pp_SizeBytes p))]"

definition dec_part :: "json \<Rightarrow> PendingUploadPart option" where
  "dec_part j =
     (case fields_of j of
        None \<Rightarrow> None
      | Some fs \<Rightarrow>
          (case (dec_int_w 32 (jfield ''part_number'' fs), dec_str (jfield ''etag'' fs), dec_int_w 64 (jfield ''size_bytes'' fs)) of
             (Some n, Some t, Some z) \<Rightarrow> Some \<lparr>pp_PartNumber = n, pp_ETag = t, pp_SizeBytes = z\<rparr>
           | _ \<Rightarrow> None))"

definition enc_pending :: "PendingUpload option \<Rightarrow> json" where
  "enc_pending po =
     (case po of
        None \<Rightarrow> JNull
      | Some p \<Rightarrow>
          JObj ([(''topic'', JStr (pu_Topic p)), (''partition'', JNum (pu_Partition p)), (''base_offset'', JNum (pu_BaseOffset p))] @
            (if pu_NextOffset p = 0 then [] else [(''next_offset'', JNum (pu_NextOffset p))]) @
            opt_str ''tenant_id'' (pu_TenantID p) @ opt_str ''sha256'' (pu_SHA256 p) @
            [(''s3_key'', JStr (pu_S3Key p)), (''upload_id'', JStr (pu_UploadID p)),
             (''parts'', if pu_Parts p = [] then JNull else enc_list enc_part (pu_Parts p)), (''started_at'', JTime (pu_StartedAt p))]))"

definition dec_pending :: "json \<Rightarrow> PendingUpload option option" where
  "dec_pending j =
     (if j = JNull then Some None
      else case fields_of j of
        None \<Rightarrow> None
      | Some fs \<Rightarrow>
          (case (dec_str (jfield ''topic'' fs), dec_int_w 32 (jfield ''partition'' fs), dec_int_w 64 (jfield ''base_offset'' fs),
                 dec_int_w 64 (jfield ''next_offset'' fs), dec_str (jfield ''tenant_id'' fs), dec_str (jfield ''sha256'' fs),
                 dec_str (jfield ''s3_key'' fs), dec_str (jfield ''upload_id'' fs), dec_list dec_part (jfield ''parts'' fs),
                 dec_time (jfield ''started_at'' fs)) of
             (Some t, Some p, Some b, Some n, Some o', Some h, Some k, Some u, Some ps, Some st) \<Rightarrow>
               Some (Some \<lparr>pu_Topic = t, pu_Partition = p, pu_BaseOffset = b, pu_NextOffset = n, pu_TenantID = o', pu_SHA256 = h,
                           pu_S3Key = k, pu_UploadID = u, pu_Parts = ps, pu_StartedAt = st\<rparr>)
           | _ \<Rightarrow> None))"

definition enc_completed :: "SegmentEntry list \<Rightarrow> json" where
  "enc_completed es = JObj [(''format_version'', JNum 1), (''segments'', enc_list enc_entry es)]"

definition dec_completed :: "json \<Rightarrow> SegmentEntry list option" where
  "dec_completed j =
     (case fields_of j of
        None \<Rightarrow> None
      | Some fs \<Rightarrow>
          (case dec_int_w 64 (jfield ''format_version'' fs) of None \<Rightarrow> None | Some _ \<Rightarrow> dec_list dec_entry (jfield ''segments'' fs)))"

definition enc_uploads :: "(string \<times> PendingUpload option) list \<Rightarrow> json" where
  "enc_uploads ps = JObj [(''format_version'', JNum 1), (''pending'', enc_map enc_pending ps)]"

definition dec_uploads :: "json \<Rightarrow> (string \<times> PendingUpload option) list option" where
  "dec_uploads j =
     (case fields_of j of
        None \<Rightarrow> None
      | Some fs \<Rightarrow>
          (case dec_int_w 64 (jfield ''format_version'' fs) of None \<Rightarrow> None | Some _ \<Rightarrow> dec_map dec_pending (jfield ''pending'' fs)))"

text \<open>
  \<^verbatim>\<open>salvageSegments\<close> reads tokens until the string \<^verbatim>\<open>segments\<close>, expects an array and keeps its elements up
  to the first that does not decode. A token is its string, if it is one, with the elements of the array
  it opens, if it opens one.
\<close>

fun dec_prefix :: "(json \<Rightarrow> 'a option) \<Rightarrow> json list \<Rightarrow> 'a list" where
  "dec_prefix f [] = []"
| "dec_prefix f (j # js) = (case f j of None \<Rightarrow> [] | Some x \<Rightarrow> x # dec_prefix f js)"

fun json_tokens :: "json \<Rightarrow> (string option \<times> json list option) list" where
  "json_tokens (JStr s) = [(Some s, None)]"
| "json_tokens (JArr js) = (None, Some js) # concat (map json_tokens js) @ [(None, None)]"
| "json_tokens (JObj kvs) = (None, None) # concat (map (\<lambda>(k, v). (Some k, None) # json_tokens v) kvs) @ [(None, None)]"
| "json_tokens j = [(None, None)]"

fun salvage_tokens :: "(string option \<times> json list option) list \<Rightarrow> SegmentEntry list" where
  "salvage_tokens [] = []"
| "salvage_tokens ((s, _) # ts) =
     (if s = Some ''segments''
      then (case ts of (_, Some js) # _ \<Rightarrow> dec_prefix dec_entry js | _ \<Rightarrow> [])
      else salvage_tokens ts)"

definition salvageSegments :: "doc \<Rightarrow> SegmentEntry list" where
  "salvageSegments d = (case d of JsonDoc j \<Rightarrow> salvage_tokens (json_tokens j) | NotJson js \<Rightarrow> dec_prefix dec_entry js)"

section \<open>Opening and flushing\<close>

definition archive_path :: "Manifest \<Rightarrow> string" where
  "archive_path m = mf_dir m @ ''/archive.json''"

definition pending_path :: "Manifest \<Rightarrow> string" where
  "pending_path m = mf_dir m @ ''/archive_pending.json''"

definition flushCompleted :: "Manifest \<Rightarrow> docs \<Rightarrow> manifest_err option \<times> docs" where
  "flushCompleted m d =
     (case atomicWrite (archive_path m) (enc_completed (mf_completed m)) d of (ok, d) \<Rightarrow> (if ok then None else Some MfWrite, d))"

definition flushPending :: "Manifest \<Rightarrow> docs \<Rightarrow> manifest_err option \<times> docs" where
  "flushPending m d =
     (case atomicWrite (pending_path m) (enc_uploads (mf_pending m)) d of (ok, d) \<Rightarrow> (if ok then None else Some MfWrite, d))"

definition flushBoth :: "Manifest \<Rightarrow> docs \<Rightarrow> manifest_err option \<times> docs" where
  "flushBoth m d = (case flushCompleted m d of (Some e, d) \<Rightarrow> (Some e, d) | (None, d) \<Rightarrow> flushPending m d)"

definition load_completed :: "Manifest \<Rightarrow> docs \<Rightarrow> (manifest_err + Manifest) \<times> docs" where
  "load_completed m d =
     (case ReadFile (archive_path m) d of
        (RdMissing, d) \<Rightarrow> (Inr m, d)
      | (RdError, d) \<Rightarrow> (Inl MfRead, d)
      | (RdDoc raw, d) \<Rightarrow>
          (case (case raw of JsonDoc j \<Rightarrow> dec_completed j | NotJson _ \<Rightarrow> None) of
             Some es \<Rightarrow> (Inr (m\<lparr>mf_completed := es\<rparr>), d)
           | None \<Rightarrow>
               let m = m\<lparr>mf_completed := salvageSegments raw\<rparr>;
                   d = snd (WriteFile (mf_dir m @ ''/archive.json.corrupt'') raw d)
               in case flushCompleted m d of (Some e, d) \<Rightarrow> (Inl e, d) | (None, d) \<Rightarrow> (Inr m, d)))"

definition load_pending :: "Manifest \<Rightarrow> docs \<Rightarrow> (manifest_err + Manifest) \<times> docs" where
  "load_pending m d =
     (case ReadFile (pending_path m) d of
        (RdMissing, d) \<Rightarrow> (Inr m, d)
      | (RdError, d) \<Rightarrow> (Inl MfRead, d)
      | (RdDoc raw, d) \<Rightarrow>
          (case (case raw of JsonDoc j \<Rightarrow> dec_uploads j | NotJson _ \<Rightarrow> None) of
             Some ps \<Rightarrow> (Inr (m\<lparr>mf_pending := ps\<rparr>), d)
           | None \<Rightarrow>
               let m = m\<lparr>mf_pending := []\<rparr>;
                   d = snd (WriteFile (mf_dir m @ ''/archive_pending.json.corrupt'') raw d)
               in case flushPending m d of (Some e, d) \<Rightarrow> (Inl e, d) | (None, d) \<Rightarrow> (Inr m, d)))"

definition manifest_load :: "Manifest \<Rightarrow> docs \<Rightarrow> (manifest_err + Manifest) \<times> docs" where
  "manifest_load m d = (case load_completed m d of (Inl e, d) \<Rightarrow> (Inl e, d) | (Inr m, d) \<Rightarrow> load_pending m d)"

definition OpenManifest :: "string \<Rightarrow> docs \<Rightarrow> (manifest_err + Manifest) \<times> docs" where
  "OpenManifest dataDir d =
     (case MkdirAll d of
        (False, d) \<Rightarrow> (Inl MfMkdir, d)
      | (True, d) \<Rightarrow> manifest_load \<lparr>mf_dir = dataDir @ ''/metadata'', mf_completed = [], mf_pending = []\<rparr> d)"

section \<open>Operations\<close>

definition samePartition :: "SegmentEntry \<Rightarrow> SegmentEntry \<Rightarrow> bool" where
  "samePartition old e \<longleftrightarrow> ar_Topic old = ar_Topic e \<and> ar_Partition old = ar_Partition e"

definition overlaps :: "SegmentEntry \<Rightarrow> SegmentEntry \<Rightarrow> bool" where
  "overlaps old e \<longleftrightarrow> ar_BaseOffset old < ar_NextOffset e \<and> ar_BaseOffset e < ar_NextOffset old"

definition add_entry :: "SegmentEntry \<Rightarrow> SegmentEntry list \<Rightarrow> SegmentEntry list" where
  "add_entry e es =
     filter (\<lambda>old. \<not> samePartition old e \<or> (\<not> overlaps old e \<and> ar_BaseOffset old \<noteq> ar_BaseOffset e)) es @ [e]"

definition AddCompleted :: "SegmentEntry \<Rightarrow> Manifest \<Rightarrow> docs \<Rightarrow> manifest_err option \<times> Manifest \<times> docs" where
  "AddCompleted e m d =
     (let m = m\<lparr>mf_completed := add_entry e (mf_completed m), mf_pending := AList.delete (ar_S3Key e) (mf_pending m)\<rparr> in
      case flushBoth m d of (err, d) \<Rightarrow> (err, m, d))"

definition SetPending :: "PendingUpload \<Rightarrow> Manifest \<Rightarrow> docs \<Rightarrow> manifest_err option \<times> Manifest \<times> docs" where
  "SetPending p m d =
     (let m = m\<lparr>mf_pending := AList.update (pu_S3Key p) (Some p) (mf_pending m)\<rparr> in
      case flushPending m d of (err, d) \<Rightarrow> (err, m, d))"

text \<open>\<^verbatim>\<open>clonePending\<close> dereferences its argument.\<close>

definition GetPending :: "string \<Rightarrow> Manifest \<Rightarrow> manifest_err + PendingUpload option" where
  "GetPending key m =
     (case map_of (mf_pending m) key of None \<Rightarrow> Inr None | Some None \<Rightarrow> Inl MfPanic | Some (Some p) \<Rightarrow> Inr (Some p))"

definition PendingAll :: "Manifest \<Rightarrow> manifest_err + PendingUpload list" where
  "PendingAll m =
     (if None \<in> snd ` set (mf_pending m) then Inl MfPanic else Inr (map (the \<circ> snd) (mf_pending m)))"

definition AbortPending :: "string \<Rightarrow> Manifest \<Rightarrow> docs \<Rightarrow> manifest_err option \<times> Manifest \<times> docs" where
  "AbortPending key m d =
     (let m = m\<lparr>mf_pending := AList.delete key (mf_pending m)\<rparr> in case flushPending m d of (err, d) \<Rightarrow> (err, m, d))"

definition manifest_Lookup :: "string \<Rightarrow> int \<Rightarrow> int \<Rightarrow> Manifest \<Rightarrow> SegmentEntry option" where
  "manifest_Lookup topic part baseOffset m =
     find (\<lambda>e. ar_Topic e = topic \<and> ar_Partition e = part \<and> ar_BaseOffset e = baseOffset) (mf_completed m)"

definition Holds :: "string \<Rightarrow> int \<Rightarrow> int \<Rightarrow> int \<Rightarrow> int \<Rightarrow> Manifest \<Rightarrow> bool" where
  "Holds topic part baseOffset nextOffset sizeBytes m \<longleftrightarrow>
     (case manifest_Lookup topic part baseOffset m of
        None \<Rightarrow> False | Some e \<Rightarrow> ar_NextOffset e \<ge> nextOffset \<and> ar_SizeBytes e \<ge> sizeBytes)"

definition ForgetTopic :: "string \<Rightarrow> Manifest \<Rightarrow> docs \<Rightarrow> manifest_err option \<times> Manifest \<times> docs" where
  "ForgetTopic topic m d =
     (let m = m\<lparr>mf_completed := filter (\<lambda>e. ar_Topic e \<noteq> topic) (mf_completed m)\<rparr> in
      if None \<in> snd ` set (mf_pending m) then (Some MfPanic, m, d)
      else
        let m = m\<lparr>mf_pending := filter (\<lambda>(key, p). pu_Topic (the p) \<noteq> topic) (mf_pending m)\<rparr> in
        case flushBoth m d of (err, d) \<Rightarrow> (err, m, d))"

definition AllForTopic :: "string \<Rightarrow> Manifest \<Rightarrow> SegmentEntry list" where
  "AllForTopic topic m = filter (\<lambda>e. ar_Topic e = topic) (mf_completed m)"

section \<open>Keys and signatures\<close>

definition trim_slash :: "string \<Rightarrow> string" where
  "trim_slash s = (if s \<noteq> [] \<and> last s = CHR ''/'' then butlast s else s)"

definition SegmentKeyTenant :: "string \<Rightarrow> string \<Rightarrow> string \<Rightarrow> int \<Rightarrow> int \<Rightarrow> string" where
  "SegmentKeyTenant pre tenantID topic part baseOffset =
     trim_slash pre @ (if tenantID = [] then [] else ''/tenants/'' @ tenantID) @
     ''/'' @ topic @ ''/'' @ dec_int part @ ''/'' @ pad20 baseOffset @ ''.log''"

definition SegmentKey :: "string \<Rightarrow> string \<Rightarrow> int \<Rightarrow> int \<Rightarrow> string" where
  "SegmentKey pre topic part baseOffset = SegmentKeyTenant pre [] topic part baseOffset"

definition signed_message :: "string \<Rightarrow> string \<Rightarrow> int \<Rightarrow> int \<Rightarrow> string \<Rightarrow> string" where
  "signed_message tenantID topic part baseOffset sha =
     ''v1|'' @ tenantID @ ''|'' @ topic @ ''|'' @ dec_int part @ ''|'' @ dec_int baseOffset @ ''|'' @ sha"

definition SegmentSignature :: "bytes \<Rightarrow> string \<Rightarrow> string \<Rightarrow> int \<Rightarrow> int \<Rightarrow> string \<Rightarrow> string" where
  "SegmentSignature hmacKey tenantID topic part baseOffset sha =
     hex_encode (hmac_sha256 hmacKey (string_bytes (signed_message tenantID topic part baseOffset sha)))"

definition VerifySignature :: "bytes \<Rightarrow> SegmentEntry \<Rightarrow> bool" where
  "VerifySignature hmacKey e =
     (if hmacKey = [] \<or> ar_HMACSignature e = [] then True
      else SegmentSignature hmacKey (ar_TenantID e) (ar_Topic e) (ar_Partition e) (ar_BaseOffset e) (ar_SHA256 e) = ar_HMACSignature e)"

text \<open>The retention sweeper's veto, as \<^verbatim>\<open>serve.go\<close> installs it.\<close>

definition archived_hook :: "Manifest \<Rightarrow> string \<Rightarrow> int \<Rightarrow> Segment \<Rightarrow> bool" where
  "archived_hook m topic part seg =
     Holds topic part (Segment_BaseOffset seg) (Segment_NextOffset seg) (int (Segment_Size seg)) m"

section \<open>Round trips\<close>

lemma entry_fields [simp]:
  "jfield ''topic'' [(''topic'', t), (''partition'', p), (''base_offset'', b), (''next_offset'', n), (''size_bytes'', z), (''sha256'', h), (''s3_key'', k), (''uploaded_at'', u)] = t"
  "jfield ''partition'' [(''topic'', t), (''partition'', p), (''base_offset'', b), (''next_offset'', n), (''size_bytes'', z), (''sha256'', h), (''s3_key'', k), (''uploaded_at'', u)] = p"
  "jfield ''base_offset'' [(''topic'', t), (''partition'', p), (''base_offset'', b), (''next_offset'', n), (''size_bytes'', z), (''sha256'', h), (''s3_key'', k), (''uploaded_at'', u)] = b"
  "jfield ''next_offset'' [(''topic'', t), (''partition'', p), (''base_offset'', b), (''next_offset'', n), (''size_bytes'', z), (''sha256'', h), (''s3_key'', k), (''uploaded_at'', u)] = n"
  "jfield ''size_bytes'' [(''topic'', t), (''partition'', p), (''base_offset'', b), (''next_offset'', n), (''size_bytes'', z), (''sha256'', h), (''s3_key'', k), (''uploaded_at'', u)] = z"
  "jfield ''sha256'' [(''topic'', t), (''partition'', p), (''base_offset'', b), (''next_offset'', n), (''size_bytes'', z), (''sha256'', h), (''s3_key'', k), (''uploaded_at'', u)] = h"
  "jfield ''s3_key'' [(''topic'', t), (''partition'', p), (''base_offset'', b), (''next_offset'', n), (''size_bytes'', z), (''sha256'', h), (''s3_key'', k), (''uploaded_at'', u)] = k"
  "jfield ''uploaded_at'' [(''topic'', t), (''partition'', p), (''base_offset'', b), (''next_offset'', n), (''size_bytes'', z), (''sha256'', h), (''s3_key'', k), (''uploaded_at'', u)] = u"
  "jfield ''tenant_id'' [(''topic'', t), (''partition'', p), (''base_offset'', b), (''next_offset'', n), (''size_bytes'', z), (''sha256'', h), (''s3_key'', k), (''uploaded_at'', u)] = JNull"
  "jfield ''hmac_signature'' [(''topic'', t), (''partition'', p), (''base_offset'', b), (''next_offset'', n), (''size_bytes'', z), (''sha256'', h), (''s3_key'', k), (''uploaded_at'', u)] = JNull"
  "jfield ''topic'' [(''topic'', t), (''partition'', p), (''base_offset'', b), (''next_offset'', n), (''size_bytes'', z), (''sha256'', h), (''s3_key'', k), (''uploaded_at'', u), (''hmac_signature'', g)] = t"
  "jfield ''partition'' [(''topic'', t), (''partition'', p), (''base_offset'', b), (''next_offset'', n), (''size_bytes'', z), (''sha256'', h), (''s3_key'', k), (''uploaded_at'', u), (''hmac_signature'', g)] = p"
  "jfield ''base_offset'' [(''topic'', t), (''partition'', p), (''base_offset'', b), (''next_offset'', n), (''size_bytes'', z), (''sha256'', h), (''s3_key'', k), (''uploaded_at'', u), (''hmac_signature'', g)] = b"
  "jfield ''next_offset'' [(''topic'', t), (''partition'', p), (''base_offset'', b), (''next_offset'', n), (''size_bytes'', z), (''sha256'', h), (''s3_key'', k), (''uploaded_at'', u), (''hmac_signature'', g)] = n"
  "jfield ''size_bytes'' [(''topic'', t), (''partition'', p), (''base_offset'', b), (''next_offset'', n), (''size_bytes'', z), (''sha256'', h), (''s3_key'', k), (''uploaded_at'', u), (''hmac_signature'', g)] = z"
  "jfield ''sha256'' [(''topic'', t), (''partition'', p), (''base_offset'', b), (''next_offset'', n), (''size_bytes'', z), (''sha256'', h), (''s3_key'', k), (''uploaded_at'', u), (''hmac_signature'', g)] = h"
  "jfield ''s3_key'' [(''topic'', t), (''partition'', p), (''base_offset'', b), (''next_offset'', n), (''size_bytes'', z), (''sha256'', h), (''s3_key'', k), (''uploaded_at'', u), (''hmac_signature'', g)] = k"
  "jfield ''uploaded_at'' [(''topic'', t), (''partition'', p), (''base_offset'', b), (''next_offset'', n), (''size_bytes'', z), (''sha256'', h), (''s3_key'', k), (''uploaded_at'', u), (''hmac_signature'', g)] = u"
  "jfield ''tenant_id'' [(''topic'', t), (''partition'', p), (''base_offset'', b), (''next_offset'', n), (''size_bytes'', z), (''sha256'', h), (''s3_key'', k), (''uploaded_at'', u), (''hmac_signature'', g)] = JNull"
  "jfield ''hmac_signature'' [(''topic'', t), (''partition'', p), (''base_offset'', b), (''next_offset'', n), (''size_bytes'', z), (''sha256'', h), (''s3_key'', k), (''uploaded_at'', u), (''hmac_signature'', g)] = g"
  "jfield ''topic'' [(''topic'', t), (''partition'', p), (''base_offset'', b), (''next_offset'', n), (''size_bytes'', z), (''sha256'', h), (''s3_key'', k), (''uploaded_at'', u), (''tenant_id'', o1)] = t"
  "jfield ''partition'' [(''topic'', t), (''partition'', p), (''base_offset'', b), (''next_offset'', n), (''size_bytes'', z), (''sha256'', h), (''s3_key'', k), (''uploaded_at'', u), (''tenant_id'', o1)] = p"
  "jfield ''base_offset'' [(''topic'', t), (''partition'', p), (''base_offset'', b), (''next_offset'', n), (''size_bytes'', z), (''sha256'', h), (''s3_key'', k), (''uploaded_at'', u), (''tenant_id'', o1)] = b"
  "jfield ''next_offset'' [(''topic'', t), (''partition'', p), (''base_offset'', b), (''next_offset'', n), (''size_bytes'', z), (''sha256'', h), (''s3_key'', k), (''uploaded_at'', u), (''tenant_id'', o1)] = n"
  "jfield ''size_bytes'' [(''topic'', t), (''partition'', p), (''base_offset'', b), (''next_offset'', n), (''size_bytes'', z), (''sha256'', h), (''s3_key'', k), (''uploaded_at'', u), (''tenant_id'', o1)] = z"
  "jfield ''sha256'' [(''topic'', t), (''partition'', p), (''base_offset'', b), (''next_offset'', n), (''size_bytes'', z), (''sha256'', h), (''s3_key'', k), (''uploaded_at'', u), (''tenant_id'', o1)] = h"
  "jfield ''s3_key'' [(''topic'', t), (''partition'', p), (''base_offset'', b), (''next_offset'', n), (''size_bytes'', z), (''sha256'', h), (''s3_key'', k), (''uploaded_at'', u), (''tenant_id'', o1)] = k"
  "jfield ''uploaded_at'' [(''topic'', t), (''partition'', p), (''base_offset'', b), (''next_offset'', n), (''size_bytes'', z), (''sha256'', h), (''s3_key'', k), (''uploaded_at'', u), (''tenant_id'', o1)] = u"
  "jfield ''tenant_id'' [(''topic'', t), (''partition'', p), (''base_offset'', b), (''next_offset'', n), (''size_bytes'', z), (''sha256'', h), (''s3_key'', k), (''uploaded_at'', u), (''tenant_id'', o1)] = o1"
  "jfield ''hmac_signature'' [(''topic'', t), (''partition'', p), (''base_offset'', b), (''next_offset'', n), (''size_bytes'', z), (''sha256'', h), (''s3_key'', k), (''uploaded_at'', u), (''tenant_id'', o1)] = JNull"
  "jfield ''topic'' [(''topic'', t), (''partition'', p), (''base_offset'', b), (''next_offset'', n), (''size_bytes'', z), (''sha256'', h), (''s3_key'', k), (''uploaded_at'', u), (''tenant_id'', o1), (''hmac_signature'', g)] = t"
  "jfield ''partition'' [(''topic'', t), (''partition'', p), (''base_offset'', b), (''next_offset'', n), (''size_bytes'', z), (''sha256'', h), (''s3_key'', k), (''uploaded_at'', u), (''tenant_id'', o1), (''hmac_signature'', g)] = p"
  "jfield ''base_offset'' [(''topic'', t), (''partition'', p), (''base_offset'', b), (''next_offset'', n), (''size_bytes'', z), (''sha256'', h), (''s3_key'', k), (''uploaded_at'', u), (''tenant_id'', o1), (''hmac_signature'', g)] = b"
  "jfield ''next_offset'' [(''topic'', t), (''partition'', p), (''base_offset'', b), (''next_offset'', n), (''size_bytes'', z), (''sha256'', h), (''s3_key'', k), (''uploaded_at'', u), (''tenant_id'', o1), (''hmac_signature'', g)] = n"
  "jfield ''size_bytes'' [(''topic'', t), (''partition'', p), (''base_offset'', b), (''next_offset'', n), (''size_bytes'', z), (''sha256'', h), (''s3_key'', k), (''uploaded_at'', u), (''tenant_id'', o1), (''hmac_signature'', g)] = z"
  "jfield ''sha256'' [(''topic'', t), (''partition'', p), (''base_offset'', b), (''next_offset'', n), (''size_bytes'', z), (''sha256'', h), (''s3_key'', k), (''uploaded_at'', u), (''tenant_id'', o1), (''hmac_signature'', g)] = h"
  "jfield ''s3_key'' [(''topic'', t), (''partition'', p), (''base_offset'', b), (''next_offset'', n), (''size_bytes'', z), (''sha256'', h), (''s3_key'', k), (''uploaded_at'', u), (''tenant_id'', o1), (''hmac_signature'', g)] = k"
  "jfield ''uploaded_at'' [(''topic'', t), (''partition'', p), (''base_offset'', b), (''next_offset'', n), (''size_bytes'', z), (''sha256'', h), (''s3_key'', k), (''uploaded_at'', u), (''tenant_id'', o1), (''hmac_signature'', g)] = u"
  "jfield ''tenant_id'' [(''topic'', t), (''partition'', p), (''base_offset'', b), (''next_offset'', n), (''size_bytes'', z), (''sha256'', h), (''s3_key'', k), (''uploaded_at'', u), (''tenant_id'', o1), (''hmac_signature'', g)] = o1"
  "jfield ''hmac_signature'' [(''topic'', t), (''partition'', p), (''base_offset'', b), (''next_offset'', n), (''size_bytes'', z), (''sha256'', h), (''s3_key'', k), (''uploaded_at'', u), (''tenant_id'', o1), (''hmac_signature'', g)] = g"
  by code_simp+

lemma part_fields [simp]:
  "jfield ''part_number'' [(''part_number'', n), (''etag'', t), (''size_bytes'', z)] = n"
  "jfield ''etag'' [(''part_number'', n), (''etag'', t), (''size_bytes'', z)] = t"
  "jfield ''size_bytes'' [(''part_number'', n), (''etag'', t), (''size_bytes'', z)] = z"
  by code_simp+

lemma pending_fields [simp]:
  "jfield ''topic'' [(''topic'', t), (''partition'', p), (''base_offset'', b), (''s3_key'', k), (''upload_id'', u), (''parts'', q), (''started_at'', s)] = t"
  "jfield ''partition'' [(''topic'', t), (''partition'', p), (''base_offset'', b), (''s3_key'', k), (''upload_id'', u), (''parts'', q), (''started_at'', s)] = p"
  "jfield ''base_offset'' [(''topic'', t), (''partition'', p), (''base_offset'', b), (''s3_key'', k), (''upload_id'', u), (''parts'', q), (''started_at'', s)] = b"
  "jfield ''next_offset'' [(''topic'', t), (''partition'', p), (''base_offset'', b), (''s3_key'', k), (''upload_id'', u), (''parts'', q), (''started_at'', s)] = JNull"
  "jfield ''tenant_id'' [(''topic'', t), (''partition'', p), (''base_offset'', b), (''s3_key'', k), (''upload_id'', u), (''parts'', q), (''started_at'', s)] = JNull"
  "jfield ''sha256'' [(''topic'', t), (''partition'', p), (''base_offset'', b), (''s3_key'', k), (''upload_id'', u), (''parts'', q), (''started_at'', s)] = JNull"
  "jfield ''s3_key'' [(''topic'', t), (''partition'', p), (''base_offset'', b), (''s3_key'', k), (''upload_id'', u), (''parts'', q), (''started_at'', s)] = k"
  "jfield ''upload_id'' [(''topic'', t), (''partition'', p), (''base_offset'', b), (''s3_key'', k), (''upload_id'', u), (''parts'', q), (''started_at'', s)] = u"
  "jfield ''parts'' [(''topic'', t), (''partition'', p), (''base_offset'', b), (''s3_key'', k), (''upload_id'', u), (''parts'', q), (''started_at'', s)] = q"
  "jfield ''started_at'' [(''topic'', t), (''partition'', p), (''base_offset'', b), (''s3_key'', k), (''upload_id'', u), (''parts'', q), (''started_at'', s)] = s"
  "jfield ''topic'' [(''topic'', t), (''partition'', p), (''base_offset'', b), (''sha256'', h), (''s3_key'', k), (''upload_id'', u), (''parts'', q), (''started_at'', s)] = t"
  "jfield ''partition'' [(''topic'', t), (''partition'', p), (''base_offset'', b), (''sha256'', h), (''s3_key'', k), (''upload_id'', u), (''parts'', q), (''started_at'', s)] = p"
  "jfield ''base_offset'' [(''topic'', t), (''partition'', p), (''base_offset'', b), (''sha256'', h), (''s3_key'', k), (''upload_id'', u), (''parts'', q), (''started_at'', s)] = b"
  "jfield ''next_offset'' [(''topic'', t), (''partition'', p), (''base_offset'', b), (''sha256'', h), (''s3_key'', k), (''upload_id'', u), (''parts'', q), (''started_at'', s)] = JNull"
  "jfield ''tenant_id'' [(''topic'', t), (''partition'', p), (''base_offset'', b), (''sha256'', h), (''s3_key'', k), (''upload_id'', u), (''parts'', q), (''started_at'', s)] = JNull"
  "jfield ''sha256'' [(''topic'', t), (''partition'', p), (''base_offset'', b), (''sha256'', h), (''s3_key'', k), (''upload_id'', u), (''parts'', q), (''started_at'', s)] = h"
  "jfield ''s3_key'' [(''topic'', t), (''partition'', p), (''base_offset'', b), (''sha256'', h), (''s3_key'', k), (''upload_id'', u), (''parts'', q), (''started_at'', s)] = k"
  "jfield ''upload_id'' [(''topic'', t), (''partition'', p), (''base_offset'', b), (''sha256'', h), (''s3_key'', k), (''upload_id'', u), (''parts'', q), (''started_at'', s)] = u"
  "jfield ''parts'' [(''topic'', t), (''partition'', p), (''base_offset'', b), (''sha256'', h), (''s3_key'', k), (''upload_id'', u), (''parts'', q), (''started_at'', s)] = q"
  "jfield ''started_at'' [(''topic'', t), (''partition'', p), (''base_offset'', b), (''sha256'', h), (''s3_key'', k), (''upload_id'', u), (''parts'', q), (''started_at'', s)] = s"
  "jfield ''topic'' [(''topic'', t), (''partition'', p), (''base_offset'', b), (''tenant_id'', o1), (''s3_key'', k), (''upload_id'', u), (''parts'', q), (''started_at'', s)] = t"
  "jfield ''partition'' [(''topic'', t), (''partition'', p), (''base_offset'', b), (''tenant_id'', o1), (''s3_key'', k), (''upload_id'', u), (''parts'', q), (''started_at'', s)] = p"
  "jfield ''base_offset'' [(''topic'', t), (''partition'', p), (''base_offset'', b), (''tenant_id'', o1), (''s3_key'', k), (''upload_id'', u), (''parts'', q), (''started_at'', s)] = b"
  "jfield ''next_offset'' [(''topic'', t), (''partition'', p), (''base_offset'', b), (''tenant_id'', o1), (''s3_key'', k), (''upload_id'', u), (''parts'', q), (''started_at'', s)] = JNull"
  "jfield ''tenant_id'' [(''topic'', t), (''partition'', p), (''base_offset'', b), (''tenant_id'', o1), (''s3_key'', k), (''upload_id'', u), (''parts'', q), (''started_at'', s)] = o1"
  "jfield ''sha256'' [(''topic'', t), (''partition'', p), (''base_offset'', b), (''tenant_id'', o1), (''s3_key'', k), (''upload_id'', u), (''parts'', q), (''started_at'', s)] = JNull"
  "jfield ''s3_key'' [(''topic'', t), (''partition'', p), (''base_offset'', b), (''tenant_id'', o1), (''s3_key'', k), (''upload_id'', u), (''parts'', q), (''started_at'', s)] = k"
  "jfield ''upload_id'' [(''topic'', t), (''partition'', p), (''base_offset'', b), (''tenant_id'', o1), (''s3_key'', k), (''upload_id'', u), (''parts'', q), (''started_at'', s)] = u"
  "jfield ''parts'' [(''topic'', t), (''partition'', p), (''base_offset'', b), (''tenant_id'', o1), (''s3_key'', k), (''upload_id'', u), (''parts'', q), (''started_at'', s)] = q"
  "jfield ''started_at'' [(''topic'', t), (''partition'', p), (''base_offset'', b), (''tenant_id'', o1), (''s3_key'', k), (''upload_id'', u), (''parts'', q), (''started_at'', s)] = s"
  "jfield ''topic'' [(''topic'', t), (''partition'', p), (''base_offset'', b), (''tenant_id'', o1), (''sha256'', h), (''s3_key'', k), (''upload_id'', u), (''parts'', q), (''started_at'', s)] = t"
  "jfield ''partition'' [(''topic'', t), (''partition'', p), (''base_offset'', b), (''tenant_id'', o1), (''sha256'', h), (''s3_key'', k), (''upload_id'', u), (''parts'', q), (''started_at'', s)] = p"
  "jfield ''base_offset'' [(''topic'', t), (''partition'', p), (''base_offset'', b), (''tenant_id'', o1), (''sha256'', h), (''s3_key'', k), (''upload_id'', u), (''parts'', q), (''started_at'', s)] = b"
  "jfield ''next_offset'' [(''topic'', t), (''partition'', p), (''base_offset'', b), (''tenant_id'', o1), (''sha256'', h), (''s3_key'', k), (''upload_id'', u), (''parts'', q), (''started_at'', s)] = JNull"
  "jfield ''tenant_id'' [(''topic'', t), (''partition'', p), (''base_offset'', b), (''tenant_id'', o1), (''sha256'', h), (''s3_key'', k), (''upload_id'', u), (''parts'', q), (''started_at'', s)] = o1"
  "jfield ''sha256'' [(''topic'', t), (''partition'', p), (''base_offset'', b), (''tenant_id'', o1), (''sha256'', h), (''s3_key'', k), (''upload_id'', u), (''parts'', q), (''started_at'', s)] = h"
  "jfield ''s3_key'' [(''topic'', t), (''partition'', p), (''base_offset'', b), (''tenant_id'', o1), (''sha256'', h), (''s3_key'', k), (''upload_id'', u), (''parts'', q), (''started_at'', s)] = k"
  "jfield ''upload_id'' [(''topic'', t), (''partition'', p), (''base_offset'', b), (''tenant_id'', o1), (''sha256'', h), (''s3_key'', k), (''upload_id'', u), (''parts'', q), (''started_at'', s)] = u"
  "jfield ''parts'' [(''topic'', t), (''partition'', p), (''base_offset'', b), (''tenant_id'', o1), (''sha256'', h), (''s3_key'', k), (''upload_id'', u), (''parts'', q), (''started_at'', s)] = q"
  "jfield ''started_at'' [(''topic'', t), (''partition'', p), (''base_offset'', b), (''tenant_id'', o1), (''sha256'', h), (''s3_key'', k), (''upload_id'', u), (''parts'', q), (''started_at'', s)] = s"
  "jfield ''topic'' [(''topic'', t), (''partition'', p), (''base_offset'', b), (''next_offset'', n), (''s3_key'', k), (''upload_id'', u), (''parts'', q), (''started_at'', s)] = t"
  "jfield ''partition'' [(''topic'', t), (''partition'', p), (''base_offset'', b), (''next_offset'', n), (''s3_key'', k), (''upload_id'', u), (''parts'', q), (''started_at'', s)] = p"
  "jfield ''base_offset'' [(''topic'', t), (''partition'', p), (''base_offset'', b), (''next_offset'', n), (''s3_key'', k), (''upload_id'', u), (''parts'', q), (''started_at'', s)] = b"
  "jfield ''next_offset'' [(''topic'', t), (''partition'', p), (''base_offset'', b), (''next_offset'', n), (''s3_key'', k), (''upload_id'', u), (''parts'', q), (''started_at'', s)] = n"
  "jfield ''tenant_id'' [(''topic'', t), (''partition'', p), (''base_offset'', b), (''next_offset'', n), (''s3_key'', k), (''upload_id'', u), (''parts'', q), (''started_at'', s)] = JNull"
  "jfield ''sha256'' [(''topic'', t), (''partition'', p), (''base_offset'', b), (''next_offset'', n), (''s3_key'', k), (''upload_id'', u), (''parts'', q), (''started_at'', s)] = JNull"
  "jfield ''s3_key'' [(''topic'', t), (''partition'', p), (''base_offset'', b), (''next_offset'', n), (''s3_key'', k), (''upload_id'', u), (''parts'', q), (''started_at'', s)] = k"
  "jfield ''upload_id'' [(''topic'', t), (''partition'', p), (''base_offset'', b), (''next_offset'', n), (''s3_key'', k), (''upload_id'', u), (''parts'', q), (''started_at'', s)] = u"
  "jfield ''parts'' [(''topic'', t), (''partition'', p), (''base_offset'', b), (''next_offset'', n), (''s3_key'', k), (''upload_id'', u), (''parts'', q), (''started_at'', s)] = q"
  "jfield ''started_at'' [(''topic'', t), (''partition'', p), (''base_offset'', b), (''next_offset'', n), (''s3_key'', k), (''upload_id'', u), (''parts'', q), (''started_at'', s)] = s"
  "jfield ''topic'' [(''topic'', t), (''partition'', p), (''base_offset'', b), (''next_offset'', n), (''sha256'', h), (''s3_key'', k), (''upload_id'', u), (''parts'', q), (''started_at'', s)] = t"
  "jfield ''partition'' [(''topic'', t), (''partition'', p), (''base_offset'', b), (''next_offset'', n), (''sha256'', h), (''s3_key'', k), (''upload_id'', u), (''parts'', q), (''started_at'', s)] = p"
  "jfield ''base_offset'' [(''topic'', t), (''partition'', p), (''base_offset'', b), (''next_offset'', n), (''sha256'', h), (''s3_key'', k), (''upload_id'', u), (''parts'', q), (''started_at'', s)] = b"
  "jfield ''next_offset'' [(''topic'', t), (''partition'', p), (''base_offset'', b), (''next_offset'', n), (''sha256'', h), (''s3_key'', k), (''upload_id'', u), (''parts'', q), (''started_at'', s)] = n"
  "jfield ''tenant_id'' [(''topic'', t), (''partition'', p), (''base_offset'', b), (''next_offset'', n), (''sha256'', h), (''s3_key'', k), (''upload_id'', u), (''parts'', q), (''started_at'', s)] = JNull"
  "jfield ''sha256'' [(''topic'', t), (''partition'', p), (''base_offset'', b), (''next_offset'', n), (''sha256'', h), (''s3_key'', k), (''upload_id'', u), (''parts'', q), (''started_at'', s)] = h"
  "jfield ''s3_key'' [(''topic'', t), (''partition'', p), (''base_offset'', b), (''next_offset'', n), (''sha256'', h), (''s3_key'', k), (''upload_id'', u), (''parts'', q), (''started_at'', s)] = k"
  "jfield ''upload_id'' [(''topic'', t), (''partition'', p), (''base_offset'', b), (''next_offset'', n), (''sha256'', h), (''s3_key'', k), (''upload_id'', u), (''parts'', q), (''started_at'', s)] = u"
  "jfield ''parts'' [(''topic'', t), (''partition'', p), (''base_offset'', b), (''next_offset'', n), (''sha256'', h), (''s3_key'', k), (''upload_id'', u), (''parts'', q), (''started_at'', s)] = q"
  "jfield ''started_at'' [(''topic'', t), (''partition'', p), (''base_offset'', b), (''next_offset'', n), (''sha256'', h), (''s3_key'', k), (''upload_id'', u), (''parts'', q), (''started_at'', s)] = s"
  "jfield ''topic'' [(''topic'', t), (''partition'', p), (''base_offset'', b), (''next_offset'', n), (''tenant_id'', o1), (''s3_key'', k), (''upload_id'', u), (''parts'', q), (''started_at'', s)] = t"
  "jfield ''partition'' [(''topic'', t), (''partition'', p), (''base_offset'', b), (''next_offset'', n), (''tenant_id'', o1), (''s3_key'', k), (''upload_id'', u), (''parts'', q), (''started_at'', s)] = p"
  "jfield ''base_offset'' [(''topic'', t), (''partition'', p), (''base_offset'', b), (''next_offset'', n), (''tenant_id'', o1), (''s3_key'', k), (''upload_id'', u), (''parts'', q), (''started_at'', s)] = b"
  "jfield ''next_offset'' [(''topic'', t), (''partition'', p), (''base_offset'', b), (''next_offset'', n), (''tenant_id'', o1), (''s3_key'', k), (''upload_id'', u), (''parts'', q), (''started_at'', s)] = n"
  "jfield ''tenant_id'' [(''topic'', t), (''partition'', p), (''base_offset'', b), (''next_offset'', n), (''tenant_id'', o1), (''s3_key'', k), (''upload_id'', u), (''parts'', q), (''started_at'', s)] = o1"
  "jfield ''sha256'' [(''topic'', t), (''partition'', p), (''base_offset'', b), (''next_offset'', n), (''tenant_id'', o1), (''s3_key'', k), (''upload_id'', u), (''parts'', q), (''started_at'', s)] = JNull"
  "jfield ''s3_key'' [(''topic'', t), (''partition'', p), (''base_offset'', b), (''next_offset'', n), (''tenant_id'', o1), (''s3_key'', k), (''upload_id'', u), (''parts'', q), (''started_at'', s)] = k"
  "jfield ''upload_id'' [(''topic'', t), (''partition'', p), (''base_offset'', b), (''next_offset'', n), (''tenant_id'', o1), (''s3_key'', k), (''upload_id'', u), (''parts'', q), (''started_at'', s)] = u"
  "jfield ''parts'' [(''topic'', t), (''partition'', p), (''base_offset'', b), (''next_offset'', n), (''tenant_id'', o1), (''s3_key'', k), (''upload_id'', u), (''parts'', q), (''started_at'', s)] = q"
  "jfield ''started_at'' [(''topic'', t), (''partition'', p), (''base_offset'', b), (''next_offset'', n), (''tenant_id'', o1), (''s3_key'', k), (''upload_id'', u), (''parts'', q), (''started_at'', s)] = s"
  "jfield ''topic'' [(''topic'', t), (''partition'', p), (''base_offset'', b), (''next_offset'', n), (''tenant_id'', o1), (''sha256'', h), (''s3_key'', k), (''upload_id'', u), (''parts'', q), (''started_at'', s)] = t"
  "jfield ''partition'' [(''topic'', t), (''partition'', p), (''base_offset'', b), (''next_offset'', n), (''tenant_id'', o1), (''sha256'', h), (''s3_key'', k), (''upload_id'', u), (''parts'', q), (''started_at'', s)] = p"
  "jfield ''base_offset'' [(''topic'', t), (''partition'', p), (''base_offset'', b), (''next_offset'', n), (''tenant_id'', o1), (''sha256'', h), (''s3_key'', k), (''upload_id'', u), (''parts'', q), (''started_at'', s)] = b"
  "jfield ''next_offset'' [(''topic'', t), (''partition'', p), (''base_offset'', b), (''next_offset'', n), (''tenant_id'', o1), (''sha256'', h), (''s3_key'', k), (''upload_id'', u), (''parts'', q), (''started_at'', s)] = n"
  "jfield ''tenant_id'' [(''topic'', t), (''partition'', p), (''base_offset'', b), (''next_offset'', n), (''tenant_id'', o1), (''sha256'', h), (''s3_key'', k), (''upload_id'', u), (''parts'', q), (''started_at'', s)] = o1"
  "jfield ''sha256'' [(''topic'', t), (''partition'', p), (''base_offset'', b), (''next_offset'', n), (''tenant_id'', o1), (''sha256'', h), (''s3_key'', k), (''upload_id'', u), (''parts'', q), (''started_at'', s)] = h"
  "jfield ''s3_key'' [(''topic'', t), (''partition'', p), (''base_offset'', b), (''next_offset'', n), (''tenant_id'', o1), (''sha256'', h), (''s3_key'', k), (''upload_id'', u), (''parts'', q), (''started_at'', s)] = k"
  "jfield ''upload_id'' [(''topic'', t), (''partition'', p), (''base_offset'', b), (''next_offset'', n), (''tenant_id'', o1), (''sha256'', h), (''s3_key'', k), (''upload_id'', u), (''parts'', q), (''started_at'', s)] = u"
  "jfield ''parts'' [(''topic'', t), (''partition'', p), (''base_offset'', b), (''next_offset'', n), (''tenant_id'', o1), (''sha256'', h), (''s3_key'', k), (''upload_id'', u), (''parts'', q), (''started_at'', s)] = q"
  "jfield ''started_at'' [(''topic'', t), (''partition'', p), (''base_offset'', b), (''next_offset'', n), (''tenant_id'', o1), (''sha256'', h), (''s3_key'', k), (''upload_id'', u), (''parts'', q), (''started_at'', s)] = s"
  by code_simp+

lemma manifest_fields [simp]:
  "jfield ''format_version'' [(''format_version'', a), (''segments'', b)] = a"
  "jfield ''segments'' [(''format_version'', a), (''segments'', b)] = b"
  by code_simp+

lemma uploads_fields [simp]:
  "jfield ''format_version'' [(''format_version'', a), (''pending'', b)] = a"
  "jfield ''pending'' [(''format_version'', a), (''pending'', b)] = b"
  by code_simp+

definition entry_ok :: "SegmentEntry \<Rightarrow> bool" where
  "entry_ok e \<longleftrightarrow> i32 (ar_Partition e) = ar_Partition e \<and> in_i64 (ar_BaseOffset e) \<and> in_i64 (ar_NextOffset e) \<and> in_i64 (ar_SizeBytes e)"

definition upload_ok :: "PendingUpload option \<Rightarrow> bool" where
  "upload_ok po \<longleftrightarrow> (case po of None \<Rightarrow> True | Some p \<Rightarrow>
     i32 (pu_Partition p) = pu_Partition p \<and> in_i64 (pu_BaseOffset p) \<and> in_i64 (pu_NextOffset p) \<and>
     (\<forall>q \<in> set (pu_Parts p). i32 (pp_PartNumber q) = pp_PartNumber q \<and> in_i64 (pp_SizeBytes q)))"

definition manifest_ok :: "Manifest \<Rightarrow> bool" where
  "manifest_ok m \<longleftrightarrow> (\<forall>e \<in> set (mf_completed m). entry_ok e) \<and> distinct (map fst (mf_pending m)) \<and>
     (\<forall>(k, p) \<in> set (mf_pending m). upload_ok p)"

lemma dec_entry_enc: "entry_ok e \<Longrightarrow> dec_entry (enc_entry e) = Some e"
  by (cases "ar_TenantID e = []"; cases "ar_HMACSignature e = []")
    (simp_all add: dec_entry_def enc_entry_def opt_str_def entry_ok_def i64_in)

lemma dec_part_enc: "i32 (pp_PartNumber q) = pp_PartNumber q \<Longrightarrow> in_i64 (pp_SizeBytes q) \<Longrightarrow> dec_part (enc_part q) = Some q"
  by (simp add: dec_part_def enc_part_def i64_in)

lemma dec_pending_enc: "upload_ok po \<Longrightarrow> dec_pending (enc_pending po) = Some po"
proof (cases po)
  case (Some p)
  assume ok: "upload_ok po"
  have "dec_list dec_part (if pu_Parts p = [] then JNull else enc_list enc_part (pu_Parts p)) = Some (pu_Parts p)"
    using ok Some by (auto simp: upload_ok_def dec_part_enc intro!: dec_list_enc)
  then show ?thesis
    using ok unfolding Some
    by (cases "pu_NextOffset p = 0"; cases "pu_TenantID p = []"; cases "pu_SHA256 p = []")
      (simp_all add: dec_pending_def enc_pending_def opt_str_def upload_ok_def i64_in)
qed (simp add: dec_pending_def enc_pending_def)

lemma completed_round_trip: "\<forall>e \<in> set es. entry_ok e \<Longrightarrow> dec_completed (enc_completed es) = Some es"
  by (simp add: dec_completed_def enc_completed_def dec_list_enc dec_entry_enc wrap_s_def)

lemma uploads_round_trip:
  assumes "distinct (map fst ps)" "\<forall>(k, p) \<in> set ps. upload_ok p"
  shows "\<exists>ps'. dec_uploads (enc_uploads ps) = Some ps' \<and> map_of ps' = map_of ps"
proof -
  obtain ps' where "dec_map dec_pending (enc_map enc_pending ps) = Some ps'" "map_of ps' = map_option id \<circ> map_of ps"
    by (rule dec_map_enc [of ps dec_pending enc_pending id]) (use assms dec_pending_enc in auto)
  moreover have "map_option id \<circ> map_of ps = map_of ps" by (simp add: fun_eq_iff option.map_id)
  ultimately show ?thesis by (simp add: dec_uploads_def enc_uploads_def wrap_s_def)
qed

interpretation completed_doc: json_doc enc_completed dec_completed "\<lambda>es. \<forall>e \<in> set es. entry_ok e" "(=)"
  by unfold_locales (simp add: completed_round_trip)

interpretation uploads_doc: json_doc enc_uploads dec_uploads
    "\<lambda>ps. distinct (map fst ps) \<and> (\<forall>(k, p) \<in> set ps. upload_ok p)" "\<lambda>ps ps'. map_of ps' = map_of ps"
  by unfold_locales (use uploads_round_trip in blast)


section \<open>What the manifest keeps\<close>

definition entries_disjoint :: "SegmentEntry list \<Rightarrow> bool" where
  "entries_disjoint es \<longleftrightarrow>
     sorted_wrt (\<lambda>e e'. samePartition e e' \<longrightarrow> \<not> overlaps e e' \<and> ar_BaseOffset e \<noteq> ar_BaseOffset e') es"

lemma entries_disjoint_add: "entries_disjoint es \<Longrightarrow> entries_disjoint (add_entry e es)"
  by (auto simp: entries_disjoint_def add_entry_def sorted_wrt_append intro: sorted_wrt_filter)

lemma find_append_last: "\<forall>x \<in> set xs. \<not> P x \<Longrightarrow> P y \<Longrightarrow> find P (xs @ [y]) = Some y"
  by (induction xs) auto

lemma Lookup_add:
  "mf_completed m = add_entry e es \<Longrightarrow> manifest_Lookup (ar_Topic e) (ar_Partition e) (ar_BaseOffset e) m = Some e"
  unfolding manifest_Lookup_def by (auto simp: add_entry_def samePartition_def intro!: find_append_last)

lemma Lookup_mem:
  "manifest_Lookup t p b m = Some e \<Longrightarrow> e \<in> set (mf_completed m) \<and> ar_Topic e = t \<and> ar_Partition e = p \<and> ar_BaseOffset e = b"
  by (auto simp: manifest_Lookup_def find_Some_iff)

lemma manifest_paths:
  "archive_path m \<noteq> pending_path m" "archive_path m \<noteq> tmp_path (pending_path m)" "pending_path m \<noteq> tmp_path (archive_path m)"
  by (simp_all add: archive_path_def pending_path_def)

lemma flushBoth_saved:
  assumes "flushBoth m d = (None, d')" "manifest_ok m"
  shows "load_doc dec_completed (archive_path m) d' = Some (Some (mf_completed m))"
    "\<exists>ps. load_doc dec_uploads (pending_path m) d' = Some (Some ps) \<and> map_of ps = map_of (mf_pending m)"
proof -
  obtain d1 where c: "atomicWrite (archive_path m) (enc_completed (mf_completed m)) d = (True, d1)"
    and p: "atomicWrite (pending_path m) (enc_uploads (mf_pending m)) d1 = (True, d')"
    using assms(1) by (auto simp: flushBoth_def flushCompleted_def flushPending_def split: prod.splits if_splits option.splits)
  have "load_doc dec_completed (archive_path m) d1 = Some (Some (mf_completed m))"
    using completed_doc.save_then_load [OF _ c] assms(2) by (simp add: manifest_ok_def)
  moreover have "map_of (dc_files d') (archive_path m) = map_of (dc_files d1) (archive_path m)"
    using atomicWrite_result(2) [OF p] manifest_paths by simp
  ultimately show "load_doc dec_completed (archive_path m) d' = Some (Some (mf_completed m))" by (simp add: load_doc_def)
  show "\<exists>ps. load_doc dec_uploads (pending_path m) d' = Some (Some ps) \<and> map_of ps = map_of (mf_pending m)"
    using uploads_doc.save_then_load [OF _ p] assms(2) by (simp add: manifest_ok_def)
qed

lemma OpenManifest_reads:
  assumes "load_doc dec_completed (dataDir @ ''/metadata/archive.json'') d = Some (Some es)"
    "load_doc dec_uploads (dataDir @ ''/metadata/archive_pending.json'') d = Some (Some ps)" "dc_plan d = []"
  shows "OpenManifest dataDir d = (Inr \<lparr>mf_dir = dataDir @ ''/metadata'', mf_completed = es, mf_pending = ps\<rparr>, d)"
  using assms
  by (auto simp: OpenManifest_def MkdirAll_def dc_next_def manifest_load_def load_completed_def load_pending_def ReadFile_def
      archive_path_def pending_path_def load_doc_def split: option.splits doc.splits)

section \<open>Properties\<close>

text \<open>
  Archived ranges stay disjoint. If no two entries of a partition overlap or start at the same
  offset, the same holds after AddCompleted, and the new entry is the one that is found at its offset,
  even when writing the manifest files fails.
\<close>

theorem AddCompleted_keeps_disjoint:
  assumes "entries_disjoint (mf_completed m)" "AddCompleted e m d = (err, m', d')"
  shows "entries_disjoint (mf_completed m') \<and>
    manifest_Lookup (ar_Topic e) (ar_Partition e) (ar_BaseOffset e) m' = Some e"
proof -
  have m': "mf_completed m' = add_entry e (mf_completed m)"
    using assms(2) by (auto simp: AddCompleted_def Let_def split: prod.splits)
  show ?thesis using entries_disjoint_add [OF assms(1)] Lookup_add [OF m'] by (simp add: m')
qed


text \<open>
  C33: retention and the archive together lose nothing. With the manifest as the veto that \<^verbatim>\<open>serve.go\<close>
  installs, if a sweep changes or removes a file, the file belongs to a sealed segment for which the
  manifest holds an entry at the same base offset that reaches at least as far and is at least as large.
\<close>

theorem swept_segments_are_archived:
  assumes "rc_Archived cfg = Some (archived_hook m)" "segs_ordered (lg_segments l)"
    "\<forall>seg \<in> set (lg_segments l). 0 \<le> sg_baseOffset seg" "sweep_log cfg now l w = (e, l', w')"
    "map_of (w_dir w') p \<noteq> map_of (w_dir w) p"
  shows "\<exists>seg \<in> set (butlast (lg_segments l)). p \<in> seg_files seg \<and>
    (\<exists>a \<in> set (mf_completed m). ar_Topic a = lg_topic l \<and> ar_Partition a = lg_partition l \<and>
       ar_BaseOffset a = sg_baseOffset seg \<and> sg_nextOffset seg \<le> ar_NextOffset a \<and> int (sg_logSize seg) \<le> ar_SizeBytes a)"
proof -
  have "p \<in> (\<Union>seg \<in> {seg \<in> set (butlast (lg_segments l)). archived_hook m (lg_topic l) (lg_partition l) seg}. seg_files seg)"
    using sweep_alters_archived [OF assms(1-4)] assms(5) unfolding alters_def by blast
  then obtain seg where seg: "seg \<in> set (butlast (lg_segments l))" "archived_hook m (lg_topic l) (lg_partition l) seg" "p \<in> seg_files seg"
    by blast
  then obtain a where "manifest_Lookup (lg_topic l) (lg_partition l) (sg_baseOffset seg) m = Some a"
      "sg_nextOffset seg \<le> ar_NextOffset a" "int (sg_logSize seg) \<le> ar_SizeBytes a"
    by (auto simp: archived_hook_def Holds_def Segment_BaseOffset_def Segment_NextOffset_def Segment_Size_def split: option.splits)
  then show ?thesis using Lookup_mem seg by blast
qed


definition sample_entry :: SegmentEntry where
  "sample_entry = \<lparr>ar_Topic = ''t'', ar_Partition = 0, ar_BaseOffset = 0, ar_NextOffset = 3, ar_SizeBytes = 61, ar_SHA256 = ''ab'',
     ar_S3Key = ''k'', ar_UploadedAt = 0, ar_TenantID = [], ar_HMACSignature = []\<rparr>"

definition sample_manifest :: Manifest where
  "sample_manifest = \<lparr>mf_dir = ''data/metadata'', mf_completed = [], mf_pending = []\<rparr>"

lemma sample_add:
  obtains m' d' where "AddCompleted sample_entry sample_manifest sample_docs = (None, m', d')" "dc_plan d' = []"
  by (simp add: AddCompleted_def flushBoth_def flushCompleted_def flushPending_def atomicWrite_def WriteFile_def Rename_def
      dc_next_def update_conv' sample_docs_def Let_def)

lemma sample_entry_ok: "entry_ok sample_entry"
  by (simp add: entry_ok_def sample_entry_def in_i64_def i32_id)

theorem AddCompleted_keeps_disjoint_witness:
  "\<exists>err m' d'. AddCompleted sample_entry sample_manifest sample_docs = (err, m', d') \<and>
     entries_disjoint (mf_completed m') \<and> manifest_Lookup ''t'' 0 0 m' = Some sample_entry"
proof -
  obtain m' d' where a: "AddCompleted sample_entry sample_manifest sample_docs = (None, m', d')" by (rule sample_add)
  have "entries_disjoint (mf_completed sample_manifest)" by (simp add: entries_disjoint_def sample_manifest_def)
  from AddCompleted_keeps_disjoint [OF this a] show ?thesis using a by (auto simp: sample_entry_def)
qed


definition sample_archive :: Manifest where
  "sample_archive = sample_manifest\<lparr>mf_completed := [sample_entry]\<rparr>"

definition archive_cfg :: RetentionConfig where
  "archive_cfg = \<lparr>rc_RetentionMS = 1, rc_RetentionBytes = 10, rc_Tick = 0, rc_Archived = Some (archived_hook sample_archive)\<rparr>"

lemma sample_swept: "map_of (w_dir (snd (snd (sweep_log archive_cfg 999999999 two_log sample_w)))) (seg_path sample_dir 0 logSuffix) = None"
  by code_simp

theorem swept_segments_are_archived_witness:
  "\<exists>seg \<in> set (butlast (lg_segments two_log)). seg_path sample_dir 0 logSuffix \<in> seg_files seg \<and> ar_BaseOffset sample_entry = sg_baseOffset seg"
proof -
  let ?r = "sweep_log archive_cfg 999999999 two_log sample_w"
  have cfg: "rc_Archived archive_cfg = Some (archived_hook sample_archive)" by (simp add: archive_cfg_def)
  have r: "sweep_log archive_cfg 999999999 two_log sample_w = (fst ?r, fst (snd ?r), snd (snd ?r))" by simp
  have "map_of (w_dir sample_w) (seg_path sample_dir 0 logSuffix) \<noteq> None" by (simp add: sample_world_def)
  with sample_swept have "map_of (w_dir (snd (snd ?r))) (seg_path sample_dir 0 logSuffix) \<noteq> map_of (w_dir sample_w) (seg_path sample_dir 0 logSuffix)"
    by metis
  from swept_segments_are_archived [OF cfg two_log_ordered r this] show ?thesis
    by (auto simp: sample_archive_def)
qed

end
