(* ===== verification/Object_Store.thy ===== *)
theory Object_Store
  imports Archive_Manifest
begin

text \<open>
  Cold storage: the contract every backend implements (\<^verbatim>\<open>internal/objstore/objstore.go\<close>) and the
  filesystem backend (\<^verbatim>\<open>fs.go\<close>). A backend is a record of operations, so that its clients are written
  against the contract. The locale \<open>object_store\<close> states what a client may rely on when an operation
  reports success, whatever faults occur; the filesystem backend is shown to satisfy it. Also shown: no
  key, however hostile, names a path outside the archive.
\<close>

section \<open>The contract\<close>

datatype store_err = StNotFound | StEscapes | StPartNumber | StUnknownUpload | StShortWrite | StPartMissing | StIO

record ObjectInfo =
  oi_Key :: string
  oi_Size :: int
  oi_ETag :: string
  oi_Metadata :: "(string \<times> string) list"

record Part =
  pa_Number :: int
  pa_ETag :: string
  pa_Size :: int

abbreviation MaxPartsPerUpload :: int where "MaxPartsPerUpload \<equiv> 10000"

text \<open>
  \<open>so_UploadPart\<close> takes the bytes its reader delivers. \<open>so_CreateMultipart\<close> takes the random bytes of the
  upload id; a remote backend ignores them.
\<close>

record 's store_ops =
  so_Stat :: "string \<Rightarrow> 's \<Rightarrow> (store_err + ObjectInfo) \<times> 's"
  so_Get :: "string \<Rightarrow> 's \<Rightarrow> (store_err + bytes) \<times> 's"
  so_Delete :: "string \<Rightarrow> 's \<Rightarrow> store_err option \<times> 's"
  so_CreateMultipart :: "string \<Rightarrow> (string \<times> string) list \<Rightarrow> bytes \<Rightarrow> 's \<Rightarrow> (store_err + string) \<times> 's"
  so_UploadPart :: "string \<Rightarrow> string \<Rightarrow> int \<Rightarrow> bytes \<Rightarrow> int \<Rightarrow> 's \<Rightarrow> (store_err + Part) \<times> 's"
  so_ListParts :: "string \<Rightarrow> string \<Rightarrow> 's \<Rightarrow> (store_err + Part list) \<times> 's"
  so_CompleteMultipart :: "string \<Rightarrow> string \<Rightarrow> Part list \<Rightarrow> 's \<Rightarrow> store_err option \<times> 's"
  so_AbortMultipart :: "string \<Rightarrow> string \<Rightarrow> 's \<Rightarrow> store_err option \<times> 's"

section \<open>Paths\<close>

fun split_slash :: "string \<Rightarrow> string list" where
  "split_slash [] = [[]]"
| "split_slash (c # cs) =
     (if c = CHR ''/'' then [] # split_slash cs
      else case split_slash cs of [] \<Rightarrow> [[c]] | p # ps \<Rightarrow> (c # p) # ps)"

text \<open>\<^verbatim>\<open>filepath.Clean\<close> of a rooted path, as the list of its elements; the first argument is the stack, last first.\<close>

fun clean_rooted :: "string list \<Rightarrow> string list \<Rightarrow> string list" where
  "clean_rooted st [] = rev st"
| "clean_rooted st (p # ps) =
     (if p = [] \<or> p = ''.'' then clean_rooted st ps
      else if p = ''..'' then clean_rooted (tl st) ps
      else clean_rooted (p # st) ps)"

definition key_elements :: "string \<Rightarrow> string list" where
  "key_elements key = clean_rooted [] (split_slash (map (\<lambda>c. if c = CHR 0x5C then CHR ''/'' else c) key))"

definition join_path :: "string \<Rightarrow> string list \<Rightarrow> string" where
  "join_path base ps = base @ concat (map (\<lambda>p. CHR ''/'' # p) ps)"

section \<open>The filesystem backend\<close>

text \<open>
  \<open>fs_w\<close> holds the files with bytes and \<open>fs_docs\<close> the JSON files, by path; \<open>fs_dirs\<close> are the upload
  directories that exist. The root is absolute and clean, as \<^verbatim>\<open>filepath.Abs\<close> returns it.
\<close>

record FS =
  fs_root :: string
  fs_w :: world
  fs_docs :: docs
  fs_dirs :: "string list"

definition objects_dir :: "FS \<Rightarrow> string" where
  "objects_dir f = fs_root f @ ''/objects''"

definition objectPath :: "FS \<Rightarrow> string \<Rightarrow> string option" where
  "objectPath f key =
     (let p = join_path (objects_dir f) (key_elements key)
      in if take (length (objects_dir f) + 1) p = objects_dir f @ ''/'' then Some p else None)"

definition uploadDir :: "FS \<Rightarrow> string \<Rightarrow> string" where
  "uploadDir f uid = fs_root f @ ''/uploads/'' @ uid"

abbreviation with_w :: "FS \<Rightarrow> world \<Rightarrow> FS" where "with_w f w \<equiv> f\<lparr>fs_w := w\<rparr>"
abbreviation with_docs :: "FS \<Rightarrow> docs \<Rightarrow> FS" where "with_docs f d \<equiv> f\<lparr>fs_docs := d\<rparr>"

text \<open>\<^verbatim>\<open>os.Stat\<close> and \<^verbatim>\<open>os.Open\<close> of a file: \<open>None\<close> is an error, \<open>Some None\<close> that there is none.\<close>

definition os_lookup :: "string \<Rightarrow> world \<Rightarrow> bytes option option \<times> world" where
  "os_lookup p w =
     (case os_ctl w of (False, w) \<Rightarrow> (None, w) | (True, w) \<Rightarrow> (Some (map_option fdata (map_of (w_dir w) p)), w))"

definition os_rename :: "string \<Rightarrow> string \<Rightarrow> world \<Rightarrow> bool \<times> world" where
  "os_rename a b w =
     (case os_ctl w of
        (False, w) \<Rightarrow> (False, w)
      | (True, w) \<Rightarrow>
          (case map_of (w_dir w) a of
             None \<Rightarrow> (False, w)
           | Some x \<Rightarrow> (True, w\<lparr>w_dir := AList.delete a (AList.update b x (w_dir w))\<rparr>)))"

definition os_create :: "string \<Rightarrow> world \<Rightarrow> bool \<times> world" where
  "os_create p w =
     (case os_ctl w of (False, w) \<Rightarrow> (False, w) | (True, w) \<Rightarrow> (True, put_file p \<lparr>fdata = [], mtime = w_now w\<rparr> w))"

text \<open>A map of strings that decodes in part: a value of another type leaves an empty string.\<close>

definition meta_of :: "json \<Rightarrow> (string \<times> string) list" where
  "meta_of j =
     (case j of
        JObj kvs \<Rightarrow> foldl (\<lambda>m (k, v). AList.update k (case dec_str v of None \<Rightarrow> [] | Some s \<Rightarrow> s) m) [] kvs
      | _ \<Rightarrow> [])"

definition lookup_str :: "(string \<times> string) list \<Rightarrow> string \<Rightarrow> string" where
  "lookup_str m k = (case map_of m k of None \<Rightarrow> [] | Some v \<Rightarrow> v)"

definition fs_Stat :: "string \<Rightarrow> FS \<Rightarrow> (store_err + ObjectInfo) \<times> FS" where
  "fs_Stat key f =
     (case objectPath f key of
        None \<Rightarrow> (Inl StEscapes, f)
      | Some p \<Rightarrow>
          (case os_lookup p (fs_w f) of
             (None, w) \<Rightarrow> (Inl StIO, with_w f w)
           | (Some None, w) \<Rightarrow> (Inl StNotFound, with_w f w)
           | (Some (Some data), w) \<Rightarrow>
               (case ReadFile (p @ ''.meta'') (fs_docs f) of
                  (r, d) \<Rightarrow>
                    let m = (case r of RdDoc (JsonDoc j) \<Rightarrow> meta_of j | _ \<Rightarrow> []) in
                    (Inr \<lparr>oi_Key = key, oi_Size = int (length data), oi_ETag = lookup_str m ''etag'', oi_Metadata = m\<rparr>,
                     with_docs (with_w f w) d))))"

definition fs_Get :: "string \<Rightarrow> FS \<Rightarrow> (store_err + bytes) \<times> FS" where
  "fs_Get key f =
     (case objectPath f key of
        None \<Rightarrow> (Inl StEscapes, f)
      | Some p \<Rightarrow>
          (case os_lookup p (fs_w f) of
             (None, w) \<Rightarrow> (Inl StIO, with_w f w)
           | (Some None, w) \<Rightarrow> (Inl StNotFound, with_w f w)
           | (Some (Some data), w) \<Rightarrow> (Inr data, with_w f w)))"

definition doc_remove :: "string \<Rightarrow> docs \<Rightarrow> bool \<times> docs" where
  "doc_remove p d = (case dc_next d of (IoFail _, d) \<Rightarrow> (False, d) | (IoOk, d) \<Rightarrow> (True, d\<lparr>dc_files := AList.delete p (dc_files d)\<rparr>))"

definition fs_Delete :: "string \<Rightarrow> FS \<Rightarrow> store_err option \<times> FS" where
  "fs_Delete key f =
     (case objectPath f key of
        None \<Rightarrow> (Some StEscapes, f)
      | Some p \<Rightarrow>
          (case os_remove p (fs_w f) of
             (False, w) \<Rightarrow> (Some StIO, with_w f w)
           | (True, w) \<Rightarrow>
               (case doc_remove (p @ ''.meta'') (fs_docs f) of
                  (ok, d) \<Rightarrow> (if ok then None else Some StIO, with_docs (with_w f w) d))))"

definition enc_meta :: "(string \<times> string) list \<Rightarrow> json" where
  "enc_meta m = enc_map JStr m"

definition fs_CreateMultipart :: "string \<Rightarrow> (string \<times> string) list \<Rightarrow> bytes \<Rightarrow> FS \<Rightarrow> (store_err + string) \<times> FS" where
  "fs_CreateMultipart key meta rnd f =
     (case objectPath f key of
        None \<Rightarrow> (Inl StEscapes, f)
      | Some _ \<Rightarrow>
          let uid = hex_encode rnd in
          (case os_ctl (fs_w f) of
             (False, w) \<Rightarrow> (Inl StIO, with_w f w)
           | (True, w) \<Rightarrow>
               let f = (with_w f w)\<lparr>fs_dirs := List.insert uid (fs_dirs f)\<rparr> in
               (case WriteFile (uploadDir f uid @ ''/upload.json'') (JsonDoc (JObj [(''key'', JStr key), (''meta'', enc_meta meta)]))
                       (fs_docs f) of
                  (ok, d) \<Rightarrow> (if ok then Inr uid else Inl StIO, with_docs f d))))"

definition pad5 :: "int \<Rightarrow> string" where
  "pad5 n = (if n < 0 then CHR ''-'' # replicate (4 - length (dec (nat (- n)))) (CHR ''0'') @ dec (nat (- n))
             else replicate (5 - length (dec (nat n))) (CHR ''0'') @ dec (nat n))"

definition part_path :: "FS \<Rightarrow> string \<Rightarrow> int \<Rightarrow> string" where
  "part_path f uid n = uploadDir f uid @ ''/'' @ pad5 n @ ''.part''"

definition part_tmp :: "FS \<Rightarrow> string \<Rightarrow> int \<Rightarrow> string" where
  "part_tmp f uid n = uploadDir f uid @ ''/.part-'' @ pad5 n @ ''.tmp''"

definition part_etag :: "int \<Rightarrow> int \<Rightarrow> string" where
  "part_etag n nbytes = ''fs-'' @ pad5 n @ ''-'' @ dec_int nbytes"

text \<open>
  The tail of \<^verbatim>\<open>UploadPart\<close> once the temporary file is open: copy what the limited reader delivers, close,
  check the length, rename.
\<close>

definition store_part :: "string \<Rightarrow> string \<Rightarrow> bytes \<Rightarrow> int \<Rightarrow> world \<Rightarrow> store_err option \<times> world" where
  "store_part tmp final data nbytes w =
     (case os_write tmp 0 data w of
        (ok, _, w) \<Rightarrow>
          (case os_ctl w of
             (shut, w) \<Rightarrow>
               if \<not> ok \<or> \<not> shut then (Some StIO, snd (os_remove tmp w))
               else if int (length data) \<noteq> nbytes then (Some StShortWrite, snd (os_remove tmp w))
               else (case os_rename tmp final w of (True, w) \<Rightarrow> (None, w) | (False, w) \<Rightarrow> (Some StIO, w))))"

definition fs_UploadPart :: "string \<Rightarrow> string \<Rightarrow> int \<Rightarrow> bytes \<Rightarrow> int \<Rightarrow> FS \<Rightarrow> (store_err + Part) \<times> FS" where
  "fs_UploadPart key uid number r nbytes f =
     (if number < 1 \<or> number > MaxPartsPerUpload then (Inl StPartNumber, f)
      else case os_ctl (fs_w f) of
        (False, w) \<Rightarrow> (Inl StUnknownUpload, with_w f w)
      | (True, w) \<Rightarrow>
          if uid \<notin> set (fs_dirs f) then (Inl StUnknownUpload, with_w f w)
          else (case os_create (part_tmp f uid number) w of
             (False, w) \<Rightarrow> (Inl StIO, with_w f w)
           | (True, w) \<Rightarrow>
               let data = take (nat nbytes) r in
               (case store_part (part_tmp f uid number) (part_path f uid number) data nbytes w of
                  (Some e, w) \<Rightarrow> (Inl e, with_w f w)
                | (None, w) \<Rightarrow>
                    (Inr \<lparr>pa_Number = number, pa_ETag = part_etag number (int (length data)), pa_Size = int (length data)\<rparr>, with_w f w))))"

text \<open>\<^verbatim>\<open>strconv.Atoi\<close> of the name without its suffix; entries whose \<^verbatim>\<open>Info\<close> fails are skipped.\<close>

definition part_number :: "string \<Rightarrow> int option" where
  "part_number name =
     (let n = length name - 5 in if length name \<ge> 5 \<and> drop n name = ''.part'' then parse_int 64 (take n name) else None)"

fun list_parts :: "string \<Rightarrow> string list \<Rightarrow> world \<Rightarrow> Part list \<times> world" where
  "list_parts dir [] w = ([], w)"
| "list_parts dir (name # names) w =
     (case part_number name of
        None \<Rightarrow> list_parts dir names w
      | Some n \<Rightarrow>
          (case os_ctl w of
             (False, w) \<Rightarrow> list_parts dir names w
           | (True, w) \<Rightarrow>
               let nbytes = int (length (file_data w (dir @ ''/'' @ name))) in
               (case list_parts dir names w of
                  (ps, w) \<Rightarrow> (\<lparr>pa_Number = n, pa_ETag = part_etag n nbytes, pa_Size = nbytes\<rparr> # ps, w))))"

definition fs_ListParts :: "string \<Rightarrow> string \<Rightarrow> FS \<Rightarrow> (store_err + Part list) \<times> FS" where
  "fs_ListParts key uid f =
     (case os_ctl (fs_w f) of
        (False, w) \<Rightarrow> (Inl StIO, with_w f w)
      | (True, w) \<Rightarrow>
          if uid \<notin> set (fs_dirs f) then (Inl StNotFound, with_w f w)
          else (case list_parts (uploadDir f uid) (sort (dir_names (uploadDir f uid) w)) w of
             (ps, w) \<Rightarrow> (Inr (sort_key pa_Number ps), with_w f w)))"

text \<open>The loop of \<^verbatim>\<open>CompleteMultipart\<close>: open a part, append its bytes to the assembled file.\<close>

fun assemble :: "FS \<Rightarrow> string \<Rightarrow> string \<Rightarrow> Part list \<Rightarrow> nat \<Rightarrow> world \<Rightarrow> store_err option \<times> nat \<times> world" where
  "assemble f uid tmp [] asm_len w = (None, asm_len, w)"
| "assemble f uid tmp (p # ps) asm_len w =
     (case os_lookup (part_path f uid (pa_Number p)) w of
        (None, w) \<Rightarrow> (Some StPartMissing, asm_len, snd (os_remove tmp w))
      | (Some None, w) \<Rightarrow> (Some StPartMissing, asm_len, snd (os_remove tmp w))
      | (Some (Some data), w) \<Rightarrow>
          (case os_write tmp asm_len data w of
             (False, _, w) \<Rightarrow> (Some StIO, asm_len, snd (os_remove tmp w))
           | (True, asm_len, w) \<Rightarrow> assemble f uid tmp ps asm_len w))"

definition under :: "string \<Rightarrow> string \<Rightarrow> bool" where
  "under dir p \<longleftrightarrow> take (length dir + 1) p = dir @ ''/''"

text \<open>\<^verbatim>\<open>os.RemoveAll\<close> of an upload directory; a failure may have removed part of it, here nothing.\<close>

definition fs_RemoveAll :: "string \<Rightarrow> FS \<Rightarrow> store_err option \<times> FS" where
  "fs_RemoveAll uid f =
     (case os_ctl (fs_w f) of
        (False, w) \<Rightarrow> (Some StIO, with_w f w)
      | (True, w) \<Rightarrow>
          (None, f\<lparr>fs_w := w\<lparr>w_dir := filter (\<lambda>(p, x). \<not> under (uploadDir f uid) p) (w_dir w)\<rparr>,
                   fs_docs := (fs_docs f)\<lparr>dc_files := filter (\<lambda>(p, x). \<not> under (uploadDir f uid) p) (dc_files (fs_docs f))\<rparr>,
                   fs_dirs := removeAll uid (fs_dirs f)\<rparr>))"

definition finish_object :: "string \<Rightarrow> string \<Rightarrow> world \<Rightarrow> bool \<times> world" where
  "finish_object tmp dst w =
     (case os_ctl w of
        (False, w) \<Rightarrow> (False, snd (os_remove tmp w))
      | (True, w) \<Rightarrow>
          (case os_ctl w of
             (False, w) \<Rightarrow> (False, snd (os_remove tmp w))
           | (True, w) \<Rightarrow> (case os_rename tmp dst w of (True, w) \<Rightarrow> (True, w) | (False, w) \<Rightarrow> (False, snd (os_remove tmp w)))))"

definition fs_CompleteMultipart :: "string \<Rightarrow> string \<Rightarrow> Part list \<Rightarrow> FS \<Rightarrow> store_err option \<times> FS" where
  "fs_CompleteMultipart key uid parts f =
     (case ReadFile (uploadDir f uid @ ''/upload.json'') (fs_docs f) of
        (RdMissing, d) \<Rightarrow> (Some StUnknownUpload, with_docs f d)
      | (RdError, d) \<Rightarrow> (Some StUnknownUpload, with_docs f d)
      | (RdDoc raw, d) \<Rightarrow>
          let f = with_docs f d;
              meta = (case raw of JsonDoc (JObj fs) \<Rightarrow> meta_of (jfield ''meta'' fs) | _ \<Rightarrow> [])
          in (case objectPath f key of
                None \<Rightarrow> (Some StEscapes, f)
              | Some dst \<Rightarrow>
                  (case os_ctl (fs_w f) of
                     (False, w) \<Rightarrow> (Some StIO, with_w f w)
                   | (True, w) \<Rightarrow>
                       let tmp = dst @ ''.assembling'' in
                       (case os_create tmp w of
                          (False, w) \<Rightarrow> (Some StIO, with_w f w)
                        | (True, w) \<Rightarrow>
                            (case assemble f uid tmp (sort_key pa_Number parts) 0 w of
                               (Some e, _, w) \<Rightarrow> (Some e, with_w f w)
                             | (None, asm_len, w) \<Rightarrow>
                                 (case finish_object tmp dst w of
                                    (False, w) \<Rightarrow> (Some StIO, with_w f w)
                                  | (True, w) \<Rightarrow>
                                      let m = AList.update ''etag'' (''fs-'' @ dec asm_len) meta;
                                          d = snd (WriteFile (dst @ ''.meta'') (JsonDoc (enc_meta m)) (fs_docs f))
                                      in fs_RemoveAll uid (with_docs (with_w f w) d)))))))"

definition fs_AbortMultipart :: "string \<Rightarrow> string \<Rightarrow> FS \<Rightarrow> store_err option \<times> FS" where
  "fs_AbortMultipart key uid f = fs_RemoveAll uid f"

definition fs_ops :: "FS store_ops" where
  "fs_ops = \<lparr>so_Stat = fs_Stat, so_Get = fs_Get, so_Delete = fs_Delete, so_CreateMultipart = fs_CreateMultipart,
     so_UploadPart = fs_UploadPart, so_ListParts = fs_ListParts, so_CompleteMultipart = fs_CompleteMultipart,
     so_AbortMultipart = fs_AbortMultipart\<rparr>"

text \<open>\<^verbatim>\<open>NewFS\<close>: create the two directories and probe that the root is writable.\<close>

definition NewFS :: "string \<Rightarrow> world \<Rightarrow> docs \<Rightarrow> store_err + FS" where
  "NewFS dir w d =
     (if dir = [] then Inl StIO
      else case os_ctl w of (False, w) \<Rightarrow> Inl StIO | (True, w) \<Rightarrow>
        (case os_ctl w of (False, w) \<Rightarrow> Inl StIO | (True, w) \<Rightarrow>
           (case os_ctl w of (False, w) \<Rightarrow> Inl StIO | (True, w) \<Rightarrow>
              Inr \<lparr>fs_root = dir, fs_w = w, fs_docs = d, fs_dirs = []\<rparr>)))"

section \<open>No key escapes\<close>

definition plain :: "string \<Rightarrow> bool" where
  "plain p \<longleftrightarrow> p \<noteq> [] \<and> p \<noteq> ''.'' \<and> p \<noteq> ''..'' \<and> CHR ''/'' \<notin> set p"

lemma split_slash_elements: "p \<in> set (split_slash s) \<Longrightarrow> CHR ''/'' \<notin> set p"
  by (induction s arbitrary: p rule: split_slash.induct) (auto split: list.splits if_splits)

lemma clean_rooted_plain:
  "\<forall>p \<in> set st. plain p \<Longrightarrow> \<forall>p \<in> set ps. CHR ''/'' \<notin> set p \<Longrightarrow> \<forall>p \<in> set (clean_rooted st ps). plain p"
proof (induction st ps rule: clean_rooted.induct)
  case (2 st p ps)
  have tl: "\<forall>q \<in> set (tl st). plain q" using 2(4) by (cases st) auto
  show ?case
  proof (cases "p = [] \<or> p = ''.''")
    case True then show ?thesis using 2(1,4,5) by simp
  next
    case False
    show ?thesis
    proof (cases "p = ''..''")
      case True then show ?thesis using 2(2) [OF False True tl] 2(5) False by simp
    next
      case nn: False
      have "plain p" using False nn 2(5) by (simp add: plain_def)
      have "\<forall>q \<in> set (clean_rooted (p # st) ps). plain q"
        by (rule 2(3) [OF False nn]) (use \<open>plain p\<close> 2(4,5) in auto)
      then show ?thesis using False nn by simp
    qed
  qed
qed simp

lemma key_elements_plain: "p \<in> set (key_elements key) \<Longrightarrow> plain p"
  using clean_rooted_plain [of "[]" "split_slash (map (\<lambda>c. if c = CHR 0x5C then CHR ''/'' else c) key)"] split_slash_elements
  unfolding key_elements_def by simp

lemma objectPath_Some: "objectPath f key = Some p \<longleftrightarrow> key_elements key \<noteq> [] \<and> p = join_path (objects_dir f) (key_elements key)"
  by (cases "key_elements key") (auto simp: objectPath_def join_path_def Let_def)

section \<open>The contract as a locale\<close>

text \<open>
  What a client may rely on: \<open>content\<close> is the object at a key and \<open>part\<close> an accepted part of an upload.
  All laws are about reported successes; they hold whatever faults happen on the way.
\<close>

locale object_store =
  fixes ops :: "'s store_ops"
    and content :: "'s \<Rightarrow> string \<Rightarrow> bytes option"
    and part :: "'s \<Rightarrow> string \<Rightarrow> int \<Rightarrow> bytes option"
  assumes get: "so_Get ops key s = (Inr bs, s') \<Longrightarrow> content s key = Some bs"
    and upload: "so_UploadPart ops key uid n data (int (length data)) s = (Inr p, s') \<Longrightarrow>
      pa_Number p = n \<and> part s' uid n = Some data \<and> (\<forall>m. 0 < m \<longrightarrow> m \<noteq> n \<longrightarrow> part s' uid m = part s uid m)"
    and listing: "so_ListParts ops key uid s = (r, s') \<Longrightarrow> part s' = part s"
    and complete: "so_CompleteMultipart ops key uid ps s = (None, s') \<Longrightarrow> sorted_wrt (<) (map pa_Number ps) \<Longrightarrow>
      content s' key = Some (concat (map (\<lambda>p. the (part s uid (pa_Number p))) ps))"

definition fs_content :: "FS \<Rightarrow> string \<Rightarrow> bytes option" where
  "fs_content f key = (case objectPath f key of None \<Rightarrow> None | Some p \<Rightarrow> map_option fdata (map_of (w_dir (fs_w f)) p))"

definition fs_part :: "FS \<Rightarrow> string \<Rightarrow> int \<Rightarrow> bytes option" where
  "fs_part f uid n = map_option fdata (map_of (w_dir (fs_w f)) (part_path f uid n))"

lemma os_ctl_dir: "os_ctl w = (b, w') \<Longrightarrow> w_dir w' = w_dir w"
  by (auto simp: os_ctl_def split: prod.splits io_out.splits dest: io_next_frame)

lemma os_lookup_dir: "os_lookup p w = (r, w') \<Longrightarrow> w_dir w' = w_dir w \<and> (\<forall>x. r = Some x \<longrightarrow> x = map_option fdata (map_of (w_dir w) p))"
  by (auto simp: os_lookup_def split: prod.splits bool.splits dest: os_ctl_dir)

lemma os_create_dir: "os_create p w = (True, w') \<Longrightarrow> map_of (w_dir w') = (map_of (w_dir w))(p \<mapsto> \<lparr>fdata = [], mtime = w_now w'\<rparr>)"
  by (auto simp: os_create_def os_simps split: prod.splits bool.splits dest!: os_ctl_dir)

lemma os_rename_dir:
  "os_rename a b w = (True, w') \<Longrightarrow> a \<noteq> b \<Longrightarrow>
   map_of (w_dir w') = (map_of (w_dir w))(b := map_of (w_dir w) a, a := None) \<and> map_of (w_dir w) a \<noteq> None"
  by (auto simp: os_rename_def update_conv' delete_conv' split: prod.splits bool.splits option.splits dest!: os_ctl_dir)

lemma os_write_dir:
  "os_write p pos bs w = (True, c, w') \<Longrightarrow> c = pos + length bs \<and>
   map_of (w_dir w') = (map_of (w_dir w))(p \<mapsto> \<lparr>fdata = overwrite pos bs (file_data w p), mtime = w_now w'\<rparr>)"
  by (auto simp: os_write_def os_simps io_next_file_data split: prod.splits io_out.splits dest: io_next_frame)

lemma file_data_map: "map_of (w_dir w) p = Some x \<Longrightarrow> file_data w p = fdata x"
  by (simp add: file_data_def file_of_def)

section \<open>The filesystem backend keeps the contract\<close>

lemma pad5_inject:
  assumes "0 < m" "0 < n" "pad5 m = pad5 n"
  shows "m = n"
proof -
  have "parse_dec (pad5 x) = nat x" if "0 < x" for x
    using that by (simp add: pad5_def parse_dec_zeros parse_dec_dec)
  from this [OF assms(1)] this [OF assms(2)] show ?thesis using assms by simp
qed

lemma pad5_digit: "0 < n \<Longrightarrow> \<exists>c r. pad5 n = c # r \<and> is_digit c"
proof -
  assume n: "0 < n"
  have "pad5 n \<noteq> []" "\<forall>c \<in> set (pad5 n). is_digit c"
    using n is_digit_dec by (auto simp: pad5_def is_digit_def [of "CHR ''0''"])
  then show ?thesis by (cases "pad5 n") auto
qed

lemma part_path_eq: "0 < m \<Longrightarrow> 0 < n \<Longrightarrow> part_path f uid m = part_path f uid n \<longleftrightarrow> m = n"
  using pad5_inject [of m n] by (auto simp: part_path_def)

lemma part_tmp_ne: "0 < m \<Longrightarrow> part_tmp f uid n \<noteq> part_path f uid m"
  using pad5_digit [of m] by (auto simp: part_tmp_def part_path_def is_digit_def)

lemma object_not_upload: "objectPath f key = Some p \<Longrightarrow> p @ x \<noteq> uploadDir f uid @ y"
  by (cases "key_elements key") (auto simp: objectPath_Some join_path_def objects_dir_def uploadDir_def)

lemma store_part_ok:
  assumes "store_part tmp final data nbytes w = (None, w')" "file_data w tmp = []" "tmp \<noteq> final"
  shows "map_option fdata (map_of (w_dir w') final) = Some data"
    "p \<noteq> tmp \<Longrightarrow> p \<noteq> final \<Longrightarrow> map_of (w_dir w') p = map_of (w_dir w) p"
proof -
  obtain c w1 w2 where w: "os_write tmp 0 data w = (True, c, w1)" "os_ctl w1 = (True, w2)" "os_rename tmp final w2 = (True, w')"
    using assms(1) by (auto simp: store_part_def split: prod.splits if_splits bool.splits)
  have "map_of (w_dir w2) = (map_of (w_dir w))(tmp \<mapsto> \<lparr>fdata = data, mtime = w_now w1\<rparr>)"
    using os_write_dir [OF w(1)] os_ctl_dir [OF w(2)] assms(2) by (simp add: overwrite_def)
  then show "map_option fdata (map_of (w_dir w') final) = Some data"
    "p \<noteq> tmp \<Longrightarrow> p \<noteq> final \<Longrightarrow> map_of (w_dir w') p = map_of (w_dir w) p"
    using os_rename_dir [OF w(3) assms(3)] assms(3) by auto
qed

lemma fs_upload:
  assumes "fs_UploadPart key uid n data (int (length data)) f = (Inr p, f')"
  shows "pa_Number p = n \<and> fs_part f' uid n = Some data \<and> (\<forall>m. 0 < m \<longrightarrow> m \<noteq> n \<longrightarrow> fs_part f' uid m = fs_part f uid m)"
proof -
  let ?t = "part_tmp f uid n" and ?p = "part_path f uid n"
  obtain w1 w2 w3 where w: "os_ctl (fs_w f) = (True, w1)" "os_create ?t w1 = (True, w2)"
    "store_part ?t ?p data (int (length data)) w2 = (None, w3)" "f' = with_w f w3" "pa_Number p = n" "1 \<le> n"
    using assms by (auto simp: fs_UploadPart_def Let_def split: prod.splits if_splits bool.splits option.splits)
  have d: "map_of (w_dir w2) = (map_of (w_dir (fs_w f)))(?t \<mapsto> \<lparr>fdata = [], mtime = w_now w2\<rparr>)"
    using os_create_dir [OF w(2)] os_ctl_dir [OF w(1)] by simp
  have ne: "?t \<noteq> part_path f uid m" if "0 < m" for m using part_tmp_ne that by blast
  have "file_data w2 ?t = []" using d by (simp add: file_data_def file_of_def)
  note st = store_part_ok [OF w(3) this]
  have same: "part_path f' = part_path f" by (simp add: w(4) part_path_def uploadDir_def fun_eq_iff)
  have w3: "fs_w f' = w3" by (simp add: w(4))
  have "fs_part f' uid n = Some data" using st(1) ne w(6) by (simp add: fs_part_def same w3)
  moreover have "fs_part f' uid m = fs_part f uid m" if "0 < m" "m \<noteq> n" for m
  proof -
    have "part_path f uid m \<noteq> ?p" using part_path_eq [of m n] that w(6) by simp
    then have "map_of (w_dir w3) (part_path f uid m) = map_of (w_dir w2) (part_path f uid m)"
      using st(2) ne [of m] ne [of n] that w(6) by auto
    then show ?thesis using d ne [of m] that by (simp add: fs_part_def same w3)
  qed
  ultimately show ?thesis using w(5) by blast
qed

lemma list_parts_dir: "w_dir (snd (list_parts dir names w)) = w_dir w"
proof (induction names arbitrary: w)
  case (Cons name names)
  obtain b w1 where c: "os_ctl w = (b, w1)" by fastforce
  show ?case
    using Cons [of w] Cons [of w1] os_ctl_dir [OF c] by (auto simp: c Let_def split: option.split bool.split prod.split)
qed simp

lemma fs_listing:
  assumes "fs_ListParts key uid f = (r, f')"
  shows "fs_part f' = fs_part f"
proof -
  obtain b w1 where c: "os_ctl (fs_w f) = (b, w1)" by fastforce
  let ?l = "list_parts (uploadDir f uid) (sort (dir_names (uploadDir f uid) w1)) w1"
  have "f' = with_w f w1 \<or> f' = with_w f (snd ?l)"
    using assms by (auto simp: fs_ListParts_def c split: bool.splits if_splits prod.splits)
  then have "fs_root f' = fs_root f" "w_dir (fs_w f') = w_dir (fs_w f)"
    using os_ctl_dir [OF c] list_parts_dir [of "uploadDir f uid" _ w1] by auto
  then show ?thesis by (simp add: fs_part_def part_path_def uploadDir_def fun_eq_iff)
qed

lemma assemble_ok:
  assumes "assemble f uid tmp ps n w = (None, n', w')" "n = length (file_data w tmp)" "map_of (w_dir w) tmp \<noteq> None"
    "\<And>p. p \<in> set ps \<Longrightarrow> part_path f uid (pa_Number p) \<noteq> tmp"
  shows "file_data w' tmp = file_data w tmp @ concat (map (\<lambda>p. fdata (the (map_of (w_dir w) (part_path f uid (pa_Number p))))) ps) \<and>
    map_of (w_dir w') tmp \<noteq> None \<and> (\<forall>q. q \<noteq> tmp \<longrightarrow> map_of (w_dir w') q = map_of (w_dir w) q) \<and>
    (\<forall>p \<in> set ps. map_of (w_dir w) (part_path f uid (pa_Number p)) \<noteq> None)"
  using assms
proof (induction ps arbitrary: n w)
  case (Cons p ps)
  let ?q = "part_path f uid (pa_Number p)"
  obtain data w1 n2 w2 where s: "os_lookup ?q w = (Some (Some data), w1)" "os_write tmp n data w1 = (True, n2, w2)"
    "assemble f uid tmp ps n2 w2 = (None, n', w')"
    using Cons(2) by (auto split: prod.splits option.splits bool.splits)
  have l: "w_dir w1 = w_dir w" "map_option fdata (map_of (w_dir w) ?q) = Some data" using os_lookup_dir [OF s(1)] by auto
  have fd: "file_data w1 x = file_data w x" if "map_of (w_dir w) x \<noteq> None" for x
    using that l(1) by (auto simp: file_data_def file_of_def)
  have w2: "n2 = n + length data" "map_of (w_dir w2) = (map_of (w_dir w))(tmp \<mapsto> \<lparr>fdata = file_data w tmp @ data, mtime = w_now w2\<rparr>)"
    using os_write_dir [OF s(2)] l(1) fd [of tmp] Cons(3,4) by auto
  have t2: "file_data w2 tmp = file_data w tmp @ data" using w2(2) by (simp add: file_data_def file_of_def)
  have ih: "file_data w' tmp = file_data w2 tmp @ concat (map (\<lambda>p. fdata (the (map_of (w_dir w2) (part_path f uid (pa_Number p))))) ps) \<and>
      map_of (w_dir w') tmp \<noteq> None \<and> (\<forall>q. q \<noteq> tmp \<longrightarrow> map_of (w_dir w') q = map_of (w_dir w2) q) \<and>
      (\<forall>p \<in> set ps. map_of (w_dir w2) (part_path f uid (pa_Number p)) \<noteq> None)"
    by (rule Cons(1) [OF s(3)]) (use w2 t2 Cons(3,5) in auto)
  have eq: "map (\<lambda>p. fdata (the (map_of (w_dir w2) (part_path f uid (pa_Number p))))) ps =
      map (\<lambda>p. fdata (the (map_of (w_dir w) (part_path f uid (pa_Number p))))) ps"
    using Cons(5) by (auto simp: w2(2))
  have "fdata (the (map_of (w_dir w) ?q)) = data" using l(2) by auto
  moreover have "\<forall>q. q \<noteq> tmp \<longrightarrow> map_of (w_dir w2) q = map_of (w_dir w) q" by (simp add: w2(2))
  moreover have "map_of (w_dir w) ?q \<noteq> None" using l(2) by auto
  moreover have "\<forall>p \<in> set ps. map_of (w_dir w2) (part_path f uid (pa_Number p)) = map_of (w_dir w) (part_path f uid (pa_Number p))"
    using Cons(5) by (simp add: w2(2))
  ultimately show ?case using ih unfolding eq t2 by simp
qed simp

lemma map_of_filter_key: "P k \<Longrightarrow> map_of (filter (\<lambda>(p, x). P p) al) k = map_of al k"
  by (induction al) auto

lemma sorted_sort_key: "sorted_wrt (<) (map pa_Number ps) \<Longrightarrow> sort_key pa_Number ps = ps"
  by (rule sort_key_id_if_sorted) (simp add: strict_sorted_iff)

lemma finish_object_ok:
  assumes "finish_object tmp dst w = (True, w')" "tmp \<noteq> dst" "map_of (w_dir w) tmp \<noteq> None"
  shows "map_option fdata (map_of (w_dir w') dst) = Some (file_data w tmp)"
proof -
  obtain w1 w2 where w: "os_ctl w = (True, w1)" "os_ctl w1 = (True, w2)" "os_rename tmp dst w2 = (True, w')"
    using assms(1) by (auto simp: finish_object_def split: prod.splits bool.splits)
  then have "w_dir w2 = w_dir w" using os_ctl_dir by metis
  then show ?thesis using os_rename_dir [OF w(3) assms(2)] assms(2,3) by (auto simp: file_data_def file_of_def)
qed

lemma fs_complete:
  assumes "fs_CompleteMultipart key uid ps f = (None, f')" "sorted_wrt (<) (map pa_Number ps)"
  shows "fs_content f' key = Some (concat (map (\<lambda>p. the (fs_part f uid (pa_Number p))) ps))"
proof -
  obtain d dst w1 w2 n w3 w4 d2 where s: "objectPath f key = Some dst" "os_ctl (fs_w f) = (True, w1)"
    "os_create (dst @ ''.assembling'') w1 = (True, w2)" "assemble (with_docs f d) uid (dst @ ''.assembling'') ps 0 w2 = (None, n, w3)"
    "finish_object (dst @ ''.assembling'') dst w3 = (True, w4)" "fs_RemoveAll uid (with_docs (with_w (with_docs f d) w4) d2) = (None, f')"
    using assms
    by (auto simp: fs_CompleteMultipart_def Let_def sorted_sort_key objectPath_Some objects_dir_def
        split: prod.splits read_result.splits option.splits bool.splits)
  let ?tmp = "dst @ ''.assembling''"
  have paths: "part_path (with_docs f d) uid x = part_path f uid x" for x by (simp add: part_path_def uploadDir_def)
  have ne: "part_path f uid x \<noteq> ?tmp" for x
    using object_not_upload [OF s(1), of "''.assembling''"] by (simp add: part_path_def)
  have d2: "map_of (w_dir w2) = (map_of (w_dir (fs_w f)))(?tmp \<mapsto> \<lparr>fdata = [], mtime = w_now w2\<rparr>)"
    using os_create_dir [OF s(3)] os_ctl_dir [OF s(2)] by simp
  then have t2: "file_data w2 ?tmp = []" "map_of (w_dir w2) ?tmp \<noteq> None" by (simp_all add: file_data_def file_of_def)
  have a: "file_data w3 ?tmp = concat (map (\<lambda>p. fdata (the (map_of (w_dir w2) (part_path f uid (pa_Number p))))) ps)"
    "map_of (w_dir w3) ?tmp \<noteq> None" "\<forall>p \<in> set ps. map_of (w_dir w2) (part_path f uid (pa_Number p)) \<noteq> None"
    using assemble_ok [OF s(4)] t2 ne by (simp_all add: paths)
  have w4: "map_option fdata (map_of (w_dir w4) dst) = Some (file_data w3 ?tmp)"
    by (rule finish_object_ok [OF s(5) _ a(2)]) simp
  have f': "objectPath f' key = Some dst" "map_of (w_dir (fs_w f')) dst = map_of (w_dir w4) dst"
  proof -
    obtain w5 where w5: "os_ctl w4 = (True, w5)"
      "f' = (with_docs f d2)\<lparr>fs_w := w5\<lparr>w_dir := filter (\<lambda>(p, x). \<not> under (uploadDir f uid) p) (w_dir w5)\<rparr>,
         fs_docs := d2\<lparr>dc_files := filter (\<lambda>(p, x). \<not> under (uploadDir f uid) p) (dc_files d2)\<rparr>, fs_dirs := removeAll uid (fs_dirs f)\<rparr>"
      using s(6) by (auto simp: fs_RemoveAll_def uploadDir_def split: prod.splits bool.splits)
    then show "objectPath f' key = Some dst" using s(1) by (simp add: objectPath_Some objects_dir_def)
    have "\<not> under (uploadDir f uid) dst"
      using object_not_upload [OF s(1), of "[]" uid] by (metis append_Nil2 append_assoc append_take_drop_id under_def)
    then show "map_of (w_dir (fs_w f')) dst = map_of (w_dir w4) dst"
      using w5 os_ctl_dir [OF w5(1)] by (simp add: map_of_filter_key)
  qed
  have eq: "map (\<lambda>p. fdata (the (map_of (w_dir w2) (part_path f uid (pa_Number p))))) ps = map (\<lambda>p. the (fs_part f uid (pa_Number p))) ps"
  proof (rule map_cong [OF refl])
    fix p assume "p \<in> set ps"
    then obtain x where "map_of (w_dir w2) (part_path f uid (pa_Number p)) = Some x" using a(3) by blast
    moreover then have "map_of (w_dir (fs_w f)) (part_path f uid (pa_Number p)) = Some x" using d2 ne by simp
    ultimately show "fdata (the (map_of (w_dir w2) (part_path f uid (pa_Number p)))) = the (fs_part f uid (pa_Number p))"
      by (simp add: fs_part_def)
  qed
  show ?thesis using w4 unfolding a(1) eq by (simp add: fs_content_def f')
qed

lemma fs_get:
  assumes "fs_Get key f = (Inr bs, f')"
  shows "fs_content f key = Some bs"
proof -
  obtain p w where p: "objectPath f key = Some p" "os_lookup p (fs_w f) = (Some (Some bs), w)"
    using assms by (auto simp: fs_Get_def split: option.splits prod.splits)
  then have "Some bs = map_option fdata (map_of (w_dir (fs_w f)) p)" using os_lookup_dir by blast
  then show ?thesis using p(1) by (simp add: fs_content_def)
qed

lemma fs_ops_sel:
  "so_Get fs_ops = fs_Get" "so_UploadPart fs_ops = fs_UploadPart" "so_ListParts fs_ops = fs_ListParts"
  "so_CompleteMultipart fs_ops = fs_CompleteMultipart" "so_CreateMultipart fs_ops = fs_CreateMultipart"
  "so_Stat fs_ops = fs_Stat" "so_AbortMultipart fs_ops = fs_AbortMultipart" "so_Delete fs_ops = fs_Delete"
  by (simp_all add: fs_ops_def)

interpretation fs_store: object_store fs_ops fs_content fs_part
  by (unfold_locales, unfold fs_ops_sel) (erule fs_get, erule fs_upload, erule fs_listing, erule (1) fs_complete)

section \<open>Properties\<close>

text \<open>
  C35: no key escapes the archive. For every string used as a key, with any slashes, backslashes and dots,
  the filesystem backend either refuses it, exactly when it denotes the root itself, or maps it to a path
  below the objects directory whose further elements are all ordinary names.
\<close>

theorem object_path_contained:
  "(objectPath f key = None \<longleftrightarrow> key_elements key = []) \<and>
   (\<forall>p. objectPath f key = Some p \<longrightarrow>
      (\<exists>ps. ps \<noteq> [] \<and> p = join_path (fs_root f @ ''/objects'') ps \<and> (\<forall>e \<in> set ps. plain e)))"
proof -
  have "objectPath f key = None \<longleftrightarrow> key_elements key = []"
    using objectPath_Some [of f key] by (cases "objectPath f key") auto
  moreover have "\<exists>ps. ps \<noteq> [] \<and> p = join_path (fs_root f @ ''/objects'') ps \<and> (\<forall>e \<in> set ps. plain e)"
    if "objectPath f key = Some p" for p
    using that key_elements_plain unfolding objectPath_Some objects_dir_def by blast
  ultimately show ?thesis by blast
qed

theorem object_path_contained_witness:
  "objectPath \<lparr>fs_root = ''/a'', fs_w = sample_w, fs_docs = sample_docs, fs_dirs = []\<rparr> ''..'' = None \<and>
   (\<exists>ps. join_path (''/a'' @ ''/objects'') ps = ''/a/objects/etc/x'' \<and> (\<forall>e \<in> set ps. plain e))"
proof -
  let ?f = "\<lparr>fs_root = ''/a'', fs_w = sample_w, fs_docs = sample_docs, fs_dirs = []\<rparr>"
  have "key_elements ''..'' = []" "key_elements ''../../etc/./x'' = [''etc'', ''x'']" by code_simp+
  moreover then have "objectPath ?f ''../../etc/./x'' = Some ''/a/objects/etc/x''"
    by (simp add: objectPath_Some objects_dir_def join_path_def)
  ultimately show ?thesis
    using object_path_contained [of ?f "''..''"] object_path_contained [of ?f "''../../etc/./x''"] by simp metis
qed

text \<open>
  Tenant names are not validated anywhere. A tenant called \<^verbatim>\<open>..\<close> is archived to the same path as the topic
  without a tenant.
\<close>

lemma dotdot_tenant_collides:
  "objectPath f (SegmentKeyTenant ''a'' ''..'' ''t'' 0 0) = objectPath f (SegmentKey ''a'' ''t'' 0 0)"
proof -
  have "key_elements (SegmentKeyTenant ''a'' ''..'' ''t'' 0 0) = key_elements (SegmentKey ''a'' ''t'' 0 0)" by code_simp
  then show ?thesis by (simp add: objectPath_def)
qed

end
