(* ===== verification/Uploader.thy ===== *)
theory Uploader
  imports Object_Store
begin

text \<open>
  The uploader (\<^verbatim>\<open>internal/tiering/uploader.go\<close>) and the registry's view of sealed segments
  (\<^verbatim>\<open>broker/tiering_adapter.go\<close>). It is written against the store contract. Shown: an upload that reports
  success has stored exactly the bytes of the segment and recorded them, on any backend that keeps the
  contract and whatever fails on the way; and that a resumed upload assembles a corrupt object when the
  configured part size changed in between.
\<close>

section \<open>Model\<close>

record UploaderCfg =
  uc_Prefix :: string
  uc_ArchiveAge :: int
  uc_PartSize :: int
  uc_Tick :: int
  uc_Concurrency :: int
  uc_HMACKey :: bytes
  uc_TenantResolver :: "(string \<Rightarrow> int \<Rightarrow> string) option"

definition NewUploader_cfg :: "UploaderCfg \<Rightarrow> UploaderCfg" where
  "NewUploader_cfg cfg =
     cfg\<lparr>uc_PartSize := (if uc_PartSize cfg \<le> 0 then 5 * 1024 * 1024 else uc_PartSize cfg),
         uc_Tick := (if uc_Tick cfg \<le> 0 then 30 * 1000000000 else uc_Tick cfg),
         uc_Concurrency := (if uc_Concurrency cfg \<le> 0 then 2 else uc_Concurrency cfg),
         uc_ArchiveAge := (if uc_ArchiveAge cfg \<le> 0 then 3600 * 1000000000 else uc_ArchiveAge cfg)\<rparr>"

record segmentSource =
  ss_topic :: string
  ss_partition :: int
  ss_seg :: Segment

text \<open>\<open>topics\<close> are the registry's topics with their logs; a closed log panics.\<close>

fun sealed_sources :: "string \<Rightarrow> Log list \<Rightarrow> log_err + segmentSource list" where
  "sealed_sources name [] = Inr []"
| "sealed_sources name (l # ls) =
     (case SealedSegments l of
        Inl e \<Rightarrow> Inl e
      | Inr segs \<Rightarrow>
          (case sealed_sources name ls of
             Inl e \<Rightarrow> Inl e
           | Inr out \<Rightarrow> Inr (map (\<lambda>seg. \<lparr>ss_topic = name, ss_partition = lg_partition l, ss_seg = seg\<rparr>) segs @ out)))"

fun AllSealedSegments :: "(string \<times> Log list) list \<Rightarrow> log_err + segmentSource list" where
  "AllSealedSegments [] = Inr []"
| "AllSealedSegments ((name, ls) # ts) =
     (case sealed_sources name ls of
        Inl e \<Rightarrow> Inl e
      | Inr a \<Rightarrow> (case AllSealedSegments ts of Inl e \<Rightarrow> Inl e | Inr b \<Rightarrow> Inr (a @ b)))"

text \<open>What an upload reads and changes: the store, the manifest with its files, and the broker's disk.\<close>

record 's archiver =
  av_store :: 's
  av_manifest :: Manifest
  av_docs :: docs
  av_w :: world

datatype up_err = UpOpen | UpStat | UpHash | UpSeek | UpPanic | UpCreate store_err | UpCheckpoint manifest_err | UpRead
  | UpPart int store_err | UpComplete store_err | UpReplaced | UpRecord manifest_err

definition set_pending :: "PendingUpload \<Rightarrow> 's archiver \<Rightarrow> manifest_err option \<times> 's archiver" where
  "set_pending p st =
     (case SetPending p (av_manifest st) (av_docs st) of (e, m, d) \<Rightarrow> (e, st\<lparr>av_manifest := m, av_docs := d\<rparr>))"

definition abort_pending :: "string \<Rightarrow> 's archiver \<Rightarrow> manifest_err option \<times> 's archiver" where
  "abort_pending key st =
     (case AbortPending key (av_manifest st) (av_docs st) of (e, m, d) \<Rightarrow> (e, st\<lparr>av_manifest := m, av_docs := d\<rparr>))"

definition add_completed :: "SegmentEntry \<Rightarrow> 's archiver \<Rightarrow> manifest_err option \<times> 's archiver" where
  "add_completed e st =
     (case AddCompleted e (av_manifest st) (av_docs st) of (err, m, d) \<Rightarrow> (err, st\<lparr>av_manifest := m, av_docs := d\<rparr>))"

definition tryAbort :: "'s store_ops \<Rightarrow> string \<Rightarrow> string \<Rightarrow> 's archiver \<Rightarrow> 's archiver" where
  "tryAbort ops key uid st =
     snd (abort_pending key (st\<lparr>av_store := snd (so_AbortMultipart ops key uid (av_store st))\<rparr>))"

text \<open>The contiguous prefix of listed parts that a resumed upload trusts.\<close>

fun accept_parts :: "int \<Rightarrow> nat \<Rightarrow> nat \<Rightarrow> Part list \<Rightarrow> Part list" where
  "accept_parts partSize n i [] = []"
| "accept_parts partSize n i (ep # eps) =
     (if pa_Number ep \<noteq> int i + 1 \<or> (i + 1 < n \<and> pa_Size ep \<noteq> partSize) then []
      else ep # accept_parts partSize n (i + 1) eps)"

definition pending_part :: "Part \<Rightarrow> PendingUploadPart" where
  "pending_part ep = \<lparr>pp_PartNumber = i32 (pa_Number ep), pp_ETag = pa_ETag ep, pp_SizeBytes = pa_Size ep\<rparr>"

definition resume_upload :: "'s store_ops \<Rightarrow> UploaderCfg \<Rightarrow> string \<Rightarrow> string \<Rightarrow> 's archiver \<Rightarrow>
    (up_err + (string \<times> Part list \<times> PendingUpload) option) \<times> 's archiver" where
  "resume_upload ops cfg key sha st =
     (case GetPending key (av_manifest st) of
        Inl _ \<Rightarrow> (Inl UpPanic, st)
      | Inr None \<Rightarrow> (Inr None, st)
      | Inr (Some prev) \<Rightarrow>
          if pu_UploadID prev = [] \<or> pu_SHA256 prev \<noteq> sha then (Inr None, st)
          else (case so_ListParts ops key (pu_UploadID prev) (av_store st) of
             (Inl _, s) \<Rightarrow> (Inr None, st\<lparr>av_store := s\<rparr>)
           | (Inr existing, s) \<Rightarrow>
               let st = st\<lparr>av_store := s\<rparr>; existing = accept_parts (uc_PartSize cfg) (length existing) 0 existing in
               if existing = [] then (Inr None, st)
               else (case os_ctl (av_w st) of
                  (False, w) \<Rightarrow> (Inl UpSeek, st\<lparr>av_w := w\<rparr>)
                | (True, w) \<Rightarrow>
                    (Inr (Some (pu_UploadID prev, existing, prev\<lparr>pu_Parts := map pending_part existing\<rparr>)), st\<lparr>av_w := w\<rparr>))))"

text \<open>
  The loop that reads and sends parts; \<open>rest\<close> is what the open file still holds. \<^verbatim>\<open>io.ReadFull\<close> delivers
  \<open>k\<close> bytes, or fewer with an end-of-file error.
\<close>

function send_parts :: "'s store_ops \<Rightarrow> nat \<Rightarrow> string \<Rightarrow> string \<Rightarrow> bytes \<Rightarrow> Part list \<Rightarrow> PendingUpload \<Rightarrow> int \<Rightarrow> 's archiver \<Rightarrow>
    up_err option \<times> Part list \<times> int \<times> 's archiver" where
  "send_parts ops k key uid rest parts pending sent st =
     (case os_ctl (av_w st) of
        (False, w) \<Rightarrow> (Some UpRead, parts, sent, tryAbort ops key uid (st\<lparr>av_w := w\<rparr>))
      | (True, w) \<Rightarrow>
          let buf = take k rest; st = st\<lparr>av_w := w\<rparr>; partNum = int (length parts) + 1 in
          if buf = [] then (None, parts, sent, st)
          else (case so_UploadPart ops key uid partNum buf (int (length buf)) (av_store st) of
             (Inl e, s) \<Rightarrow> (Some (UpPart partNum e), parts, sent, tryAbort ops key uid (st\<lparr>av_store := s\<rparr>))
           | (Inr p, s) \<Rightarrow>
               let parts = parts @ [p];
                   pending = pending\<lparr>pu_Parts := pu_Parts pending @
                     [\<lparr>pp_PartNumber = i32 partNum, pp_ETag = pa_ETag p, pp_SizeBytes = int (length buf)\<rparr>]\<rparr>;
                   st = snd (set_pending pending (st\<lparr>av_store := s\<rparr>));
                   sent = sent + int (length buf)
               in if length buf < k then (None, parts, sent, st)
                  else send_parts ops k key uid (drop k rest) parts pending sent st))"
  by pat_completeness auto
termination
  by (relation "measure (\<lambda>(ops, k, key, uid, rest, parts, pending, sent, st). length rest)") auto

definition segment_meta :: "segmentSource \<Rightarrow> string \<Rightarrow> (string \<times> string) list" where
  "segment_meta seg sha = [(''sha256'', sha), (''topic'', ss_topic seg), (''partition'', dec_int (ss_partition seg)),
     (''baseoffset'', dec_int (Segment_BaseOffset (ss_seg seg)))]"

text \<open>The upload to use: the resumed one or a new one (\<open>rnd\<close> for its id), checkpointed.\<close>

definition begin_upload :: "'s store_ops \<Rightarrow> UploaderCfg \<Rightarrow> segmentSource \<Rightarrow> string \<Rightarrow> string \<Rightarrow> string \<Rightarrow> bytes \<Rightarrow> int \<Rightarrow> 's archiver \<Rightarrow>
    (up_err + string \<times> Part list \<times> PendingUpload) \<times> 's archiver" where
  "begin_upload ops cfg seg tenantID key sha rnd now st =
     (case resume_upload ops cfg key sha st of
        (Inl e, st) \<Rightarrow> (Inl e, st)
      | (Inr r, st) \<Rightarrow>
          (case (case r of
                   Some u \<Rightarrow> (Inr u, st)
                 | None \<Rightarrow>
                     (case so_CreateMultipart ops key (segment_meta seg sha) rnd (av_store st) of
                        (Inl e, s) \<Rightarrow> (Inl (UpCreate e), st\<lparr>av_store := s\<rparr>)
                      | (Inr uid, s) \<Rightarrow>
                          (Inr (uid, [], \<lparr>pu_Topic = ss_topic seg, pu_Partition = ss_partition seg,
                             pu_BaseOffset = Segment_BaseOffset (ss_seg seg), pu_NextOffset = Segment_NextOffset (ss_seg seg),
                             pu_TenantID = tenantID, pu_SHA256 = sha, pu_S3Key = key, pu_UploadID = uid, pu_Parts = [],
                             pu_StartedAt = now\<rparr>), st\<lparr>av_store := s\<rparr>))) of
             (Inl e, st) \<Rightarrow> (Inl e, st)
           | (Inr (uid, parts, pending), st) \<Rightarrow>
               (case set_pending pending st of
                  (Some e, st) \<Rightarrow> (Inl (UpCheckpoint e), st)
                | (None, st) \<Rightarrow> (Inr (uid, parts, pending), st))))"

definition resolve_tenant :: "UploaderCfg \<Rightarrow> segmentSource \<Rightarrow> string" where
  "resolve_tenant cfg seg = (case uc_TenantResolver cfg of None \<Rightarrow> [] | Some f \<Rightarrow> f (ss_topic seg) (ss_partition seg))"

definition segment_key :: "UploaderCfg \<Rightarrow> segmentSource \<Rightarrow> string" where
  "segment_key cfg seg =
     SegmentKeyTenant (uc_Prefix cfg) (resolve_tenant cfg seg) (ss_topic seg) (ss_partition seg) (Segment_BaseOffset (ss_seg seg))"

definition upload_entry :: "UploaderCfg \<Rightarrow> segmentSource \<Rightarrow> string \<Rightarrow> int \<Rightarrow> int \<Rightarrow> SegmentEntry" where
  "upload_entry cfg seg sha sent now =
     \<lparr>ar_Topic = ss_topic seg, ar_Partition = ss_partition seg, ar_BaseOffset = Segment_BaseOffset (ss_seg seg),
      ar_NextOffset = Segment_NextOffset (ss_seg seg), ar_SizeBytes = sent, ar_SHA256 = sha, ar_S3Key = segment_key cfg seg,
      ar_UploadedAt = now, ar_TenantID = resolve_tenant cfg seg,
      ar_HMACSignature = (if uc_HMACKey cfg = [] then []
        else SegmentSignature (uc_HMACKey cfg) (resolve_tenant cfg seg) (ss_topic seg) (ss_partition seg) (Segment_BaseOffset (ss_seg seg)) sha)\<rparr>"

text \<open>
  Completion: assemble, check that the file at the path is still the one that was read (\<open>replaced\<close> is
  \<^verbatim>\<open>!os.SameFile\<close>), record.
\<close>

definition finish_upload :: "'s store_ops \<Rightarrow> UploaderCfg \<Rightarrow> segmentSource \<Rightarrow> string \<Rightarrow> string \<Rightarrow> string \<Rightarrow> Part list \<Rightarrow> int \<Rightarrow> bool \<Rightarrow> int \<Rightarrow>
    's archiver \<Rightarrow> up_err option \<times> 's archiver" where
  "finish_upload ops cfg seg key sha uid parts sent replaced now st =
     (case so_CompleteMultipart ops key uid parts (av_store st) of
        (Some e, s) \<Rightarrow> (Some (UpComplete e), tryAbort ops key uid (st\<lparr>av_store := s\<rparr>))
      | (None, s) \<Rightarrow>
          let st = st\<lparr>av_store := s\<rparr> in
          (case os_lookup (LogPath (ss_seg seg)) (av_w st) of
             (r, w) \<Rightarrow>
               let st = st\<lparr>av_w := w\<rparr> in
               if r = None \<or> r = Some None \<or> replaced then (Some UpReplaced, snd (abort_pending key st))
               else (case add_completed (upload_entry cfg seg sha sent now) st of
                  (Some e, st) \<Rightarrow> (Some (UpRecord e), st)
                | (None, st) \<Rightarrow> (None, st))))"

definition transfer :: "'s store_ops \<Rightarrow> UploaderCfg \<Rightarrow> segmentSource \<Rightarrow> string \<Rightarrow> bytes \<Rightarrow> bytes \<Rightarrow> bool \<Rightarrow> int \<Rightarrow> 's archiver \<Rightarrow>
    up_err option \<times> 's archiver" where
  "transfer ops cfg seg sha data rnd replaced now st =
     (let key = segment_key cfg seg in
      case begin_upload ops cfg seg (resolve_tenant cfg seg) key sha rnd now st of
        (Inl e, st) \<Rightarrow> (Some e, st)
      | (Inr (uid, parts, pending), st) \<Rightarrow>
          let k = nat (uc_PartSize cfg); off = length parts * k in
          (case send_parts ops k key uid (drop off data) parts pending (int off) st of
             (Some e, _, _, st) \<Rightarrow> (Some e, st)
           | (None, parts, sent, st) \<Rightarrow> finish_upload ops cfg seg key sha uid parts sent replaced now st))"

definition uploadOne :: "'s store_ops \<Rightarrow> UploaderCfg \<Rightarrow> segmentSource \<Rightarrow> bytes \<Rightarrow> bool \<Rightarrow> int \<Rightarrow> 's archiver \<Rightarrow> up_err option \<times> 's archiver" where
  "uploadOne ops cfg seg rnd replaced now st =
     (case os_lookup (LogPath (ss_seg seg)) (av_w st) of
        (None, w) \<Rightarrow> (Some UpOpen, st\<lparr>av_w := w\<rparr>)
      | (Some None, w) \<Rightarrow> (Some UpOpen, st\<lparr>av_w := w\<rparr>)
      | (Some (Some data), w) \<Rightarrow>
          (case os_ctl w of (False, w) \<Rightarrow> (Some UpStat, st\<lparr>av_w := w\<rparr>) | (True, w) \<Rightarrow>
          (case os_ctl w of (False, w) \<Rightarrow> (Some UpHash, st\<lparr>av_w := w\<rparr>) | (True, w) \<Rightarrow>
          (case os_ctl w of (False, w) \<Rightarrow> (Some UpSeek, st\<lparr>av_w := w\<rparr>) | (True, w) \<Rightarrow>
             transfer ops cfg seg (hex_encode (sha256 data)) data rnd replaced now (st\<lparr>av_w := w\<rparr>)))))"

text \<open>
  One sweep. Uploads run in parallel; they are taken here one after another, which is one of their
  schedules. \<open>env\<close> supplies each upload's random bytes and whether its file was replaced meanwhile.
\<close>

fun uploader_sweep :: "'s store_ops \<Rightarrow> UploaderCfg \<Rightarrow> int \<Rightarrow> (segmentSource \<times> bytes \<times> bool) list \<Rightarrow> 's archiver \<Rightarrow> nat \<times> 's archiver" where
  "uploader_sweep ops cfg now [] st = (0, st)"
| "uploader_sweep ops cfg now ((seg, rnd, replaced) # segs) st =
     (if time_sub now (Segment_CreatedAt (ss_seg seg)) < uc_ArchiveAge cfg then uploader_sweep ops cfg now segs st
      else if manifest_Lookup (ss_topic seg) (ss_partition seg) (Segment_BaseOffset (ss_seg seg)) (av_manifest st) \<noteq> None
      then uploader_sweep ops cfg now segs st
      else (case uploadOne ops cfg seg rnd replaced now st of
         (e, st) \<Rightarrow> (case uploader_sweep ops cfg now segs st of (failed, st) \<Rightarrow> (failed + (if e = None then 0 else 1), st))))"

definition abortStale :: "'s store_ops \<Rightarrow> PendingUpload \<Rightarrow> 's archiver \<Rightarrow> manifest_err option \<times> 's archiver" where
  "abortStale ops p st =
     abort_pending (pu_S3Key p) (st\<lparr>av_store := snd (so_AbortMultipart ops (pu_S3Key p) (pu_UploadID p) (av_store st))\<rparr>)"

definition adopted_entry :: "UploaderCfg \<Rightarrow> PendingUpload \<Rightarrow> ObjectInfo \<Rightarrow> SegmentEntry" where
  "adopted_entry cfg p info =
     (let sha = (if pu_SHA256 p = [] then lookup_str (oi_Metadata info) ''sha256'' else pu_SHA256 p) in
      \<lparr>ar_Topic = pu_Topic p, ar_Partition = pu_Partition p, ar_BaseOffset = pu_BaseOffset p, ar_NextOffset = pu_NextOffset p,
       ar_SizeBytes = oi_Size info, ar_SHA256 = sha, ar_S3Key = pu_S3Key p, ar_UploadedAt = pu_StartedAt p, ar_TenantID = pu_TenantID p,
       ar_HMACSignature = (if uc_HMACKey cfg \<noteq> [] \<and> sha \<noteq> []
         then SegmentSignature (uc_HMACKey cfg) (pu_TenantID p) (pu_Topic p) (pu_Partition p) (pu_BaseOffset p) sha else [])\<rparr>)"

definition reconcileOrAbort :: "'s store_ops \<Rightarrow> UploaderCfg \<Rightarrow> PendingUpload \<Rightarrow> 's archiver \<Rightarrow> 's archiver" where
  "reconcileOrAbort ops cfg p st =
     (case so_Stat ops (pu_S3Key p) (av_store st) of
        (Inl e, s) \<Rightarrow>
          let st = st\<lparr>av_store := s\<rparr> in
          if e \<noteq> StNotFound then st
          else (case so_ListParts ops (pu_S3Key p) (pu_UploadID p) s of
             (Inr (q # qs), s) \<Rightarrow> st\<lparr>av_store := s\<rparr>
           | (_, s) \<Rightarrow> snd (abortStale ops p (st\<lparr>av_store := s\<rparr>)))
      | (Inr info, s) \<Rightarrow>
          let st = st\<lparr>av_store := s\<rparr>; stored = lookup_str (oi_Metadata info) ''sha256'' in
          if pu_SHA256 p \<noteq> [] \<and> stored \<noteq> [] \<and> stored \<noteq> pu_SHA256 p then snd (abortStale ops p st)
          else (case add_completed (adopted_entry cfg p info) st of
             (Some e, st) \<Rightarrow> st
           | (None, st) \<Rightarrow> snd (abort_pending (pu_S3Key p) st)))"

definition reconcile_all :: "'s store_ops \<Rightarrow> UploaderCfg \<Rightarrow> 's archiver \<Rightarrow> up_err option \<times> 's archiver" where
  "reconcile_all ops cfg st =
     (case PendingAll (av_manifest st) of
        Inl _ \<Rightarrow> (Some UpPanic, st)
      | Inr ps \<Rightarrow> (None, foldl (\<lambda>st p. reconcileOrAbort ops cfg p st) st ps))"

declare send_parts.simps [simp del]

section \<open>What an upload leaves alone\<close>

lemma pending_frames [simp]:
  "av_store (snd (set_pending p st)) = av_store st" "av_w (snd (set_pending p st)) = av_w st"
  "av_store (snd (abort_pending key st)) = av_store st" "av_store (snd (add_completed e st)) = av_store st"
  by (simp_all add: set_pending_def abort_pending_def add_completed_def split: prod.split)

lemma set_pending_completed [simp]: "mf_completed (av_manifest (snd (set_pending p st))) = mf_completed (av_manifest st)"
  by (simp add: set_pending_def SetPending_def Let_def split: prod.split)

section \<open>A successful upload stores the segment\<close>

definition numbered :: "Part list \<Rightarrow> bool" where
  "numbered ps \<longleftrightarrow> map pa_Number ps = map int [1..<Suc (length ps)]"

lemma numbered_Nil [simp]: "numbered []"
  by (simp add: numbered_def)

lemma numbered_snoc: "numbered ps \<Longrightarrow> pa_Number p = int (length ps) + 1 \<Longrightarrow> numbered (ps @ [p])"
  by (simp add: numbered_def)

lemma numbered_sorted: "numbered ps \<Longrightarrow> sorted_wrt (<) (map pa_Number ps)"
  by (simp add: numbered_def sorted_wrt_map del: upt_Suc)

lemma numbered_bound:
  assumes "numbered ps" "p \<in> set ps"
  shows "0 < pa_Number p \<and> pa_Number p \<le> int (length ps)"
proof -
  have "pa_Number p \<in> set (map int [1..<Suc (length ps)])" using assms by (metis numbered_def image_eqI set_map)
  then show ?thesis by auto
qed

definition gathered :: "(int \<Rightarrow> bytes option) \<Rightarrow> Part list \<Rightarrow> bytes" where
  "gathered held ps = concat (map (\<lambda>p. the (held (pa_Number p))) ps)"

lemma gathered_cong: "(\<And>p. p \<in> set ps \<Longrightarrow> f (pa_Number p) = g (pa_Number p)) \<Longrightarrow> gathered f ps = gathered g ps"
  unfolding gathered_def by (simp cong: map_cong)

lemma accept_parts_numbers:
  "map pa_Number (accept_parts k n i ps) = map (\<lambda>j. int (i + j) + 1) [0..<length (accept_parts k n i ps)]"
proof (induction ps arbitrary: i)
  case (Cons p ps)
  then show ?case by (auto simp: map_upt_Suc simp del: upt_Suc)
qed simp

lemma accept_parts_numbered: "numbered (accept_parts k n 0 ps)"
  using accept_parts_numbers [of k n 0 ps]
  by (simp add: numbered_def map_Suc_upt [symmetric] o_def add.commute del: map_Suc_upt upt_Suc)

text \<open>The parts a resumed upload would trust are the beginning of the segment.\<close>

definition resume_sound :: "'s store_ops \<Rightarrow> ('s \<Rightarrow> string \<Rightarrow> int \<Rightarrow> bytes option) \<Rightarrow> UploaderCfg \<Rightarrow> string \<Rightarrow> bytes \<Rightarrow> 's archiver \<Rightarrow> bool" where
  "resume_sound ops part cfg key data st \<longleftrightarrow>
     (\<forall>p existing s. GetPending key (av_manifest st) = Inr (Some p) \<longrightarrow>
        so_ListParts ops key (pu_UploadID p) (av_store st) = (Inr existing, s) \<longrightarrow>
        (let acc = accept_parts (uc_PartSize cfg) (length existing) 0 existing
         in gathered (part (av_store st) (pu_UploadID p)) acc = take (length acc * nat (uc_PartSize cfg)) data))"

context object_store
begin

lemma gathered_upload:
  assumes "so_UploadPart ops key uid (int (length ps) + 1) buf (int (length buf)) s = (Inr p, s')" "numbered ps"
  shows "gathered (part s' uid) (ps @ [p]) = gathered (part s uid) ps @ buf" "numbered (ps @ [p])"
proof -
  note u = upload [OF assms(1)]
  have "gathered (part s' uid) ps = gathered (part s uid) ps"
    using u numbered_bound [OF assms(2)] by (fastforce intro!: gathered_cong)
  then show "gathered (part s' uid) (ps @ [p]) = gathered (part s uid) ps @ buf" using u by (simp add: gathered_def)
  show "numbered (ps @ [p])" using u assms(2) by (simp add: numbered_snoc)
qed

lemma send_parts_ok:
  assumes "send_parts ops k key uid rest ps pending sent st = (None, ps', sent', st')" "0 < k" "numbered ps"
  shows "numbered ps' \<and> gathered (part (av_store st') uid) ps' = gathered (part (av_store st) uid) ps @ rest \<and>
    sent' = sent + int (length rest) \<and> mf_completed (av_manifest st') = mf_completed (av_manifest st)"
  using assms
proof (induction rest arbitrary: ps pending sent st rule: length_induct)
  case (1 rest)
  obtain w where w: "os_ctl (av_w st) = (True, w)"
    using 1(2) by (cases "os_ctl (av_w st)") (subst (asm) send_parts.simps, auto split: bool.splits)
  show ?case
  proof (cases "take k rest = []")
    case True
    then show ?thesis using 1(2-4) by (subst (asm) send_parts.simps) (auto simp: w)
  next
    case False
    let ?buf = "take k rest"
    obtain p s where u: "so_UploadPart ops key uid (int (length ps) + 1) ?buf (int (length ?buf)) (av_store st) = (Inr p, s)"
    proof (cases "so_UploadPart ops key uid (int (length ps) + 1) ?buf (int (length ?buf)) (av_store st)")
      case (Pair r s)
      then show ?thesis
        using 1(2) False that by (cases r) (subst (asm) send_parts.simps, simp add: w Let_def, simp)
    qed
    note g = gathered_upload [OF u 1(4)]
    define pend where "pend = pending\<lparr>pu_Parts := pu_Parts pending @
      [\<lparr>pp_PartNumber = i32 (int (length ps) + 1), pp_ETag = pa_ETag p, pp_SizeBytes = int (length ?buf)\<rparr>]\<rparr>"
    define st1 where "st1 = snd (set_pending pend (st\<lparr>av_w := w, av_store := s\<rparr>))"
    have st1: "av_store st1 = s" "mf_completed (av_manifest st1) = mf_completed (av_manifest st)" by (simp_all add: st1_def)
    have run: "(if length ?buf < k then (None, ps @ [p], sent + int (length ?buf), st1)
        else send_parts ops k key uid (drop k rest) (ps @ [p]) pend (sent + int (length ?buf)) st1) = (None, ps', sent', st')"
      using 1(2) False u unfolding st1_def by (subst (asm) send_parts.simps) (simp add: w Let_def pend_def [symmetric] del: length_take take_all split del: if_split)
    show ?thesis
    proof (cases "length ?buf < k")
      case True
      then have "?buf = rest" by simp
      then show ?thesis using run True g st1 by auto
    next
      case False
      then have "length (drop k rest) < length rest" "length ?buf = k" using 1(3) by auto
      moreover have "send_parts ops k key uid (drop k rest) (ps @ [p]) pend (sent + int (length ?buf)) st1 = (None, ps', sent', st')"
        using run False by simp
      ultimately have "numbered ps' \<and> gathered (part (av_store st') uid) ps' = gathered (part (av_store st1) uid) (ps @ [p]) @ drop k rest \<and>
          sent' = sent + int (length ?buf) + int (length (drop k rest)) \<and> mf_completed (av_manifest st') = mf_completed (av_manifest st1)"
        using 1(1) 1(3) g(2) by blast
      then show ?thesis using g(1) st1 False by auto
    qed
  qed
qed

lemma finish_upload_ok:
  assumes "finish_upload ops cfg seg key sha uid ps sent replaced now st = (None, st')" "numbered ps"
  shows "content (av_store st') key = Some (gathered (part (av_store st) uid) ps) \<and>
    (\<exists>st1. add_completed (upload_entry cfg seg sha sent now) st1 = (None, st') \<and> av_manifest st1 = av_manifest st)"
proof -
  obtain s where s: "so_CompleteMultipart ops key uid ps (av_store st) = (None, s)"
    using assms(1) by (auto simp: finish_upload_def split: prod.splits option.splits)
  obtain r w where w: "os_lookup (LogPath (ss_seg seg)) (av_w st) = (r, w)" by fastforce
  have a: "add_completed (upload_entry cfg seg sha sent now) (st\<lparr>av_store := s, av_w := w\<rparr>) = (None, st')"
    using assms(1) by (auto simp: finish_upload_def s w Let_def split: prod.splits option.splits if_splits)
  have "av_store st' = s" using pending_frames(4) [of "upload_entry cfg seg sha sent now" "st\<lparr>av_store := s, av_w := w\<rparr>"] a by simp
  then show ?thesis
    using complete [OF s numbered_sorted [OF assms(2)]] a by (auto simp: gathered_def)
qed

lemma resume_ok:
  assumes "resume_upload ops cfg key sha st = (Inr r, st')" "resume_sound ops part cfg key data st"
  shows "av_manifest st' = av_manifest st \<and> (case r of None \<Rightarrow> True | Some (uid, ps, pending) \<Rightarrow>
    numbered ps \<and> gathered (part (av_store st') uid) ps = take (length ps * nat (uc_PartSize cfg)) data)"
proof (cases "GetPending key (av_manifest st)")
  case (Inr po)
  show ?thesis
  proof (cases "po = None \<or> pu_UploadID (the po) = [] \<or> pu_SHA256 (the po) \<noteq> sha")
    case True
    then show ?thesis using assms(1) Inr by (auto simp: resume_upload_def split: option.splits)
  next
    case False
    then obtain prev where p: "GetPending key (av_manifest st) = Inr (Some prev)" "pu_UploadID prev \<noteq> []" "pu_SHA256 prev = sha"
      using Inr by auto
    obtain l s where l: "so_ListParts ops key (pu_UploadID prev) (av_store st) = (l, s)" by fastforce
    obtain b w where b: "os_ctl (av_w st) = (b, w)" by fastforce
    note same = listing [OF l]
    show ?thesis
    proof (cases l)
      case (Inr existing)
      let ?acc = "accept_parts (uc_PartSize cfg) (length existing) 0 existing"
      have "gathered (part s (pu_UploadID prev)) ?acc = take (length ?acc * nat (uc_PartSize cfg)) data"
        using assms(2) p(1) l Inr unfolding resume_sound_def same Let_def by blast
      then show ?thesis using assms(1) p l Inr b accept_parts_numbered
        by (auto simp: resume_upload_def Let_def split: if_splits bool.splits)
    qed (use assms(1) p l in \<open>auto simp: resume_upload_def\<close>)
  qed
qed (use assms(1) in \<open>auto simp: resume_upload_def\<close>)

lemma begin_ok:
  assumes "begin_upload ops cfg seg tenant key sha rnd now st = (Inr (uid, ps, pending), st')" "resume_sound ops part cfg key data st"
  shows "numbered ps \<and> gathered (part (av_store st') uid) ps = take (length ps * nat (uc_PartSize cfg)) data \<and>
    mf_completed (av_manifest st') = mf_completed (av_manifest st)"
proof -
  obtain r st1 where r: "resume_upload ops cfg key sha st = (Inr r, st1)"
    using assms(1) by (auto simp: begin_upload_def split: prod.splits sum.splits)
  note ok = resume_ok [OF r assms(2)]
  show ?thesis
  proof (cases r)
    case (Some u)
    have u: "snd (set_pending (snd (snd u)) st1) = st'" "u = (uid, ps, pending)"
      using assms(1) by (auto simp: begin_upload_def r Some split: prod.splits option.splits)
    have "av_store st' = av_store st1" "mf_completed (av_manifest st') = mf_completed (av_manifest st1)"
      by (simp_all flip: u(1))
    then show ?thesis using ok Some u(2) by simp
  next
    case None
    obtain s where s: "ps = []" "set_pending pending (st1\<lparr>av_store := s\<rparr>) = (None, st')"
      using assms(1) by (auto simp: begin_upload_def r None split: prod.splits option.splits sum.splits)
    have "mf_completed (av_manifest st') = mf_completed (av_manifest st1)"
      using set_pending_completed [of pending "st1\<lparr>av_store := s\<rparr>"] s(2) by simp
    then show ?thesis using ok s(1) by (simp add: gathered_def)
  qed
qed

lemma upload_ok:
  assumes "uploadOne ops cfg seg rnd replaced now st = (None, st')" "0 < uc_PartSize cfg"
    "resume_sound ops part cfg (segment_key cfg seg) (file_data (av_w st) (LogPath (ss_seg seg))) st"
  obtains sent where "content (av_store st') (segment_key cfg seg) = Some (file_data (av_w st) (LogPath (ss_seg seg)))"
    "mf_completed (av_manifest st') =
       add_entry (upload_entry cfg seg (hex_encode (sha256 (file_data (av_w st) (LogPath (ss_seg seg))))) sent now) (mf_completed (av_manifest st))"
    "int (length (file_data (av_w st) (LogPath (ss_seg seg)))) \<le> sent"
proof -
  let ?key = "segment_key cfg seg" and ?k = "nat (uc_PartSize cfg)" and ?path = "LogPath (ss_seg seg)"
  obtain data w w1 w2 w3 uid ps pending st1 where s: "os_lookup ?path (av_w st) = (Some (Some data), w)"
    "os_ctl w = (True, w1)" "os_ctl w1 = (True, w2)" "os_ctl w2 = (True, w3)"
    "begin_upload ops cfg seg (resolve_tenant cfg seg) ?key (hex_encode (sha256 data)) rnd now (st\<lparr>av_w := w3\<rparr>) = (Inr (uid, ps, pending), st1)"
    using assms(1) by (auto simp: uploadOne_def transfer_def Let_def split: prod.splits option.splits bool.splits sum.splits)
  obtain ps' sent st2 where t: "send_parts ops ?k ?key uid (drop (length ps * ?k) data) ps pending (int (length ps * ?k)) st1 = (None, ps', sent, st2)"
    "finish_upload ops cfg seg ?key (hex_encode (sha256 data)) uid ps' sent replaced now st2 = (None, st')"
    using assms(1) s by (auto simp: uploadOne_def transfer_def Let_def split: prod.splits option.splits)
  have d: "file_data (av_w st) ?path = data"
    using os_lookup_dir [OF s(1)] by (auto simp: file_data_def file_of_def split: option.splits)
  have "resume_sound ops part cfg ?key data (st\<lparr>av_w := w3\<rparr>)" using assms(3) by (simp add: resume_sound_def d)
  note b = begin_ok [OF s(5) this]
  have k: "0 < ?k" using assms(2) by simp
  note sp = send_parts_ok [OF t(1) k conjunct1 [OF b]]
  note f = finish_upload_ok [OF t(2) conjunct1 [OF sp]]
  obtain st3 where "add_completed (upload_entry cfg seg (hex_encode (sha256 data)) sent now) st3 = (None, st')"
    "av_manifest st3 = av_manifest st2" using f by blast
  then have "mf_completed (av_manifest st') = add_entry (upload_entry cfg seg (hex_encode (sha256 data)) sent now) (mf_completed (av_manifest st))"
    using sp b by (auto simp: add_completed_def AddCompleted_def Let_def split: prod.splits)
  moreover have "sent = int (length ps * ?k) + int (length (drop (length ps * ?k) data))" using sp by blast
  then have "int (length data) \<le> sent" unfolding length_drop by linarith
  moreover have "content (av_store st') ?key = Some data" using f sp b by simp
  ultimately show ?thesis by (intro that) (simp_all add: d)
qed

end

section \<open>Properties\<close>

text \<open>
  C36: an upload that reports success has archived the segment. Whatever fails on the way, when
  \<^verbatim>\<open>uploadOne\<close> returns no error the object at the segment's key is the segment's log file byte for byte, a
  later \<^verbatim>\<open>Get\<close> of the key delivers it, and the manifest has the entry with the file's digest and offsets that
  lets retention delete the local copy. A resumed upload is covered when the parts it trusts are the
  beginning of the file.
\<close>

theorem upload_stores_segment:
  assumes "uploadOne fs_ops cfg seg rnd replaced now st = (None, st')" "0 < uc_PartSize cfg"
    "resume_sound fs_ops fs_part cfg (segment_key cfg seg) (file_data (av_w st) (LogPath (ss_seg seg))) st"
  shows "(\<forall>bs f. fs_Get (segment_key cfg seg) (av_store st') = (Inr bs, f) \<longrightarrow> bs = file_data (av_w st) (LogPath (ss_seg seg))) \<and>
    fs_content (av_store st') (segment_key cfg seg) = Some (file_data (av_w st) (LogPath (ss_seg seg))) \<and>
    Holds (ss_topic seg) (ss_partition seg) (Segment_BaseOffset (ss_seg seg)) (Segment_NextOffset (ss_seg seg))
      (int (length (file_data (av_w st) (LogPath (ss_seg seg))))) (av_manifest st') \<and>
    map_option ar_SHA256 (manifest_Lookup (ss_topic seg) (ss_partition seg) (Segment_BaseOffset (ss_seg seg)) (av_manifest st')) =
      Some (hex_encode (sha256 (file_data (av_w st) (LogPath (ss_seg seg)))))"
proof -
  obtain sent where u: "fs_content (av_store st') (segment_key cfg seg) = Some (file_data (av_w st) (LogPath (ss_seg seg)))"
    "mf_completed (av_manifest st') =
       add_entry (upload_entry cfg seg (hex_encode (sha256 (file_data (av_w st) (LogPath (ss_seg seg))))) sent now) (mf_completed (av_manifest st))"
    "int (length (file_data (av_w st) (LogPath (ss_seg seg)))) \<le> sent"
    by (rule fs_store.upload_ok [OF assms])
  have "bs = file_data (av_w st) (LogPath (ss_seg seg))" if "fs_Get (segment_key cfg seg) (av_store st') = (Inr bs, f)" for bs f
    using fs_get [OF that] u(1) by simp
  moreover have "manifest_Lookup (ss_topic seg) (ss_partition seg) (Segment_BaseOffset (ss_seg seg)) (av_manifest st') =
      Some (upload_entry cfg seg (hex_encode (sha256 (file_data (av_w st) (LogPath (ss_seg seg))))) sent now)"
    using Lookup_add [OF u(2)] by (simp add: upload_entry_def)
  ultimately show ?thesis using u(1,3) by (auto simp: Holds_def upload_entry_def)
qed

definition sample_src :: "nat \<Rightarrow> segmentSource" where
  "sample_src n = \<lparr>ss_topic = ''t'', ss_partition = 0, ss_seg = sample_seg n 1 []\<rparr>"

definition sample_up :: "int \<Rightarrow> UploaderCfg" where
  "sample_up k = \<lparr>uc_Prefix = ''p'', uc_ArchiveAge = 1, uc_PartSize = k, uc_Tick = 1, uc_Concurrency = 1, uc_HMACKey = [], uc_TenantResolver = None\<rparr>"

definition sample_av :: "bytes \<Rightarrow> FS archiver" where
  "sample_av data = \<lparr>av_store = \<lparr>fs_root = ''/a'', fs_w = \<lparr>w_plan = [], w_dir = [], w_now = 0, w_paused = False\<rparr>, fs_docs = sample_docs, fs_dirs = []\<rparr>,
     av_manifest = sample_manifest, av_docs = sample_docs, av_w = sample_world data []\<rparr>"

lemma sample_transfer:
  "fst (transfer fs_ops (sample_up 2) (sample_src 3) sha [1, 2, 3] [7] False 0 (sample_av [1, 2, 3])) = None"
  by code_simp

lemma sample_src_sel [simp]:
  "ss_topic (sample_src n) = ''t''" "ss_partition (sample_src n) = 0" "ss_seg (sample_src n) = sample_seg n 1 []"
  "uc_PartSize (sample_up k) = k"
  by (simp_all add: sample_src_def sample_up_def)

lemma uploadOne_sample:
  assumes "av_w st = sample_world data []"
  shows "uploadOne fs_ops cfg (sample_src n) rnd r now st = transfer fs_ops cfg (sample_src n) (hex_encode (sha256 data)) data rnd r now st"
proof -
  have "st\<lparr>av_w := av_w st\<rparr> = st" by (cases st) simp
  moreover have "w_plan (av_w st) = []" "map_of (w_dir (av_w st)) (seg_path sample_dir 0 logSuffix) = Some \<lparr>fdata = data, mtime = 0\<rparr>"
    using assms by (simp_all add: sample_world_def)
  ultimately show ?thesis by (simp add: uploadOne_def os_lookup_def os_simps LogPath_def)
qed

theorem upload_stores_segment_witness:
  "\<exists>st'. uploadOne fs_ops (sample_up 2) (sample_src 3) [7] False 0 (sample_av [1, 2, 3]) = (None, st') \<and>
     fs_content (av_store st') (segment_key (sample_up 2) (sample_src 3)) = Some [1, 2, 3] \<and>
     Holds ''t'' 0 0 1 3 (av_manifest st')"
proof -
  let ?st = "sample_av [1, 2, 3]" and ?seg = "sample_src 3" and ?cfg = "sample_up 2"
  have w: "av_w ?st = sample_world [1, 2, 3] []" by (simp add: sample_av_def)
  obtain st' where u: "uploadOne fs_ops ?cfg ?seg [7] False 0 ?st = (None, st')"
    using sample_transfer unfolding uploadOne_sample [OF w] by (metis prod.collapse)
  have d: "file_data (av_w ?st) (LogPath (ss_seg ?seg)) = [1, 2, 3]" by (simp add: w sample_src_def LogPath_def)
  have "resume_sound fs_ops fs_part ?cfg (segment_key ?cfg ?seg) (file_data (av_w ?st) (LogPath (ss_seg ?seg))) ?st"
    by (simp add: resume_sound_def sample_av_def sample_manifest_def GetPending_def)
  from upload_stores_segment [OF u _ this, unfolded d] show ?thesis using u by (simp add: Segment_BaseOffset_def Segment_NextOffset_def)
qed

text \<open>
  An upload of four bytes with part size two, interrupted after its first part was stored and checkpointed.
\<close>

definition interrupted :: "string \<Rightarrow> FS archiver" where
  "interrupted sha =
     (let key = segment_key (sample_up 2) (sample_src 4) in
      case begin_upload fs_ops (sample_up 2) (sample_src 4) [] key sha [7] 0 (sample_av [1, 2, 3, 4]) of
        (Inr (uid, _, pending), st) \<Rightarrow>
          (case so_UploadPart fs_ops key uid 1 [1, 2] 2 (av_store st) of
             (Inr p, s) \<Rightarrow> snd (set_pending (pending\<lparr>pu_Parts := [\<lparr>pp_PartNumber = 1, pp_ETag = pa_ETag p, pp_SizeBytes = 2\<rparr>]\<rparr>)
               (st\<lparr>av_store := s\<rparr>))
           | _ \<Rightarrow> st)
      | (_, st) \<Rightarrow> st)"

lemma interrupted_w: "av_w (interrupted sha) = sample_world [1, 2, 3, 4] []"
  by code_simp

lemma interrupted_resumes:
  "case transfer fs_ops (sample_up 3) (sample_src 4) sha [1, 2, 3, 4] [8] False 0 (interrupted sha) of
     (e, st') \<Rightarrow> e = None \<and> fs_content (av_store st') (segment_key (sample_up 3) (sample_src 4)) = Some [1, 2, 4] \<and>
       Holds ''t'' 0 0 1 4 (av_manifest st')"
  by code_simp


end
