(* ===== verification/Segment_Cache.thy ===== *)
theory Segment_Cache
  imports Uploader
begin

text \<open>
  The cache of restored segments (\<^verbatim>\<open>internal/tiering/cache.go\<close>): path construction, verified writes, eviction,
  removal of a topic. Shown: paths of different tenants, topics, partitions and offsets differ when their names
  are ordinary path elements; a committed file has the expected digest; eviction brings the cache below its
  limit unless the remaining files are inside the grace period, and removes nothing else.
\<close>

section \<open>Paths\<close>

text \<open>\<^verbatim>\<open>filepath.Clean\<close> and \<^verbatim>\<open>filepath.Join\<close> on Unix. The accumulator holds the elements kept so far, newest first.\<close>

fun clean_elems :: "bool \<Rightarrow> string list \<Rightarrow> string list \<Rightarrow> string list" where
  "clean_elems rooted [] acc = rev acc"
| "clean_elems rooted (p # ps) acc =
     (if p = [] \<or> p = ''.'' then clean_elems rooted ps acc
      else if p = ''..'' then
        (case acc of
           [] \<Rightarrow> clean_elems rooted ps (if rooted then [] else [''..''])
         | a # as \<Rightarrow> if a = ''..'' then clean_elems rooted ps (''..'' # acc) else clean_elems rooted ps as)
      else clean_elems rooted ps (p # acc))"

fun slashed :: "string list \<Rightarrow> string" where
  "slashed [] = []"
| "slashed [p] = p"
| "slashed (p # ps) = p @ ''/'' @ slashed ps"

definition go_clean :: "string \<Rightarrow> string" where
  "go_clean path =
     (if path = [] then ''.''
      else let rooted = (hd path = CHR ''/''); body = slashed (clean_elems rooted (split_slash path) []) in
        if rooted then ''/'' @ body else if body = [] then ''.'' else body)"

definition go_join :: "string list \<Rightarrow> string" where
  "go_join ps = (let ps = filter (\<lambda>p. p \<noteq> []) ps in if ps = [] then [] else go_clean (slashed ps))"

section \<open>Model\<close>

record Cache =
  ca_dir :: string
  ca_maxBytes :: int

definition NewCache :: "string \<Rightarrow> int \<Rightarrow> world \<Rightarrow> Cache option \<times> world" where
  "NewCache dir maxBytes w =
     (case os_ctl w of
        (False, w) \<Rightarrow> (None, w)
      | (True, w) \<Rightarrow> (Some \<lparr>ca_dir = dir, ca_maxBytes = (if maxBytes \<le> 0 then 2 * 1024 * 1024 * 1024 else maxBytes)\<rparr>, w))"

definition PathTenant :: "Cache \<Rightarrow> string \<Rightarrow> string \<Rightarrow> int \<Rightarrow> int \<Rightarrow> string" where
  "PathTenant c tenant topic part baseOffset =
     (if tenant = [] then go_join [ca_dir c, topic, dec_int part, pad20 baseOffset @ ''.log'']
      else go_join [ca_dir c, ''tenants'', tenant, topic, dec_int part, pad20 baseOffset @ ''.log''])"

datatype cache_err = CaIO | CaStream | CaSha | CaPanic

definition HasTenant :: "Cache \<Rightarrow> string \<Rightarrow> string \<Rightarrow> int \<Rightarrow> int \<Rightarrow> world \<Rightarrow> bool \<times> world" where
  "HasTenant c tenant topic part baseOffset w =
     (case os_lookup (PathTenant c tenant topic part baseOffset) w of (r, w) \<Rightarrow> (r \<noteq> None \<and> r \<noteq> Some None, w))"

text \<open>
  \<^verbatim>\<open>filepath.Walk\<close> over the cache directory: the files whose extension is \<^verbatim>\<open>.log\<close>, in lexical order.
  \<^verbatim>\<open>sort.Slice\<close> may order files with equal times either way; here they keep the order of the walk.
\<close>

definition is_log :: "string \<Rightarrow> bool" where
  "is_log p \<longleftrightarrow> length p \<ge> 4 \<and> drop (length p - 4) p = ''.log''"

definition cache_files :: "Cache \<Rightarrow> world \<Rightarrow> (string \<times> fs_file) list" where
  "cache_files c w = sort_key fst (filter (\<lambda>(p, f). under (ca_dir c) p \<and> is_log p) (AList.clearjunk (w_dir w)))"

definition files_size :: "(string \<times> fs_file) list \<Rightarrow> int" where
  "files_size fs = sum_list (map (\<lambda>(p, f). int (length (fdata f))) fs)"

definition evictionGrace :: int where "evictionGrace = 60 * 1000000000"

fun cache_evict_loop :: "int \<Rightarrow> int \<Rightarrow> int \<Rightarrow> (string \<times> fs_file) list \<Rightarrow> world \<Rightarrow> cache_err option \<times> world" where
  "cache_evict_loop cutoff maxBytes used [] w = (None, w)"
| "cache_evict_loop cutoff maxBytes used ((p, f) # files) w =
     (if used \<le> maxBytes then (None, w)
      else if mtime f > cutoff then cache_evict_loop cutoff maxBytes used files w
      else case os_remove p w of
        (False, w) \<Rightarrow> (Some CaIO, w)
      | (True, w) \<Rightarrow> cache_evict_loop cutoff maxBytes (used - int (length (fdata f))) files w)"

definition evictLockedIfNeeded :: "Cache \<Rightarrow> world \<Rightarrow> cache_err option \<times> world" where
  "evictLockedIfNeeded c w =
     (case os_ctl w of
        (False, w) \<Rightarrow> (Some CaIO, w)
      | (True, w) \<Rightarrow>
          let files = cache_files c w; used = files_size files in
          if used \<le> ca_maxBytes c then (None, w)
          else cache_evict_loop (w_now w - evictionGrace) (ca_maxBytes c) used (sort_key (mtime \<circ> snd) files) w)"

definition SizeBytes :: "Cache \<Rightarrow> world \<Rightarrow> int option \<times> world" where
  "SizeBytes c w = (case os_ctl w of (False, w) \<Rightarrow> (None, w) | (True, w) \<Rightarrow> (Some (files_size (cache_files c w)), w))"

text \<open>The error text slices the first twelve characters of the expected digest.\<close>

definition sha_check :: "bytes \<Rightarrow> string \<Rightarrow> cache_err option" where
  "sha_check data expected =
     (if expected = [] \<or> hex_encode (sha256 data) = expected then None
      else if length expected < 12 then Some CaPanic else Some CaSha)"

definition PutTenant :: "Cache \<Rightarrow> string \<Rightarrow> string \<Rightarrow> int \<Rightarrow> int \<Rightarrow> bytes \<Rightarrow> string \<Rightarrow> world \<Rightarrow> cache_err option \<times> world" where
  "PutTenant c tenant topic part baseOffset data expected w =
     (case sha_check data expected of
        Some e \<Rightarrow> (Some e, w)
      | None \<Rightarrow>
          let path = PathTenant c tenant topic part baseOffset; tmp = path @ ''.tmp'' in
          (case os_ctl w of (False, w) \<Rightarrow> (Some CaIO, w) | (True, w) \<Rightarrow>
          (case os_create tmp w of (False, w) \<Rightarrow> (Some CaIO, w) | (True, w) \<Rightarrow>
          (case os_write tmp 0 data w of (False, _, w) \<Rightarrow> (Some CaIO, w) | (True, _, w) \<Rightarrow>
          (case os_ctl w of (False, w) \<Rightarrow> (Some CaIO, w) | (True, w) \<Rightarrow>
          (case os_rename tmp path w of (False, w) \<Rightarrow> (Some CaIO, w) | (True, w) \<Rightarrow> evictLockedIfNeeded c w))))))"

text \<open>
  The streaming variant; \<open>body\<close> is what the reader delivers and \<open>broken\<close> whether it then fails. A panic leaves the
  temporary file removed, since the removal comes first.
\<close>

definition PutTenantStream :: "Cache \<Rightarrow> string \<Rightarrow> string \<Rightarrow> int \<Rightarrow> int \<Rightarrow> bytes \<Rightarrow> bool \<Rightarrow> string \<Rightarrow> world \<Rightarrow> (cache_err + int) \<times> world" where
  "PutTenantStream c tenant topic part baseOffset body broken expected w =
     (let path = PathTenant c tenant topic part baseOffset; tmp = path @ ''.tmp'' in
      case os_ctl w of (False, w) \<Rightarrow> (Inl CaIO, w) | (True, w) \<Rightarrow>
      (case os_create tmp w of (False, w) \<Rightarrow> (Inl CaIO, w) | (True, w) \<Rightarrow>
      (case os_write tmp 0 body w of (wrote, _, w) \<Rightarrow>
      (case os_ctl w of (shut, w) \<Rightarrow>
         if broken \<or> \<not> wrote \<or> \<not> shut then (Inl CaStream, snd (os_remove tmp w))
         else (case sha_check body expected of
            Some e \<Rightarrow> (Inl e, snd (os_remove tmp w))
          | None \<Rightarrow>
              (case os_rename tmp path w of
                 (False, w) \<Rightarrow> (Inl CaIO, snd (os_remove tmp w))
               | (True, w) \<Rightarrow>
                   (case evictLockedIfNeeded c w of
                      (Some e, w) \<Rightarrow> (Inl e, w)
                    | (None, w) \<Rightarrow> (Inr (int (length body)), w))))))))"

text \<open>\<^verbatim>\<open>os.Chtimes\<close>, whose failure is ignored, then \<^verbatim>\<open>os.Open\<close>.\<close>

definition os_chtimes :: "string \<Rightarrow> world \<Rightarrow> world" where
  "os_chtimes p w =
     (case os_ctl w of
        (False, w) \<Rightarrow> w
      | (True, w) \<Rightarrow> (case map_of (w_dir w) p of None \<Rightarrow> w | Some f \<Rightarrow> w\<lparr>w_dir := AList.update p (f\<lparr>mtime := w_now w\<rparr>) (w_dir w)\<rparr>))"

definition OpenTenant :: "Cache \<Rightarrow> string \<Rightarrow> string \<Rightarrow> int \<Rightarrow> int \<Rightarrow> world \<Rightarrow> bytes option \<times> world" where
  "OpenTenant c tenant topic part baseOffset w =
     (let path = PathTenant c tenant topic part baseOffset in
      case os_lookup path (os_chtimes path w) of (Some (Some data), w) \<Rightarrow> (Some data, w) | (_, w) \<Rightarrow> (None, w))"

definition cache_ReadAll :: "Cache \<Rightarrow> string \<Rightarrow> int \<Rightarrow> int \<Rightarrow> world \<Rightarrow> bytes option \<times> world" where
  "cache_ReadAll c topic part baseOffset w =
     (case OpenTenant c [] topic part baseOffset w of
        (None, w) \<Rightarrow> (None, w)
      | (Some data, w) \<Rightarrow> (case os_ctl w of (False, w) \<Rightarrow> (None, w) | (True, w) \<Rightarrow> (Some data, w)))"

text \<open>The names in the tenants directory. A directory shows here by the files below it; an empty one has nothing to remove.\<close>

definition tenant_names :: "Cache \<Rightarrow> world \<Rightarrow> string list" where
  "tenant_names c w =
     (let d = go_join [ca_dir c, ''tenants''] in
      remdups (sort (map (\<lambda>p. takeWhile (\<lambda>ch. ch \<noteq> CHR ''/'') (drop (length d + 1) p))
        (filter (\<lambda>p. under d p \<and> CHR ''/'' \<in> set (drop (length d + 1) p)) (map fst (w_dir w))))))"

text \<open>\<^verbatim>\<open>os.RemoveAll\<close>; a failing one is taken to have removed nothing.\<close>

fun remove_dirs :: "string list \<Rightarrow> world \<Rightarrow> bool \<times> world" where
  "remove_dirs [] w = (True, w)"
| "remove_dirs (d # ds) w =
     (case os_ctl w of
        (False, w) \<Rightarrow> (False, w)
      | (True, w) \<Rightarrow> remove_dirs ds (w\<lparr>w_dir := filter (\<lambda>(p, f). \<not> under d p \<and> p \<noteq> d) (w_dir w)\<rparr>))"

definition DropTopic :: "Cache \<Rightarrow> string \<Rightarrow> world \<Rightarrow> bool \<times> world" where
  "DropTopic c topic w =
     (case os_ctl w of
        (ok, w) \<Rightarrow>
          let tenants = (if ok then tenant_names c w else [])
          in remove_dirs (go_join [ca_dir c, topic] # map (\<lambda>t. go_join [ca_dir c, ''tenants'', t, topic]) tenants) w)"

section \<open>Paths of different segments differ\<close>

lemma split_slash_ne [simp]: "split_slash s \<noteq> []"
  by (cases s) (auto split: list.splits)

lemma split_slash_app: "split_slash (s @ ''/'' @ t) = split_slash s @ split_slash t"
  by (induction s) (auto split: list.splits)

lemma split_slash_single: "CHR ''/'' \<notin> set p \<Longrightarrow> split_slash p = [p]"
  by (induction p) auto

lemma split_slashed: "ps \<noteq> [] \<Longrightarrow> \<forall>p \<in> set ps. CHR ''/'' \<notin> set p \<Longrightarrow> split_slash (slashed ps) = ps"
proof (induction ps rule: slashed.induct)
  case (3 p q ps)
  have "split_slash (slashed (q # ps)) = q # ps" using 3 by simp
  then show ?case using split_slash_app [of p "slashed (q # ps)"] split_slash_single [of p] 3(3) by simp
qed (auto simp: split_slash_single)

lemma slashed_app: "ps \<noteq> [] \<Longrightarrow> qs \<noteq> [] \<Longrightarrow> slashed (ps @ qs) = slashed ps @ ''/'' @ slashed qs"
proof (induction ps rule: slashed.induct)
  case (2 p) then show ?case by (cases qs) auto
qed auto

lemma clean_elems_plain: "\<forall>q \<in> set qs. plain q \<Longrightarrow> clean_elems r (ps @ qs) acc = clean_elems r ps acc @ qs"
proof (induction r ps acc rule: clean_elems.induct)
  case (1 r acc)
  then show ?case by (induction qs arbitrary: acc) (auto simp: plain_def)
next
  case (2 r p ps acc)
  then show ?case by (cases acc) auto
qed

text \<open>A clean directory other than the root and the current one.\<close>

definition clean_dir :: "string \<Rightarrow> bool" where
  "clean_dir d \<longleftrightarrow> go_clean d = d \<and> d \<noteq> ''/'' \<and> d \<noteq> ''.'' \<and> d \<noteq> []"

lemma go_join_plain:
  assumes "clean_dir d" "ps \<noteq> []" "\<forall>p \<in> set ps. plain p"
  shows "go_join (d # ps) = d @ ''/'' @ slashed ps"
proof -
  let ?r = "hd d = CHR ''/''" and ?es = "clean_elems (hd d = CHR ''/'') (split_slash d) []"
  have d: "d \<noteq> []" "go_clean d = d" "d \<noteq> ''/''" "d \<noteq> ''.''" using assms(1) by (auto simp: clean_dir_def)
  have ne: "filter (\<lambda>p. p \<noteq> []) (d # ps) = d # ps" using assms(3) d by (auto simp: plain_def filter_id_conv)
  have sl: "slashed (d # ps) = d @ ''/'' @ slashed ps" using assms(2) by (cases ps) auto
  have sp: "split_slash (slashed ps) = ps" using assms(2,3) by (auto simp: plain_def split_slashed)
  have c: "clean_elems ?r (split_slash (slashed (d # ps))) [] = ?es @ ps"
    unfolding sl split_slash_app sp by (rule clean_elems_plain [OF assms(3)])
  have es: "?es \<noteq> []" and de: "d = (if ?r then ''/'' @ slashed ?es else slashed ?es)"
    using d by (auto simp: go_clean_def Let_def split: if_splits)
  have h: "hd (slashed (d # ps)) = hd d" using d(1) unfolding sl by simp
  have ne2: "slashed (d # ps) \<noteq> []" "slashed (?es @ ps) \<noteq> []" using d(1) slashed_app [OF es assms(2)] by (simp_all add: sl)
  have "go_clean (slashed (d # ps)) = (if ?r then ''/'' @ slashed (?es @ ps) else slashed (?es @ ps))"
    by (simp only: go_clean_def h c Let_def ne2 if_False)
  also have "\<dots> = d @ ''/'' @ slashed ps"
    using de slashed_app [OF es assms(2)] by (metis append.assoc)
  finally show ?thesis by (simp only: go_join_def Let_def ne) simp
qed

lemma dec_no_slash: "CHR ''/'' \<notin> set (dec n)"
  using is_digit_dec [of "CHR ''/''" n] by (auto simp: is_digit_def)

lemma dec_int_plain: "plain (dec_int x)"
proof -
  have "dec n \<noteq> []" "dec n \<noteq> ''.''" "dec n \<noteq> ''..''" for n
    using is_digit_dec [of _ n] by (auto simp: is_digit_def)
  then show ?thesis using dec_no_slash by (auto simp: plain_def dec_int_def)
qed

lemma pad20_plain: "plain (pad20 x @ ''.log'')"
  using dec_no_slash by (auto simp: plain_def pad20_def append_eq_Cons_conv)

definition path_elems :: "string \<Rightarrow> string \<Rightarrow> int \<Rightarrow> int \<Rightarrow> string list" where
  "path_elems tenant topic part baseOffset =
     (if tenant = [] then [] else [''tenants'', tenant]) @ [topic, dec_int part, pad20 baseOffset @ ''.log'']"

lemma path_elems_plain:
  "tenant = [] \<or> plain tenant \<Longrightarrow> plain topic \<Longrightarrow> \<forall>p \<in> set (path_elems tenant topic part base). plain p"
  using dec_int_plain pad20_plain by (auto simp: path_elems_def) (auto simp: plain_def)

lemma PathTenant_plain:
  assumes "clean_dir (ca_dir c)" "tenant = [] \<or> plain tenant" "plain topic"
  shows "PathTenant c tenant topic part base = ca_dir c @ ''/'' @ slashed (path_elems tenant topic part base)"
proof -
  have "PathTenant c tenant topic part base = go_join (ca_dir c # path_elems tenant topic part base)"
    by (simp add: PathTenant_def path_elems_def)
  then show ?thesis using go_join_plain [OF assms(1) _ path_elems_plain [OF assms(2,3)]] by (simp add: path_elems_def)
qed

lemma PathTenant_inject:
  assumes "clean_dir (ca_dir c)" "t = [] \<or> plain t" "t' = [] \<or> plain t'" "plain x" "plain x'"
    "0 \<le> b" "b \<le> max_i64" "0 \<le> b'" "b' \<le> max_i64" "PathTenant c t x p b = PathTenant c t' x' p' b'"
  shows "t = t' \<and> x = x' \<and> p = p' \<and> b = b'"
proof -
  have "slashed (path_elems t x p b) = slashed (path_elems t' x' p' b')"
    using assms(10) PathTenant_plain [OF assms(1,2,4)] PathTenant_plain [OF assms(1,3,5)] by simp
  then have "split_slash (slashed (path_elems t x p b)) = split_slash (slashed (path_elems t' x' p' b'))" by simp
  moreover have "\<forall>q \<in> set (path_elems t x p b). CHR ''/'' \<notin> set q" "\<forall>q \<in> set (path_elems t' x' p' b'). CHR ''/'' \<notin> set q"
    using path_elems_plain [OF assms(2,4), of p b] path_elems_plain [OF assms(3,5), of p' b'] by (auto simp: plain_def)
  ultimately have "path_elems t x p b = path_elems t' x' p' b'"
    using split_slashed by (simp add: path_elems_def split: if_splits)
  then show ?thesis using assms(6-9) pad20_eq_iff by (auto simp: path_elems_def split: if_splits)
qed

section \<open>Eviction\<close>

lemma cache_files_iff: "(p, f) \<in> set (cache_files c w) \<longleftrightarrow> map_of (w_dir w) p = Some f \<and> under (ca_dir c) p \<and> is_log p"
proof -
  have "(p, f) \<in> set (AList.clearjunk (w_dir w)) \<longleftrightarrow> map_of (w_dir w) p = Some f"
    using map_of_eq_Some_iff [of "AList.clearjunk (w_dir w)" p f] by (simp add: map_of_clearjunk)
  then show ?thesis by (auto simp: cache_files_def)
qed

lemma cache_files_distinct: "distinct (map fst (cache_files c w))"
proof -
  have "distinct (map fst (filter (\<lambda>(p, f). under (ca_dir c) p \<and> is_log p) (AList.clearjunk (w_dir w))))"
    by (simp add: distinct_map_filter)
  then show ?thesis unfolding cache_files_def by (simp add: distinct_map)
qed

lemma files_size_sum: "distinct fs \<Longrightarrow> files_size fs = (\<Sum>(p, f) \<in> set fs. int (length (fdata f)))"
  by (simp add: files_size_def sum_list_distinct_conv_sum_set)

lemma cache_size_remove:
  assumes "(p, f) \<in> set (cache_files c w)" "map_of (w_dir w') = (map_of (w_dir w))(p := None)"
  shows "files_size (cache_files c w') = files_size (cache_files c w) - int (length (fdata f))"
proof -
  have "set (cache_files c w') = set (cache_files c w) - {(p, f)}"
    using assms by (auto simp: cache_files_iff split: if_splits)
  moreover have "distinct (cache_files c x)" for x using cache_files_distinct [of c x] by (simp add: distinct_map)
  ultimately show ?thesis using assms(1) by (simp add: files_size_sum sum_diff1)
qed

text \<open>What a removal pass may do to a file: nothing, or remove a cached segment older than the cutoff.\<close>

definition only_old :: "Cache \<Rightarrow> int \<Rightarrow> world \<Rightarrow> world \<Rightarrow> bool" where
  "only_old c cutoff w w' \<longleftrightarrow> (\<forall>p. map_of (w_dir w') p = map_of (w_dir w) p \<or>
     (map_of (w_dir w') p = None \<and> under (ca_dir c) p \<and> is_log p \<and> (\<exists>f. map_of (w_dir w) p = Some f \<and> mtime f \<le> cutoff)))"

lemma os_remove_dir: "os_remove p w = (ok, w') \<Longrightarrow>
    map_of (w_dir w') = (if ok then (map_of (w_dir w))(p := None) else map_of (w_dir w)) \<and> w_now w' = w_now w"
  by (auto simp: os_remove_def delete_conv' split: prod.splits io_out.splits dest!: io_next_frame)

lemma only_old_remove:
  assumes "map_of (w_dir w1) = (map_of (w_dir w))(p := None)" "map_of (w_dir w) p = Some f" "under (ca_dir c) p" "is_log p"
    "mtime f \<le> cutoff" "only_old c cutoff w1 w'"
  shows "only_old c cutoff w w'"
  unfolding only_old_def
proof
  fix q
  show "map_of (w_dir w') q = map_of (w_dir w) q \<or> (map_of (w_dir w') q = None \<and> under (ca_dir c) q \<and> is_log q \<and>
      (\<exists>f. map_of (w_dir w) q = Some f \<and> mtime f \<le> cutoff))"
    using assms spec [OF assms(6) [unfolded only_old_def], of q] by (cases "q = p") auto
qed

lemma cache_evict_loop_ok:
  assumes "cache_evict_loop cutoff mx used files w = (r, w')" "distinct (map fst files)" "set files \<subseteq> set (cache_files c w)"
    "used = files_size (cache_files c w)" "\<forall>(p, f) \<in> set (cache_files c w) - set files. cutoff < mtime f"
  shows "only_old c cutoff w w' \<and>
    (r = None \<longrightarrow> files_size (cache_files c w') \<le> mx \<or> (\<forall>(p, f) \<in> set (cache_files c w'). cutoff < mtime f))"
  using assms
proof (induction files arbitrary: used w)
  case Nil
  then show ?case by (auto simp: only_old_def)
next
  case (Cons x files)
  obtain p f where x: "x = (p, f)" by fastforce
  have mem: "map_of (w_dir w) p = Some f" "under (ca_dir c) p" "is_log p" "(p, f) \<in> set (cache_files c w)"
    using Cons(4) by (auto simp: x cache_files_iff)
  show ?case
  proof (cases "used \<le> mx")
    case True
    then show ?thesis using Cons(2,5) by (auto simp: x only_old_def)
  next
    case big: False
    show ?thesis
    proof (cases "cutoff < mtime f")
      case True
      then have "cache_evict_loop cutoff mx used files w = (r, w')" using Cons(2) big by (simp add: x)
      then show ?thesis by (rule Cons(1)) (use Cons(3-6) True in \<open>auto simp: x\<close>)
    next
      case False
      obtain ok w1 where r: "os_remove p w = (ok, w1)" by fastforce
      note d = os_remove_dir [OF r]
      show ?thesis
      proof (cases ok)
        case True
        then have w1: "map_of (w_dir w1) = (map_of (w_dir w))(p := None)" using d by simp
        have run: "cache_evict_loop cutoff mx (used - int (length (fdata f))) files w1 = (r, w')"
          using Cons(2) big False r True by (simp add: x)
        have left: "(q, g) \<in> set (cache_files c w1) \<longleftrightarrow> q \<noteq> p \<and> (q, g) \<in> set (cache_files c w)" for q g
          by (simp add: cache_files_iff w1)
        have "only_old c cutoff w1 w' \<and> (r = None \<longrightarrow> files_size (cache_files c w') \<le> mx \<or> (\<forall>(p, f) \<in> set (cache_files c w'). cutoff < mtime f))"
        proof (rule Cons(1) [OF run])
          show "set files \<subseteq> set (cache_files c w1)" 
          proof (rule subrelI)
            fix q g assume "(q, g) \<in> set files"
            then have "q \<in> fst ` set files" "(q, g) \<in> set (cache_files c w)" using Cons(4) by force+
            then show "(q, g) \<in> set (cache_files c w1)" using Cons(3) unfolding left x by auto
          qed
          show "\<forall>(q, g) \<in> set (cache_files c w1) - set files. cutoff < mtime g" using Cons(6) left by (auto simp: x)
        qed (use Cons(3,5) cache_size_remove [OF mem(4) w1] in \<open>auto simp: x\<close>)
        then show ?thesis using only_old_remove [OF w1 mem(1-3)] False by simp
      next
        case False
        then show ?thesis using Cons(2) big r d \<open>\<not> cutoff < mtime f\<close> by (auto simp: x only_old_def)
      qed
    qed
  qed
qed

lemma evict_ok:
  assumes "evictLockedIfNeeded c w = (r, w')"
  shows "only_old c (w_now w - evictionGrace) w w' \<and>
    (r = None \<longrightarrow> files_size (cache_files c w') \<le> ca_maxBytes c \<or> (\<forall>(p, f) \<in> set (cache_files c w'). w_now w - evictionGrace < mtime f))"
proof -
  obtain ok w1 where o: "os_ctl w = (ok, w1)" by fastforce
  then have d: "w_dir w1 = w_dir w" "w_now w1 = w_now w" using os_ctl_dir [OF o] io_next_frame
    by (auto simp: os_ctl_def split: prod.splits io_out.splits)
  have same: "cache_files c w1 = cache_files c w" by (simp add: cache_files_def d)
  show ?thesis
  proof (cases "\<not> ok \<or> files_size (cache_files c w) \<le> ca_maxBytes c")
    case True
    then have "w' = w1" "r = None \<longrightarrow> ok" using assms by (auto simp: evictLockedIfNeeded_def o Let_def same split: bool.splits if_splits)
    then show ?thesis using True by (auto simp: only_old_def d same)
  next
    case False
    let ?fs = "cache_files c w1"
    have run: "cache_evict_loop (w_now w - evictionGrace) (ca_maxBytes c) (files_size ?fs) (sort_key (mtime \<circ> snd) ?fs) w1 = (r, w')"
      using assms False by (simp add: evictLockedIfNeeded_def o Let_def same d)
    have "distinct (map fst (sort_key (mtime \<circ> snd) ?fs))"
      using cache_files_distinct [of c w1] by (simp add: distinct_map)
    from cache_evict_loop_ok [OF run this, of c] show ?thesis by (simp add: only_old_def d)
  qed
qed

section \<open>A committed file has the expected digest\<close>

lemma sha_check_None: "sha_check data expected = None \<longleftrightarrow> expected = [] \<or> hex_encode (sha256 data) = expected"
  by (simp add: sha_check_def)

lemma os_now:
  "os_ctl w = (a, w') \<Longrightarrow> w_now w' = w_now w" "os_create p w = (b, w') \<Longrightarrow> w_now w' = w_now w"
  "os_write p n bs w = (d, m, w') \<Longrightarrow> w_now w' = w_now w" "os_rename p q w = (e, w') \<Longrightarrow> w_now w' = w_now w"
  by (auto simp: os_ctl_def os_create_def os_write_def os_rename_def put_file_def
      split: prod.splits io_out.splits bool.splits option.splits dest!: io_next_frame)

lemma PutTenantStream_ok:
  assumes "PutTenantStream c tenant topic part base body broken expected w = (Inr n, w')"
  defines "path \<equiv> PathTenant c tenant topic part base"
  shows "(\<exists>f. map_of (w_dir w') path = Some f \<and> fdata f = body) \<and> sha_check body expected = None \<and> n = int (length body) \<and>
    (\<forall>q. q \<noteq> path \<longrightarrow> q \<noteq> path @ ''.tmp'' \<longrightarrow> map_of (w_dir w') q = map_of (w_dir w) q \<or> map_of (w_dir w') q = None)"
proof -
  let ?tmp = "path @ ''.tmp''"
  obtain w1 w2 w3 k w4 w5 where s: "os_ctl w = (True, w1)" "os_create ?tmp w1 = (True, w2)" "os_write ?tmp 0 body w2 = (True, k, w3)"
    "os_ctl w3 = (True, w4)" "os_rename ?tmp path w4 = (True, w5)" "evictLockedIfNeeded c w5 = (None, w')"
    "sha_check body expected = None" "n = int (length body)"
    using assms(1) by (auto simp: PutTenantStream_def path_def Let_def split: prod.splits bool.splits if_splits option.splits)
  have tmp2: "file_data w2 ?tmp = []" using os_create_dir [OF s(2)] by (simp add: file_data_def file_of_def)
  have w3: "map_of (w_dir w3) = (map_of (w_dir w2))(?tmp \<mapsto> \<lparr>fdata = body, mtime = w_now w3\<rparr>)"
    using os_write_dir [OF s(3)] tmp2 by (simp add: overwrite_def)
  have now: "w_now w5 = w_now w3" using os_now(1) [OF s(4)] os_now(4) [OF s(5)] by simp
  have w5: "map_of (w_dir w5) = (map_of (w_dir w4))(path := map_of (w_dir w4) ?tmp, ?tmp := None)"
    using os_rename_dir [OF s(5)] by simp
  note ev = conjunct1 [OF evict_ok [OF s(6)]]
  have "map_of (w_dir w5) path = Some \<lparr>fdata = body, mtime = w_now w5\<rparr>"
    using w5 os_ctl_dir [OF s(4)] w3 now by simp
  then have "map_of (w_dir w') path = Some \<lparr>fdata = body, mtime = w_now w5\<rparr>"
    using spec [OF ev [unfolded only_old_def], of path] by (auto simp: evictionGrace_def)
  moreover have "map_of (w_dir w') q = map_of (w_dir w) q \<or> map_of (w_dir w') q = None" if "q \<noteq> path" "q \<noteq> ?tmp" for q
  proof -
    have "map_of (w_dir w5) q = map_of (w_dir w) q"
      using that w5 os_ctl_dir [OF s(4)] w3 os_create_dir [OF s(2)] os_ctl_dir [OF s(1)] by simp
    then show ?thesis using ev unfolding only_old_def by metis
  qed
  ultimately show ?thesis using s(7,8) by auto
qed

section \<open>Properties\<close>

text \<open>
  C38: eviction. Whatever removals fail, only cached segments whose last use is at least the grace period ago are
  removed, and nothing else changes; if eviction reports success the cache is within its limit or all that is
  left in it was used within the grace period.
\<close>

theorem eviction_bounds_cache:
  assumes "evictLockedIfNeeded c w = (r, w')"
  shows "(\<forall>p. map_of (w_dir w') p \<noteq> map_of (w_dir w) p \<longrightarrow> map_of (w_dir w') p = None \<and> under (ca_dir c) p \<and> is_log p \<and>
      (\<exists>f. map_of (w_dir w) p = Some f \<and> mtime f \<le> w_now w - evictionGrace)) \<and>
    (r = None \<longrightarrow> files_size (cache_files c w') \<le> ca_maxBytes c \<or> (\<forall>(p, f) \<in> set (cache_files c w'). w_now w - evictionGrace < mtime f))"
proof (rule conjI)
  show "\<forall>p. map_of (w_dir w') p \<noteq> map_of (w_dir w) p \<longrightarrow> map_of (w_dir w') p = None \<and> under (ca_dir c) p \<and> is_log p \<and>
      (\<exists>f. map_of (w_dir w) p = Some f \<and> mtime f \<le> w_now w - evictionGrace)"
    using conjunct1 [OF evict_ok [OF assms]] unfolding only_old_def by blast
qed (rule conjunct2 [OF evict_ok [OF assms]])

definition sample_cache :: Cache where
  "sample_cache = \<lparr>ca_dir = ''/c'', ca_maxBytes = 3\<rparr>"

definition cached_world :: world where
  "cached_world = \<lparr>w_plan = [], w_dir = [(''/c/t/0/1.log'', \<lparr>fdata = [1, 2], mtime = 5\<rparr>), (''/c/t/0/0.log'', \<lparr>fdata = [3, 4], mtime = 3\<rparr>),
     (''/c/x.tmp'', \<lparr>fdata = [1, 2, 3, 4], mtime = 0\<rparr>)], w_now = 100000000000, w_paused = False\<rparr>"

lemma cached_world_evict:
  "case evictLockedIfNeeded sample_cache cached_world of (r, w') \<Rightarrow> r = None \<and> map_of (w_dir w') ''/c/t/0/0.log'' = None"
  by code_simp

theorem eviction_bounds_cache_witness:
  "\<exists>w'. evictLockedIfNeeded sample_cache cached_world = (None, w') \<and> under ''/c'' ''/c/t/0/0.log'' \<and>
     (files_size (cache_files sample_cache w') \<le> 3 \<or> (\<forall>x \<in> set (cache_files sample_cache w'). 40000000000 < mtime (snd x)))"
proof -
  obtain w' where e: "evictLockedIfNeeded sample_cache cached_world = (None, w')" "map_of (w_dir w') ''/c/t/0/0.log'' = None"
    using cached_world_evict by (cases "evictLockedIfNeeded sample_cache cached_world") auto
  have "map_of (w_dir w') ''/c/t/0/0.log'' \<noteq> map_of (w_dir cached_world) ''/c/t/0/0.log''" using e(2) by (simp add: cached_world_def)
  then have "under (ca_dir sample_cache) ''/c/t/0/0.log''" using eviction_bounds_cache [OF e(1)] by blast
  moreover have "files_size (cache_files sample_cache w') \<le> 3 \<or> (\<forall>x \<in> set (cache_files sample_cache w'). 40000000000 < mtime (snd x))"
    using conjunct2 [OF eviction_bounds_cache [OF e(1)]] by (auto simp: sample_cache_def evictionGrace_def cached_world_def)
  ultimately show ?thesis using e(1) by (auto simp: sample_cache_def)
qed

text \<open>
  The comment on \<^verbatim>\<open>Path\<close> says that cross-tenant cache bleed is impossible by construction. That needs tenant names
  that are ordinary path elements, which nothing checks.
\<close>

lemma dotdot_tenant_bleeds: "PathTenant sample_cache ''..'' ''t'' 0 0 = PathTenant sample_cache [] ''t'' 0 0"
  by code_simp

end
