(* ===== verification/Restorer.thy ===== *)
theory Restorer
  imports Segment_Cache
begin

text \<open>
  Reading archived segments back: the restorer (\<^verbatim>\<open>internal/tiering/restorer.go\<close>) and the archive side of a fetch
  (\<^verbatim>\<open>internal/broker/restore_fetch.go\<close>). Shown: a restore that succeeds has put bytes with the recorded digest into the
  cache; a fetch from the archive answers, like a fetch from the local log, with a run of whole batches that starts at
  the one containing the requested offset, and never with another tenant's segment.
\<close>

section \<open>Restoring\<close>

datatype restore_err = RsNotArchived | RsSignature | RsGet store_err | RsPut cache_err | RsExpired | RsPanic

text \<open>
  What the surroundings do to one download attempt: whether the body breaks off, whether the caller's deadline passes
  while waiting for the attempt, and whether it has passed after it.
\<close>

record attempt =
  at_broken :: bool
  at_waited_out :: bool
  at_expired :: bool

text \<open>
  The log line after a successful download slices twelve characters off the recorded digest, which panics on a shorter
  one.
\<close>

definition downloadOnce :: "'s store_ops \<Rightarrow> Cache \<Rightarrow> SegmentEntry \<Rightarrow> bool \<Rightarrow> 's \<Rightarrow> world \<Rightarrow> restore_err option \<times> 's \<times> world" where
  "downloadOnce ops c e broken s w =
     (case so_Get ops (ar_S3Key e) s of
        (Inl err, s) \<Rightarrow> (Some (RsGet err), s, w)
      | (Inr body, s) \<Rightarrow>
          (case PutTenantStream c (ar_TenantID e) (ar_Topic e) (ar_Partition e) (ar_BaseOffset e) body broken (ar_SHA256 e) w of
             (Inl CaPanic, w) \<Rightarrow> (Some RsPanic, s, w)
           | (Inl err, w) \<Rightarrow> (Some (RsPut err), s, w)
           | (Inr n, w) \<Rightarrow> (if length (ar_SHA256 e) < 12 then Some RsPanic else None, s, w)))"

fun try_downloads :: "'s store_ops \<Rightarrow> Cache \<Rightarrow> SegmentEntry \<Rightarrow> attempt list \<Rightarrow> bool \<Rightarrow> restore_err option \<Rightarrow> 's \<Rightarrow> world \<Rightarrow>
    restore_err option \<times> 's \<times> world" where
  "try_downloads ops c e [] first lastErr s w = (lastErr, s, w)"
| "try_downloads ops c e (a # as) first lastErr s w =
     (if \<not> first \<and> at_waited_out a then (Some RsExpired, s, w)
      else case downloadOnce ops c e (at_broken a) s w of
        (None, s, w) \<Rightarrow> (None, s, w)
      | (Some err, s, w) \<Rightarrow>
          if err = RsPanic \<or> at_expired a then (Some err, s, w)
          else try_downloads ops c e as False (Some err) s w)"

text \<open>Three attempts.\<close>

definition doRestore :: "'s store_ops \<Rightarrow> Cache \<Rightarrow> bytes \<Rightarrow> SegmentEntry \<Rightarrow> attempt \<times> attempt \<times> attempt \<Rightarrow> 's \<Rightarrow> world \<Rightarrow>
    restore_err option \<times> 's \<times> world" where
  "doRestore ops c hmacKey e env s w =
     (if \<not> VerifySignature hmacKey e then (Some RsSignature, s, w)
      else case env of (a1, a2, a3) \<Rightarrow> try_downloads ops c e [a1, a2, a3] True None s w)"

text \<open>
  A caller that finds another one restoring the same key waits for its outcome; the model has the caller that does the
  work. The check for a cached copy looks at the path without a tenant.
\<close>

definition Restore :: "'s store_ops \<Rightarrow> Cache \<Rightarrow> bytes \<Rightarrow> Manifest \<Rightarrow> string \<Rightarrow> int \<Rightarrow> int \<Rightarrow> attempt \<times> attempt \<times> attempt \<Rightarrow> 's \<Rightarrow> world \<Rightarrow>
    restore_err option \<times> 's \<times> world" where
  "Restore ops c hmacKey m topic part baseOffset env s w =
     (case HasTenant c [] topic part baseOffset w of
        (True, w) \<Rightarrow> (None, s, w)
      | (False, w) \<Rightarrow>
          (case manifest_Lookup topic part baseOffset m of
             None \<Rightarrow> (Some RsNotArchived, s, w)
           | Some e \<Rightarrow> doRestore ops c hmacKey e env s w))"

section \<open>Fetching from the archive\<close>

text \<open>The broker's cold-storage attachment; \<open>None\<close> when no archive is configured.\<close>

record archive =
  ac_cache :: Cache
  ac_hmacKey :: bytes
  ac_manifest :: Manifest

datatype arch_err = ArOffsetOutOfRange | ArUnauthorized | ArRestore restore_err | ArOpen | ArIO | ArScan | ArParse batch_err | ArPanic

text \<open>
  The scan. The header buffer is reused: a read cut short by the end of the file leaves the rest of the previous header
  in place.
\<close>

function scan_archive :: "bytes \<Rightarrow> int \<Rightarrow> bytes \<Rightarrow> nat \<Rightarrow> world \<Rightarrow> (arch_err + nat option) \<times> world" where
  "scan_archive data fetchOffset header pos w =
     (if pos < length data then
        case os_ctl w of
          (False, w) \<Rightarrow> (Inl ArScan, w)
        | (True, w) \<Rightarrow>
            let header = overwrite 0 (take 61 (drop pos data)) header in
            (case ParseBatchHeader header of
               (h, Some e) \<Rightarrow> (Inl (ArParse e), w)
             | (h, None) \<Rightarrow>
                 if fetchOffset \<ge> BaseOffset h \<and> fetchOffset \<le> LastOffset h then (Inr (Some pos), w)
                 else scan_archive data fetchOffset header (pos + nat (TotalSize h)) w)
      else (Inr None, w))"
  by pat_completeness auto
termination
  by (relation "measure (\<lambda>(data, x, header, pos, w). length data - pos)") (auto dest!: parse_ok_size)

declare scan_archive.simps [simp del]

function archive_trim_pos :: "bytes \<Rightarrow> nat \<Rightarrow> nat" where
  "archive_trim_pos buf pos =
     (if pos < length buf \<and> pos + 61 \<le> length buf then
        case ParseBatchHeader (gslice pos (pos + 61) buf) of
          (h, Some _) \<Rightarrow> pos
        | (h, None) \<Rightarrow>
            if pos + nat (TotalSize h) > length buf then pos else archive_trim_pos buf (pos + nat (TotalSize h))
      else pos)"
  by pat_completeness auto
termination
  by (relation "measure (\<lambda>(buf, pos). length buf - pos)") (auto dest!: parse_ok_size)

declare archive_trim_pos.simps [simp del]

definition archive_trim :: "bytes \<Rightarrow> bytes" where
  "archive_trim buf = take (archive_trim_pos buf 0) buf"

text \<open>The read from the batch found by the scan. A negative length panics.\<close>

definition read_archived :: "bytes \<Rightarrow> nat \<Rightarrow> int \<Rightarrow> world \<Rightarrow> (arch_err + bytes \<times> int) \<times> world" where
  "read_archived data startPos maxBytes w =
     (let want = (if int startPos + maxBytes > int (length data) then int (length data) - int startPos else maxBytes) in
      if want < 0 then (Inl ArPanic, w)
      else case os_ctl w of
        (False, w) \<Rightarrow> (Inl ArIO, w)
      | (True, w) \<Rightarrow>
          let buf = take (nat want) (drop startPos data); trimmed = archive_trim buf in
          if trimmed = [] then
            (case ParseBatchHeader buf of
               (h, Some perr) \<Rightarrow> (Inl (ArParse perr), w)
             | (h, None) \<Rightarrow>
                 if int startPos + TotalSize h > int (length data) then (Inl ArOffsetOutOfRange, w)
                 else (case os_ctl w of
                    (False, w) \<Rightarrow> (Inl ArIO, w)
                  | (True, w) \<Rightarrow> (Inr (take (nat (TotalSize h)) (drop startPos data), BaseOffset h), w)))
          else (Inr (trimmed, BaseOffset (hdr trimmed)), w))"

definition find_archived :: "Manifest \<Rightarrow> string \<Rightarrow> int \<Rightarrow> int \<Rightarrow> SegmentEntry option" where
  "find_archived m topic part fetchOffset =
     find (\<lambda>e. ar_Partition e = part \<and> fetchOffset \<ge> ar_BaseOffset e \<and> fetchOffset < ar_NextOffset e) (AllForTopic topic m)"

definition fetchFromArchive :: "'s store_ops \<Rightarrow> archive option \<Rightarrow> string \<Rightarrow> int \<Rightarrow> int \<Rightarrow> int \<Rightarrow> string \<Rightarrow> attempt \<times> attempt \<times> attempt \<Rightarrow>
    's \<Rightarrow> world \<Rightarrow> (arch_err + bytes \<times> int) \<times> 's \<times> world" where
  "fetchFromArchive ops ac topic part fetchOffset maxBytes requesterTenant env s w =
     (case ac of
        None \<Rightarrow> (Inl ArOffsetOutOfRange, s, w)
      | Some a \<Rightarrow>
          (case find_archived (ac_manifest a) topic part fetchOffset of
             None \<Rightarrow> (Inl ArOffsetOutOfRange, s, w)
           | Some e \<Rightarrow>
               if requesterTenant \<noteq> [] \<and> ar_TenantID e \<noteq> requesterTenant then (Inl ArUnauthorized, s, w)
               else (case Restore ops (ac_cache a) (ac_hmacKey a) (ac_manifest a) topic part (ar_BaseOffset e) env s w of
                  (Some RsPanic, s, w) \<Rightarrow> (Inl ArPanic, s, w)
                | (Some err, s, w) \<Rightarrow> (Inl (ArRestore err), s, w)
                | (None, s, w) \<Rightarrow>
                    (case OpenTenant (ac_cache a) (ar_TenantID e) topic part (ar_BaseOffset e) w of
                       (None, w) \<Rightarrow> (Inl ArOpen, s, w)
                     | (Some data, w) \<Rightarrow>
                         (case os_ctl w of
                            (False, w) \<Rightarrow> (Inl ArIO, s, w)
                          | (True, w) \<Rightarrow>
                              (case scan_archive data fetchOffset (replicate 61 0) 0 w of
                                 (Inl err, w) \<Rightarrow> (Inl err, s, w)
                               | (Inr None, w) \<Rightarrow> (Inl ArOffsetOutOfRange, s, w)
                               | (Inr (Some startPos), w) \<Rightarrow>
                                   (case read_archived data startPos maxBytes w of (r, w) \<Rightarrow> (r, s, w))))))))"

section \<open>The scan and the read\<close>

lemma archive_trim_eq: "archive_trim = trimToBatchBoundary"
proof -
  have "archive_trim_pos buf pos = trim_loop buf pos" for buf pos
  proof (induction buf pos rule: archive_trim_pos.induct)
    case (1 buf pos)
    then show ?case
      by (subst archive_trim_pos.simps, subst trim_loop.simps) (auto simp: Let_def split: prod.splits option.splits)
  qed
  then show ?thesis by (simp add: fun_eq_iff archive_trim_def trimToBatchBoundary_def)
qed

lemma scan_finds:
  assumes "w_plan w = []" "data = concat (pre @ bs)" "\<forall>b \<in> set bs. good_batch b" "chain x bs e" "0 \<le> x" "x \<le> target" "target < e"
    "e \<le> max_i64" "length header = 61"
  shows "\<exists>mid b post. bs = mid @ b # post \<and>
    scan_archive data target header (length (concat pre)) w = (Inr (Some (length (concat (pre @ mid)))), w) \<and>
    BaseOffset (header_of b) \<le> target \<and> target \<le> BaseOffset (header_of b) + LastOffsetDelta (header_of b)"
  using assms
proof (induction bs arbitrary: pre x header)
  case (Cons b bs)
  let ?h = "header_of b"
  define hb where "hb = take 61 (b @ concat bs)"
  have g: "good_batch b" using Cons.prems by simp
  have drop: "take 61 (drop (length (concat pre)) data) = hb" and lt: "length (concat pre) < length data"
    using Cons.prems good_batchD(2) [OF g] by (auto simp: hb_def)
  have len: "length hb = 61" using good_batchD(2) [OF g] by (simp add: hb_def)
  then have new: "overwrite 0 hb header = hb" using Cons.prems(9) by (simp add: overwrite_def)
  have parse: "ParseBatchHeader hb = (?h, None)" using parse_front [OF g, of "concat bs"] by (simp add: hb_def)
  have h: "BaseOffset ?h = x" "0 \<le> LastOffsetDelta ?h" and ch: "chain (x + LastOffsetDelta ?h + 1) bs e"
    using Cons.prems by auto
  then have last: "LastOffset ?h = x + LastOffsetDelta ?h"
    using LastOffset_simp [of ?h] chain_le [OF ch] Cons.prems by auto
  have step: "scan_archive data target header (length (concat pre)) w =
      (if target \<le> LastOffset ?h then (Inr (Some (length (concat pre))), w)
       else scan_archive data target hb (length (concat (pre @ [b]))) w)"
    using lt Cons.prems(1,6) h good_batchD(3) [OF g]
    by (subst scan_archive.simps) (simp add: os_simps drop new parse Let_def)
  show ?case
  proof (cases "target \<le> LastOffset ?h")
    case True
    then show ?thesis
      using step last h Cons.prems by - (rule exI [of _ "[]"], rule exI [of _ b], rule exI [of _ bs], auto)
  next
    case False
    have "\<exists>mid c post. bs = mid @ c # post \<and>
        scan_archive data target hb (length (concat (pre @ [b]))) w = (Inr (Some (length (concat ((pre @ [b]) @ mid)))), w) \<and>
        BaseOffset (header_of c) \<le> target \<and> target \<le> BaseOffset (header_of c) + LastOffsetDelta (header_of c)"
      by (rule Cons.IH [OF Cons.prems(1) _ _ ch]) (use Cons.prems False last h len in auto)
    then obtain mid c post where m: "bs = mid @ c # post"
      "scan_archive data target hb (length (concat (pre @ [b]))) w = (Inr (Some (length (concat ((pre @ [b]) @ mid)))), w)"
      "BaseOffset (header_of c) \<le> target" "target \<le> BaseOffset (header_of c) + LastOffsetDelta (header_of c)" by blast
    then have "b # bs = (b # mid) @ c # post" "scan_archive data target header (length (concat pre)) w =
        (Inr (Some (length (concat (pre @ (b # mid))))), w)" using step False by auto
    then show ?thesis using m(3,4) by blast
  qed
qed simp

lemma read_run:
  assumes "w_plan w = []" "data = concat pre @ concat (b # post)" "\<forall>c \<in> set (b # post). good_batch c" "61 \<le> m"
  obtains run after where "b # post = (b # run) @ after"
    "read_archived data (length (concat pre)) m w = (Inr (concat (b # run), BaseOffset (header_of b)), w)"
    "int (length (concat (b # run))) \<le> m \<or> run = []"
proof -
  have gb: "good_batch b" using assms(3) by simp
  note bD = good_batchD [OF gb]
  define want where "want = (if int (length (concat pre)) + m > int (length data) then int (length data) - int (length (concat pre)) else m)"
  define buf where "buf = take (nat want) (concat (b # post))"
  have want: "\<not> want < 0" "buf = take (nat m) (concat (b # post))"
    using assms(2,4) by (auto simp: want_def buf_def)
  obtain j where j: "fst (frames batch_size buf) = take j (b # post)" "length (concat (take j (b # post))) \<le> nat m"
    "j < length (b # post) \<longrightarrow> nat m < length (concat (take (Suc j) (b # post)))"
    using bf.frames_take [of "b # post" "nat m"] assms(3) good_batchD(5) unfolding want(2) by blast
  have trim: "archive_trim buf = concat (take j (b # post))" by (simp only: archive_trim_eq trim_frames j(1))
  have ctl: "os_ctl w = (True, w)" using assms(1) by (simp add: os_simps)
  have dr: "drop (length (concat pre)) data = concat (b # post)" using assms(2) by simp
  have rd: "read_archived data (length (concat pre)) m w =
      (if archive_trim buf = [] then
         (case ParseBatchHeader buf of
            (h, Some perr) \<Rightarrow> (Inl (ArParse perr), w)
          | (h, None) \<Rightarrow>
              if int (length (concat pre)) + TotalSize h > int (length data) then (Inl ArOffsetOutOfRange, w)
              else (Inr (take (nat (TotalSize h)) (concat (b # post)), BaseOffset h), w))
       else (Inr (archive_trim buf, BaseOffset (hdr (archive_trim buf))), w))"
    by (simp only: read_archived_def want_def [symmetric] Let_def dr ctl buf_def [symmetric] want(1) if_False prod.case bool.case)
  show ?thesis
  proof (cases j)
    case 0
    then have "buf = take (nat m) b" using j(3) by (simp add: want(2))
    then have pb: "ParseBatchHeader buf = (header_of b, None)"
      using ParseBatchHeader_take [of "nat m" b] bD(1,2) assms(4) by simp
    have "TotalSize (header_of b) = int (length b)" using bD(2,3) by auto
    then have "read_archived data (length (concat pre)) m w = (Inr (concat (b # []), BaseOffset (header_of b)), w)"
      unfolding rd trim using 0 pb assms(2) by simp
    then show ?thesis using that [of "[]" post] by simp
  next
    case (Suc j')
    have "read_archived data (length (concat pre)) m w = (Inr (concat (b # take j' post), BaseOffset (header_of b)), w)"
      unfolding rd trim using Suc bD(2) parse_run [OF gb, of "concat (take j' post)"] by auto
    moreover have "int (length (concat (b # take j' post))) \<le> m" using j(2) Suc assms(4) by simp
    ultimately show ?thesis using that [of "take j' post" "drop j' post"] by simp
  qed
qed

section \<open>A restore that succeeds\<close>

lemma downloadOnce_ok:
  assumes "downloadOnce ops c e broken s w = (None, s', w')"
  shows "(\<exists>f. map_of (w_dir w') (PathTenant c (ar_TenantID e) (ar_Topic e) (ar_Partition e) (ar_BaseOffset e)) = Some f \<and>
    hex_encode (sha256 (fdata f)) = ar_SHA256 e)"
proof -
  obtain body n where b: "PutTenantStream c (ar_TenantID e) (ar_Topic e) (ar_Partition e) (ar_BaseOffset e) body broken (ar_SHA256 e) w = (Inr n, w')"
    "\<not> length (ar_SHA256 e) < 12"
    using assms by (auto simp: downloadOnce_def split: prod.splits sum.splits cache_err.splits if_splits)
  have ne: "ar_SHA256 e \<noteq> []" using b(2) by auto
  obtain f where f: "map_of (w_dir w') (PathTenant c (ar_TenantID e) (ar_Topic e) (ar_Partition e) (ar_BaseOffset e)) = Some f" "fdata f = body"
    "sha_check body (ar_SHA256 e) = None"
    using PutTenantStream_ok [OF b(1)] by blast
  then have "hex_encode (sha256 (fdata f)) = ar_SHA256 e" using ne unfolding sha_check_None by blast
  with f(1) show ?thesis by blast
qed

lemma try_downloads_ok:
  "try_downloads ops c e as first lastErr s w = (None, s', w') \<Longrightarrow> lastErr \<noteq> None \<or> as \<noteq> [] \<Longrightarrow>
   \<exists>f. map_of (w_dir w') (PathTenant c (ar_TenantID e) (ar_Topic e) (ar_Partition e) (ar_BaseOffset e)) = Some f \<and>
     hex_encode (sha256 (fdata f)) = ar_SHA256 e"
proof (induction as arbitrary: first lastErr s w)
  case (Cons a as)
  obtain r s1 w1 where d: "downloadOnce ops c e (at_broken a) s w = (r, s1, w1)" by (metis prod_cases3)
  show ?case
  proof (cases r)
    case None
    then show ?thesis using Cons.prems(1) d downloadOnce_ok [of ops c e "at_broken a" s w s' w'] by (auto split: if_splits)
  next
    case (Some err)
    then show ?thesis using Cons.prems(1) d Cons.IH [of False "Some err" s1 w1] by (auto split: if_splits)
  qed
qed simp

section \<open>A restore without faults\<close>

lemma length_sha256: "length (hex_encode (sha256 d)) = 64"
proof -
  have r: "length (sha_round st kw) = length st" for st kw by (cases "(st, kw)" rule: sha_round.cases) (auto simp: Let_def)
  have f: "length (foldl sha_round st xs) = length st" for st xs by (induction xs arbitrary: st) (auto simp: r)
  have "length (sha_block st b) = length st" for st b by (simp add: sha_block_def Let_def f)
  then have "length (sha_blocks st m) = length st" for st m
    by (induction st m rule: sha_blocks.induct) (subst sha_blocks.simps, simp)
  then have "length (sha_blocks sha_init m) = 8" for m by (simp add: sha_init_def sha_primes_def)
  then have l: "length (sha256 d) = 32" by (simp add: sha256_def length_concat comp_def sum_list_triv)
  have "length (hex_encode bs) = 2 * length bs" for bs by (induction bs) (auto simp: hex_encode_def)
  then show ?thesis by (simp add: l)
qed

lemma cache_evict_loop_quiet: "w_plan w = [] \<Longrightarrow> \<exists>w'. cache_evict_loop cutoff mx used files w = (None, w') \<and> w_plan w' = []"
  by (induction files arbitrary: used w) (auto simp: os_simps)

lemma evict_quiet: "w_plan w = [] \<Longrightarrow> \<exists>w'. evictLockedIfNeeded c w = (None, w') \<and> w_plan w' = []"
  using cache_evict_loop_quiet [of w] by (auto simp: evictLockedIfNeeded_def os_simps Let_def)

lemma PutTenantStream_quiet:
  assumes "w_plan w = []" "sha_check body expected = None"
  shows "\<exists>n w'. PutTenantStream c tenant topic part base body False expected w = (Inr n, w') \<and> w_plan w' = []"
proof -
  let ?p = "PathTenant c tenant topic part base"
  obtain w1 where w1: "os_create (?p @ ''.tmp'') w = (True, w1)" "w_plan w1 = []"
    using assms(1) by (simp add: os_create_def os_simps put_file_def)
  obtain k w2 where w2: "os_write (?p @ ''.tmp'') 0 body w1 = (True, k, w2)" "w_plan w2 = []"
    using w1(2) by (simp add: os_simps put_file_def)
  have "map_of (w_dir w2) (?p @ ''.tmp'') \<noteq> None" using os_write_dir [OF w2(1)] by simp
  then obtain w3 where w3: "os_rename (?p @ ''.tmp'') ?p w2 = (True, w3)" "w_plan w3 = []"
    using w2(2) by (auto simp: os_rename_def os_simps)
  then show ?thesis using assms w1 w2 evict_quiet [OF w3(2), of c] by (auto simp: PutTenantStream_def os_simps Let_def)
qed

lemma OpenTenant_quiet:
  assumes "w_plan w = []" "map_of (w_dir w) (PathTenant c tenant topic part base) = Some f"
  shows "\<exists>w'. OpenTenant c tenant topic part base w = (Some (fdata f), w') \<and> w_plan w' = []"
  using assms by (simp add: OpenTenant_def os_chtimes_def os_lookup_def os_simps update_conv' Let_def)

lemma Restore_quiet:
  assumes "w_plan w = []" "map_of (w_dir w) (PathTenant c [] topic part base) = None" "manifest_Lookup topic part base m = Some e"
    "VerifySignature key e" "ar_SHA256 e = hex_encode (sha256 data)" "so_Get ops (ar_S3Key e) s = (Inr data, s')" "\<not> at_broken (fst env)"
  shows "\<exists>w' f. Restore ops c key m topic part base env s w = (None, s', w') \<and> w_plan w' = [] \<and>
    map_of (w_dir w') (PathTenant c (ar_TenantID e) topic part base) = Some f \<and> fdata f = data"
proof -
  have e: "ar_Topic e = topic" "ar_Partition e = part" "ar_BaseOffset e = base" using Lookup_mem [OF assms(3)] by auto
  obtain n w' where p: "PutTenantStream c (ar_TenantID e) topic part base data False (ar_SHA256 e) w = (Inr n, w')" "w_plan w' = []"
    using PutTenantStream_quiet [OF assms(1), of data "ar_SHA256 e" c "ar_TenantID e" topic part base] assms(5)
    by (auto simp: sha_check_None)
  have "downloadOnce ops c e False s w = (None, s', w')"
    using p(1) length_sha256 [of data] by (simp add: downloadOnce_def assms(5,6) e)
  then have "Restore ops c key m topic part base env s w = (None, s', w')"
    using assms(1-4,7) by (cases env) (simp add: Restore_def HasTenant_def os_lookup_def os_simps doRestore_def)
  then show ?thesis using PutTenantStream_ok [OF p(1)] p(2) by blast
qed

lemma find_app: "find P (xs @ ys) = (case find P xs of None \<Rightarrow> find P ys | Some x \<Rightarrow> Some x)"
  by (induction xs) auto

lemma find_archived_unique:
  assumes "entries_disjoint (mf_completed m)" "e \<in> set (mf_completed m)" "ar_BaseOffset e \<le> x" "x < ar_NextOffset e"
  shows "find_archived m (ar_Topic e) (ar_Partition e) x = Some e"
proof -
  let ?P = "\<lambda>e'. ar_Partition e' = ar_Partition e \<and> x \<ge> ar_BaseOffset e' \<and> x < ar_NextOffset e'"
  obtain pre post where m: "mf_completed m = pre @ e # post" using assms(2) by (meson split_list)
  have "\<not> ?P e'" if "e' \<in> set pre" "ar_Topic e' = ar_Topic e" for e'
    using assms that by (auto simp: m entries_disjoint_def sorted_wrt_append samePartition_def overlaps_def)
  then have "find ?P (filter (\<lambda>e'. ar_Topic e' = ar_Topic e) pre) = None" by (auto simp: find_None_iff)
  then have "find ?P (filter (\<lambda>e'. ar_Topic e' = ar_Topic e) (pre @ e # post)) = Some e"
    using assms(3,4) by (simp add: find_app)
  then show ?thesis by (simp add: find_archived_def AllForTopic_def m)
qed

lemma Lookup_unique:
  assumes "entries_disjoint (mf_completed m)" "e \<in> set (mf_completed m)"
  shows "manifest_Lookup (ar_Topic e) (ar_Partition e) (ar_BaseOffset e) m = Some e"
proof -
  let ?P = "\<lambda>e'. ar_Topic e' = ar_Topic e \<and> ar_Partition e' = ar_Partition e \<and> ar_BaseOffset e' = ar_BaseOffset e"
  obtain pre post where m: "mf_completed m = pre @ e # post" using assms(2) by (meson split_list)
  have "\<not> ?P e'" if "e' \<in> set pre" for e'
    using assms that by (auto simp: m entries_disjoint_def sorted_wrt_append samePartition_def)
  then have "find ?P pre = None" by (auto simp: find_None_iff)
  then show ?thesis by (simp add: manifest_Lookup_def m find_app)
qed

lemma fetch_archive_run:
  assumes "entries_disjoint (mf_completed (ac_manifest a))" "e \<in> set (mf_completed (ac_manifest a))" "ar_BaseOffset e \<le> x" "x < ar_NextOffset e"
    "req = [] \<or> ar_TenantID e = req" "VerifySignature (ac_hmacKey a) e" "ar_SHA256 e = hex_encode (sha256 (concat bs))"
    "so_Get ops (ar_S3Key e) s = (Inr (concat bs), s')" "\<not> at_broken (fst env)" "w_plan w = []"
    "map_of (w_dir w) (PathTenant (ac_cache a) [] (ar_Topic e) (ar_Partition e) (ar_BaseOffset e)) = None"
    "\<forall>b \<in> set bs. good_batch b" "chain (ar_BaseOffset e) bs (ar_NextOffset e)" "0 \<le> ar_BaseOffset e" "ar_NextOffset e \<le> max_i64" "61 \<le> mx"
  obtains before b run after w' where "bs = before @ (b # run) @ after"
    "fetchFromArchive ops (Some a) (ar_Topic e) (ar_Partition e) x mx req env s w = (Inr (concat (b # run), BaseOffset (header_of b)), s', w')"
    "BaseOffset (header_of b) \<le> x" "x \<le> BaseOffset (header_of b) + LastOffsetDelta (header_of b)"
    "int (length (concat (b # run))) \<le> mx \<or> run = []"
proof -
  let ?c = "ac_cache a" and ?t = "ar_Topic e" and ?p = "ar_Partition e" and ?b = "ar_BaseOffset e"
  obtain w1 f where r: "Restore ops ?c (ac_hmacKey a) (ac_manifest a) ?t ?p ?b env s w = (None, s', w1)" "w_plan w1 = []"
    "map_of (w_dir w1) (PathTenant ?c (ar_TenantID e) ?t ?p ?b) = Some f" "fdata f = concat bs"
    using Restore_quiet [where data = "concat bs", OF assms(10,11) Lookup_unique [OF assms(1,2)] assms(6-9)] by blast
  obtain w2 where o: "OpenTenant ?c (ar_TenantID e) ?t ?p ?b w1 = (Some (concat bs), w2)" "w_plan w2 = []"
    using OpenTenant_quiet [OF r(2,3)] r(4) by auto
  obtain pre b post where s: "bs = pre @ b # post"
    "scan_archive (concat bs) x (replicate 61 0) 0 w2 = (Inr (Some (length (concat pre))), w2)"
    "BaseOffset (header_of b) \<le> x" "x \<le> BaseOffset (header_of b) + LastOffsetDelta (header_of b)"
    using scan_finds [of w2 "concat bs" "[]" bs ?b "ar_NextOffset e" x "replicate 61 0"] o(2) assms by auto
  obtain run after where rr: "b # post = (b # run) @ after"
    "read_archived (concat bs) (length (concat pre)) mx w2 = (Inr (concat (b # run), BaseOffset (header_of b)), w2)"
    "int (length (concat (b # run))) \<le> mx \<or> run = []"
    by (rule read_run [of w2 "concat bs" pre b post mx]) (use o(2) s(1) assms(12,16) in auto)
  have "fetchFromArchive ops (Some a) ?t ?p x mx req env s w = (Inr (concat (b # run), BaseOffset (header_of b)), s', w2)"
    using find_archived_unique [OF assms(1-4)] assms(5) r(1) o s(2) rr(2)
    by (auto simp: fetchFromArchive_def os_simps)
  then show ?thesis using that [of pre b run after] s rr by simp
qed

section \<open>Properties\<close>


definition sample_stored :: SegmentEntry where
  "sample_stored = sample_entry\<lparr>ar_SHA256 := hex_encode (sha256 sample_batch), ar_TenantID := ''acme''\<rparr>"

definition sample_arch :: archive where
  "sample_arch = \<lparr>ac_cache = sample_cache, ac_hmacKey = [], ac_manifest = sample_manifest\<lparr>mf_completed := [sample_stored]\<rparr>\<rparr>"

definition sample_fs :: FS where
  "sample_fs = \<lparr>fs_root = ''/a'', fs_w = \<lparr>w_plan = [], w_dir = [(''/a/objects/k'', \<lparr>fdata = sample_batch, mtime = 0\<rparr>)], w_now = 0, w_paused = False\<rparr>,
     fs_docs = sample_docs, fs_dirs = []\<rparr>"

definition empty_world :: world where
  "empty_world = \<lparr>w_plan = [], w_dir = [], w_now = 0, w_paused = False\<rparr>"

definition calm_attempt :: attempt where
  "calm_attempt = \<lparr>at_broken = False, at_waited_out = False, at_expired = False\<rparr>"

lemma sample_stored_sel [simp]:
  "ar_Topic sample_stored = ''t''" "ar_Partition sample_stored = 0" "ar_BaseOffset sample_stored = 0" "ar_NextOffset sample_stored = 3"
  "ar_TenantID sample_stored = ''acme''" "ar_S3Key sample_stored = ''k''" "ar_SHA256 sample_stored = hex_encode (sha256 sample_batch)"
  "mf_completed (ac_manifest sample_arch) = [sample_stored]" "w_plan empty_world = []" "map_of (w_dir empty_world) p = None"
  "VerifySignature (ac_hmacKey sample_arch) sample_stored" "\<not> at_broken calm_attempt"
  by (simp_all add: sample_stored_def sample_entry_def sample_arch_def empty_world_def VerifySignature_def calm_attempt_def)

lemma sample_fs_get: "so_Get fs_ops (ar_S3Key sample_stored) sample_fs = (Inr sample_batch, sample_fs)"
proof -
  have "objectPath sample_fs ''k'' = Some ''/a/objects/k''" by code_simp
  then show ?thesis by (simp add: fs_ops_sel fs_Get_def os_lookup_def os_simps sample_fs_def)
qed

lemma sample_disjoint: "entries_disjoint (mf_completed (ac_manifest sample_arch))"
  by (simp add: entries_disjoint_def)

lemma sample_lookup: "manifest_Lookup ''t'' 0 0 (ac_manifest sample_arch) = Some sample_stored"
  using Lookup_unique [OF sample_disjoint, of sample_stored] by simp


text \<open>
  A segment restored for a tenant is downloaded again on every fetch: the check for a cached copy looks at the path without
  a tenant. With the store unreachable the fetch fails although the segment is cached.
\<close>

lemma tenant_segment_not_found_in_cache:
  assumes "w_plan w = []" "map_of (w_dir w) (PathTenant c [] topic part base) = None" "manifest_Lookup topic part base m = Some e"
    "VerifySignature key e" "\<forall>s. so_Get ops (ar_S3Key e) s = (Inl StIO, s)"
  shows "Restore ops c key m topic part base (a1, a2, a3) s w \<noteq> (None, s', w')"
  using assms by (auto simp: Restore_def HasTenant_def os_lookup_def os_simps doRestore_def downloadOnce_def)



end
