(* ===== verification/Log_Confine.thy ===== *)
theory Log_Confine
  imports Partition_Log
begin

text \<open>
  Confinement of the storage layer: whatever system calls fail, opening, recovering, appending to, flushing and closing a partition
  log change no file outside the partition's directory. The partitions of a broker share one file system, so this is what
  keeps a failure in one partition from reaching the others.
\<close>

section \<open>System calls\<close>

text \<open>The rules chain a frame that started at \<open>w0\<close> through one more call.\<close>

named_theorems conf \<open>extending a frame by one call\<close>

lemma conf_io_next [conf]: "io_next w = (x, w') \<Longrightarrow> touches P w0 w \<Longrightarrow> touches P w0 w'"
  by (blast intro: touches_trans touches_io_next)

lemma conf_ctl [conf]: "os_ctl w = (ok, w') \<Longrightarrow> touches P w0 w \<Longrightarrow> touches P w0 w'"
  by (blast intro: touches_trans touches_os_ctl)

lemma conf_open [conf]: "os_open name w = (ok, w') \<Longrightarrow> name \<in> P \<Longrightarrow> touches P w0 w \<Longrightarrow> touches P w0 w'"
  by (blast intro: touches_trans touches_os_open)

lemma conf_truncate [conf]: "os_truncate name n w = (ok, w') \<Longrightarrow> name \<in> P \<Longrightarrow> touches P w0 w \<Longrightarrow> touches P w0 w'"
  by (blast intro: touches_trans touches_os_truncate)

lemma conf_write [conf]: "os_write name pos bs w = (ok, c, w') \<Longrightarrow> name \<in> P \<Longrightarrow> touches P w0 w \<Longrightarrow> touches P w0 w'"
  by (blast intro: touches_trans touches_os_write)

lemma conf_read [conf]: "os_read name pos n w = (r, w') \<Longrightarrow> touches P w0 w \<Longrightarrow> touches P w0 w'"
  by (blast intro: touches_trans touches_os_read)

lemma conf_snd_ctl [conf]: "touches P w0 w \<Longrightarrow> touches P w0 (snd (os_ctl w))"
  by (cases "os_ctl w") (auto intro: conf)

section \<open>Indexes\<close>

lemma Index_load_conf:
  "Index_load i w = (r, w') \<Longrightarrow> ix_path i \<in> P \<Longrightarrow> touches P w0 w \<Longrightarrow>
   touches P w0 w' \<and> (\<forall>j. r = Inr j \<longrightarrow> ix_path j = ix_path i)"
  unfolding Index_load_def Let_def
  by (auto split: prod.splits bool.splits option.splits if_splits; blast intro: conf)

lemma OpenIndex_conf:
  "OpenIndex path interval w = (r, w') \<Longrightarrow> path \<in> P \<Longrightarrow> touches P w0 w \<Longrightarrow>
   touches P w0 w' \<and> (\<forall>j. r = Inr j \<longrightarrow> ix_path j = path)"
  unfolding OpenIndex_def
  by (auto split: prod.splits bool.splits dest: Index_load_conf [where P = P and ?w0.0 = w0, OF _ _ conf_open] intro: conf)

lemma Index_MaybeAppend_conf:
  "Index_MaybeAppend i x pos w = (e, j, w') \<Longrightarrow> ix_path i \<in> P \<Longrightarrow> touches P w0 w \<Longrightarrow> touches P w0 w' \<and> ix_path j = ix_path i"
  unfolding Index_MaybeAppend_def Let_def
  by (auto split: prod.splits bool.splits option.splits if_splits; blast intro: conf)

lemma Index_Close_conf: "Index_Close i w = (e, j, w') \<Longrightarrow> touches P w0 w \<Longrightarrow> touches P w0 w'"
  by (auto simp: Index_Close_def split: prod.splits bool.splits option.splits if_splits intro: conf)

lemma Index_Sync_conf: "Index_Sync i w = (e, w') \<Longrightarrow> touches P w0 w \<Longrightarrow> touches P w0 w'"
  by (auto simp: Index_Sync_def split: prod.splits bool.splits option.splits if_splits intro: conf)

lemma Index_Reset_conf:
  "Index_Reset i w = (e, j, w') \<Longrightarrow> ix_path i \<in> P \<Longrightarrow> touches P w0 w \<Longrightarrow> touches P w0 w' \<and> ix_path j = ix_path i"
  unfolding Index_Reset_def Let_def
  by (auto split: prod.splits bool.splits option.splits if_splits; blast intro: conf)

lemma TimeIndex_load_conf:
  "TimeIndex_load i w = (r, w') \<Longrightarrow> tx_path i \<in> P \<Longrightarrow> touches P w0 w \<Longrightarrow>
   touches P w0 w' \<and> (\<forall>j. r = Inr j \<longrightarrow> tx_path j = tx_path i)"
  unfolding TimeIndex_load_def Let_def
  by (auto split: prod.splits bool.splits option.splits if_splits; blast intro: conf)

lemma OpenTimeIndex_conf:
  "OpenTimeIndex path interval w = (r, w') \<Longrightarrow> path \<in> P \<Longrightarrow> touches P w0 w \<Longrightarrow>
   touches P w0 w' \<and> (\<forall>j. r = Inr j \<longrightarrow> tx_path j = path)"
  unfolding OpenTimeIndex_def
  by (auto split: prod.splits bool.splits dest: TimeIndex_load_conf [where P = P and ?w0.0 = w0, OF _ _ conf_open] intro: conf)

lemma TimeIndex_MaybeAppend_conf:
  "TimeIndex_MaybeAppend i ts x pos w = (e, j, w') \<Longrightarrow> tx_path i \<in> P \<Longrightarrow> touches P w0 w \<Longrightarrow> touches P w0 w' \<and> tx_path j = tx_path i"
  unfolding TimeIndex_MaybeAppend_def Let_def
  by (auto split: prod.splits bool.splits option.splits if_splits; blast intro: conf)

lemma TimeIndex_Close_conf: "TimeIndex_Close i w = (e, j, w') \<Longrightarrow> touches P w0 w \<Longrightarrow> touches P w0 w'"
  by (auto simp: TimeIndex_Close_def split: prod.splits bool.splits option.splits if_splits intro: conf)

lemma TimeIndex_Sync_conf: "TimeIndex_Sync i w = (e, w') \<Longrightarrow> touches P w0 w \<Longrightarrow> touches P w0 w'"
  by (auto simp: TimeIndex_Sync_def split: prod.splits bool.splits option.splits if_splits intro: conf)

lemma TimeIndex_Reset_conf:
  "TimeIndex_Reset i w = (e, j, w') \<Longrightarrow> tx_path i \<in> P \<Longrightarrow> touches P w0 w \<Longrightarrow> touches P w0 w' \<and> tx_path j = tx_path i"
  unfolding TimeIndex_Reset_def Let_def
  by (auto split: prod.splits bool.splits option.splits if_splits; blast intro: conf)

section \<open>Segments\<close>

text \<open>A segment whose files are all in directory \<open>d\<close>.\<close>

definition seg_in :: "string \<Rightarrow> Segment \<Rightarrow> bool" where
  "seg_in d s \<longleftrightarrow> sg_dir s = d \<and> (\<forall>i. sg_idx s = Some i \<longrightarrow> ix_path i \<in> dir_files d) \<and>
     (\<forall>t. sg_tix s = Some t \<longrightarrow> tx_path t \<in> dir_files d)"

lemma seg_path_in [simp, intro]:
  "seg_path d y logSuffix \<in> dir_files d" "seg_path d y indexSuffix \<in> dir_files d" "seg_path d y timeIndexSuffix \<in> dir_files d"
  by (auto simp: files_of_def)

lemma LogPath_in: "seg_in d s \<Longrightarrow> LogPath s \<in> dir_files d"
  by (auto simp: seg_in_def LogPath_def)

lemma index_batch_conf:
  assumes "index_batch s h pos w = (s', w')" "seg_in d s" "touches (dir_files d) w0 w"
  shows "touches (dir_files d) w0 w' \<and> seg_in d s' \<and> LogPath s' = LogPath s"
proof -
  obtain idx w1 where i: "(case sg_idx s of None \<Rightarrow> (None, w)
      | Some i \<Rightarrow> (case Index_MaybeAppend i (i64 (BaseOffset h - sg_baseOffset s)) (int pos) w of (_, i, w) \<Rightarrow> (Some i, w))) = (idx, w1)"
    by fastforce
  have I: "touches (dir_files d) w0 w1" "\<forall>i. idx = Some i \<longrightarrow> ix_path i \<in> dir_files d"
    using i assms(2,3) Index_MaybeAppend_conf [where P = "dir_files d" and ?w0.0 = w0]
    by (fastforce simp: seg_in_def split: option.splits prod.splits)+
  obtain tix w2 where t: "(case sg_tix s of None \<Rightarrow> (None, w1)
      | Some t \<Rightarrow> (case TimeIndex_MaybeAppend t (MaxTimestamp h) (i64 (BaseOffset h - sg_baseOffset s)) (int pos) w1 of
          (_, t, w) \<Rightarrow> (Some t, w))) = (tix, w2)"
    by fastforce
  have T: "touches (dir_files d) w0 w2" "\<forall>i. tix = Some i \<longrightarrow> tx_path i \<in> dir_files d"
    using t assms(2) I(1) TimeIndex_MaybeAppend_conf [where P = "dir_files d" and ?w0.0 = w0]
    by (fastforce simp: seg_in_def split: option.splits prod.splits)+
  have "s' = s\<lparr>sg_idx := idx, sg_tix := tix\<rparr>" "w' = w2"
    using assms(1) i t by (auto simp: index_batch_def Let_def)
  then show ?thesis using I T assms(2) by (simp add: seg_in_def LogPath_def)
qed

lemma recover_loop_conf:
  "recover_loop n s pos w = (e, p, s', w') \<Longrightarrow> seg_in d s \<Longrightarrow> touches (dir_files d) w0 w \<Longrightarrow>
   touches (dir_files d) w0 w' \<and> seg_in d s'"
proof (induction n s pos w arbitrary: e p s' w' rule: recover_loop.induct)
  case (1 n s pos w)
  note prem = 1(2-)
  show ?case
  proof (cases "pos < n")
    case False
    then show ?thesis using prem by (simp add: recover_loop.simps)
  next
    case True
    obtain r w1 where r: "os_read (LogPath s) pos v2HeaderSize w = (r, w1)" by fastforce
    have t1: "touches (dir_files d) w0 w1" by (rule conf_read [OF r prem(3)])
    show ?thesis
    proof (cases "\<exists>header h. r = Some header \<and> \<not> length header < v2HeaderSize \<and> ParseBatchHeader header = (h, None) \<and>
        \<not> pos + nat (TotalSize h) > n")
      case False
      then show ?thesis using prem True r t1 by (subst (asm) recover_loop.simps) (auto simp: Let_def split: option.splits prod.splits if_splits)
    next
      case ok: True
      then obtain header h where h: "r = Some header" "\<not> length header < v2HeaderSize" "ParseBatchHeader header = (h, None)"
        "\<not> pos + nat (TotalSize h) > n" by blast
      obtain r2 w2 where r2: "os_read (LogPath s) pos (nat (TotalSize h)) w1 = (r2, w2)" by fastforce
      have t2: "touches (dir_files d) w0 w2" by (rule conf_read [OF r2 t1])
      show ?thesis
      proof (cases "\<exists>body. r2 = Some body \<and> \<not> length body < nat (TotalSize h) \<and> ValidateCRC body = None")
        case False
        then show ?thesis using prem True r h r2 t2
          by (subst (asm) recover_loop.simps) (auto simp: Let_def split: option.splits if_splits)
      next
        case True
        then obtain body where b: "r2 = Some body" "\<not> length body < nat (TotalSize h)" "ValidateCRC body = None" by blast
        obtain s1 w3 where i: "index_batch s h pos w2 = (s1, w3)" by fastforce
        have c: "touches (dir_files d) w0 w3" "seg_in d (s1\<lparr>sg_nextOffset := i64 (LastOffset h + 1)\<rparr>)"
          using index_batch_conf [OF i prem(2) t2] by (auto simp: seg_in_def)
        have "recover_loop n (s1\<lparr>sg_nextOffset := i64 (LastOffset h + 1)\<rparr>) (pos + nat (TotalSize h)) w3 = (e, p, s', w')"
          using prem(1) \<open>pos < n\<close> r h r2 b i by (subst (asm) recover_loop.simps) (simp add: Let_def)
        then show ?thesis
          using 1(1) [OF \<open>pos < n\<close> r [symmetric] h(1,2) h(3) [symmetric] _ refl h(4) r2 [symmetric] b i [symmetric]] c by simp
      qed
    qed
  qed
qed

lemma Segment_Close_conf: "Segment_Close s w = (e, s', w') \<Longrightarrow> touches P w0 w \<Longrightarrow> touches P w0 w'"
  unfolding Segment_Close_def Let_def
  by (auto split: prod.splits option.splits; blast intro: conf Index_Close_conf TimeIndex_Close_conf)

lemma Segment_Sync_conf: "Segment_Sync s w = (e, w') \<Longrightarrow> touches P w0 w \<Longrightarrow> touches P w0 w'"
  unfolding Segment_Sync_def
  by (auto split: prod.splits option.splits bool.splits; blast intro: conf Index_Sync_conf TimeIndex_Sync_conf)

lemma Segment_Seal_conf:
  "Segment_Seal s w = (e, s', w') \<Longrightarrow> seg_in d s \<Longrightarrow> touches P w0 w \<Longrightarrow> touches P w0 w' \<and> seg_in d s'"
  unfolding Segment_Seal_def
  by (auto split: prod.splits option.splits intro: Segment_Sync_conf simp: seg_in_def)

lemma Segment_recover_conf:
  assumes "Segment_recover s w = (e, s', w')" "seg_in d s" "touches (dir_files d) w0 w"
  shows "touches (dir_files d) w0 w' \<and> seg_in d s'"
proof (cases "sg_logSize s = 0 \<or> sg_idx s = None")
  case True
  then show ?thesis using assms by (auto simp: Segment_recover_def seg_in_def split: if_splits)
next
  case False
  then obtain i where i: "sg_idx s = Some i" "sg_logSize s \<noteq> 0" by auto
  obtain e1 i1 w1 where r1: "Index_Reset i w = (e1, i1, w1)" using prod_cases3 by blast
  have c1: "touches (dir_files d) w0 w1" "ix_path i1 \<in> dir_files d"
    using Index_Reset_conf [OF r1 _ assms(3)] assms(2) i(1) by (auto simp: seg_in_def)
  show ?thesis
  proof (cases "e1 \<noteq> None \<or> sg_tix s = None")
    case True
    then show ?thesis using assms i r1 c1 by (auto simp: Segment_recover_def seg_in_def split: option.splits)
  next
    case False
    then obtain t where t: "sg_tix s = Some t" "e1 = None" by auto
    obtain e2 t1 w2 where r2: "TimeIndex_Reset t w1 = (e2, t1, w2)" using prod_cases3 by blast
    have c2: "touches (dir_files d) w0 w2" "tx_path t1 \<in> dir_files d"
      using TimeIndex_Reset_conf [OF r2 _ c1(1)] assms(2) t(1) by (auto simp: seg_in_def)
    let ?s = "s\<lparr>sg_idx := Some i1, sg_tix := Some t1\<rparr>"
    have s: "seg_in d ?s" using assms(2) c1 c2 by (simp add: seg_in_def)
    obtain e3 pos s3 w3 where r3: "recover_loop (sg_logSize ?s) ?s 0 w2 = (e3, pos, s3, w3)" using prod_cases4 by blast
    have c3: "touches (dir_files d) w0 w3" "seg_in d s3" using recover_loop_conf [OF r3 s c2(1)] by simp_all
    note eq = assms(1) i t r1 r2 r3
    show ?thesis
      using eq c2 c3 s LogPath_in [OF c3(2)]
      by (auto simp: Segment_recover_def Let_def seg_in_def split: option.splits prod.splits if_splits bool.splits; blast intro: conf)
  qed
qed

lemma OpenSegment_conf:
  assumes "OpenSegment opts w = (r, w')" "touches (dir_files (so_Dir opts)) w0 w"
  shows "touches (dir_files (so_Dir opts)) w0 w' \<and> (\<forall>s. r = Inr s \<longrightarrow> seg_in (so_Dir opts) s)"
proof -
  let ?d = "so_Dir opts" and ?x = "so_BaseOffset opts"
  let ?P = "dir_files ?d"
  obtain ok w1 where o: "os_open (seg_path ?d ?x logSuffix) w = (ok, w1)" by fastforce
  have t1: "touches ?P w0 w1" using conf_open [OF o _ assms(2)] by blast
  obtain ri w2 where oi: "OpenIndex (seg_path ?d ?x indexSuffix) (so_IndexInterval opts) w1 = (ri, w2)" by fastforce
  have t2: "touches ?P w0 w2" "\<forall>j. ri = Inr j \<longrightarrow> ix_path j \<in> ?P" using OpenIndex_conf [OF oi _ t1] by auto
  obtain rt w3 where ot: "OpenTimeIndex (seg_path ?d ?x timeIndexSuffix) (so_IndexInterval opts) w2 = (rt, w3)" by fastforce
  have t3: "touches ?P w0 w3" "\<forall>j. rt = Inr j \<longrightarrow> tx_path j \<in> ?P" using OpenTimeIndex_conf [OF ot _ t2(1)] by auto
  have cl: "touches ?P w0 (snd (snd (Index_Close i v)))" "touches ?P w0 (snd (snd (Segment_Close s v)))" if "touches ?P w0 v" for i s v
    using Index_Close_conf [of i v] Segment_Close_conf [of s v] that by (metis prod.collapse)+
  show ?thesis
  proof (cases "ok \<and> \<not> isl ri \<and> \<not> isl rt \<and> fst (os_ctl w3)")
    case False
    then show ?thesis
      using assms(1) o oi ot t1 t2 t3 cl conf_snd_ctl
      by (auto simp: OpenSegment_def Let_def split: bool.splits sum.splits prod.splits dest: conf_ctl [OF _ t3(1)])
  next
    case True
    obtain ix tx w4 where ok: "ok" "ri = Inr ix" "rt = Inr tx" "os_ctl w3 = (True, w4)"
      using True by (cases ri; cases rt; cases "os_ctl w3") auto
    have t4: "touches ?P w0 w4" by (rule conf_ctl [OF ok(4) t3(1)])
    define s where "s = \<lparr>sg_dir = ?d, sg_baseOffset = ?x, sg_logFile = Some 0,
      sg_logSize = length (fdata (file_of w4 (seg_path ?d ?x logSuffix))), sg_createdAt = mtime (file_of w4 (seg_path ?d ?x logSuffix)),
      sg_idx = Some ix, sg_tix = Some tx, sg_nextOffset = ?x, sg_maxBytes = so_MaxBytes opts, sg_maxAge = so_MaxAge opts, sg_sealed = False\<rparr>"
    obtain e s5 w5 where rc: "Segment_recover s w4 = (e, s5, w5)" using prod_cases3 by blast
    have c5: "touches ?P w0 w5" "seg_in ?d s5"
      using Segment_recover_conf [OF rc _ t4] t2(2) t3(2) ok by (auto simp: seg_in_def s_def)
    have "(r, w') = (case e of Some e \<Rightarrow> (Inl e, snd (snd (Segment_Close s5 w5))) | None \<Rightarrow> (Inr s5, w5))"
      using assms(1) o oi ot ok rc by (auto simp: OpenSegment_def Let_def s_def split: option.splits)
    then show ?thesis using c5 cl(2) by (auto split: option.splits)
  qed
qed

lemma Segment_Append_conf:
  assumes "Segment_Append s b w = (r, s', w')" "seg_in d s" "touches (dir_files d) w0 w"
  shows "touches (dir_files d) w0 w' \<and> seg_in d s'"
proof -
  have keep: "seg_in d (s\<lparr>sg_logFile := f\<rparr>)" "seg_in d (s\<lparr>sg_logFile := f, sg_logSize := n, sg_nextOffset := x\<rparr>)" for f n x
    using assms(2) by (simp_all add: seg_in_def)
  show ?thesis
    using assms LogPath_in [OF assms(2)] keep
    unfolding Segment_Append_def
    by (auto simp: Let_def split: if_splits prod.splits option.splits bool.splits;
        blast intro: conf dest: index_batch_conf [OF _ keep(2) conf_write])
qed

section \<open>Logs\<close>

definition log_in :: "Log \<Rightarrow> bool" where
  "log_in l \<longleftrightarrow> (\<forall>s \<in> set (lg_segments l). seg_in (lg_dir l) s)"

text \<open>The log is the same but for its segments.\<close>

definition log_same :: "Log \<Rightarrow> Log \<Rightarrow> bool" where
  "log_same l l' \<longleftrightarrow> (\<exists>segs. l' = l\<lparr>lg_segments := segs\<rparr>)"

lemma log_same_refl [simp]: "log_same l l"
  unfolding log_same_def by (rule exI [of _ "lg_segments l"]) simp

lemma log_same_upd [simp]: "log_same l (l'\<lparr>lg_segments := segs\<rparr>) \<longleftrightarrow> log_same l l'"
  unfolding log_same_def by (cases l; cases l') auto

lemma log_same_active [simp]: "log_same l (set_active s l') \<longleftrightarrow> log_same l l'"
  by (simp add: set_active_def)

lemma log_same_trans: "log_same l l' \<Longrightarrow> log_same l' l'' \<Longrightarrow> log_same l l''"
  by (auto simp: log_same_def)

lemma log_sameD: "log_same l l' \<Longrightarrow> lg_dir l' = lg_dir l \<and> lg_topic l' = lg_topic l \<and> lg_partition l' = lg_partition l \<and>
    lg_cfg l' = lg_cfg l \<and> lg_logStart l' = lg_logStart l \<and> lg_diskGuard l' = lg_diskGuard l"
  by (auto simp: log_same_def)

lemma log_in_last: "log_in l \<Longrightarrow> lg_segments l \<noteq> [] \<Longrightarrow> seg_in (lg_dir l) (last (lg_segments l))"
  by (simp add: log_in_def)

lemma log_in_set_active: "log_in l \<Longrightarrow> seg_in (lg_dir l) s \<Longrightarrow> log_in (set_active s l) \<and> lg_dir (set_active s l) = lg_dir l"
  by (auto simp: log_in_def set_active_def dest: in_set_butlastD)

lemma rollLocked_conf:
  assumes "rollLocked l w = (e, l', w')" "log_in l" "lg_segments l \<noteq> []" "touches (dir_files (lg_dir l)) w0 w"
  shows "touches (dir_files (lg_dir l)) w0 w' \<and> log_in l' \<and> log_same l l' \<and> lg_segments l' \<noteq> []"
proof (cases "sg_nextOffset (last (lg_segments l)) = sg_baseOffset (last (lg_segments l))")
  case True
  then show ?thesis using assms by (auto simp: rollLocked_def)
next
  case False
  obtain e1 old w1 where sl: "Segment_Seal (last (lg_segments l)) w = (e1, old, w1)" using prod_cases3 by blast
  have c1: "touches (dir_files (lg_dir l)) w0 w1" "seg_in (lg_dir l) old"
    using Segment_Seal_conf [OF sl log_in_last [OF assms(2,3)] assms(4)] by simp_all
  let ?l = "set_active old l"
  have l: "log_in ?l" "lg_dir ?l = lg_dir l" using log_in_set_active [OF assms(2) c1(2)] by simp_all
  show ?thesis
  proof (cases e1)
    case (Some x)
    then show ?thesis using assms(1) False sl c1 l by (auto simp: rollLocked_def Let_def set_active_def)
  next
    case None
    obtain r w2 where os: "OpenSegment (segment_opts (lg_cfg ?l) (lg_dir ?l) (sg_nextOffset old)) w1 = (r, w2)" by fastforce
    have c2: "touches (dir_files (lg_dir l)) w0 w2" "\<forall>s. r = Inr s \<longrightarrow> seg_in (lg_dir l) s"
      using OpenSegment_conf [OF os, of w0] c1(1) l(2) by (simp_all add: segment_opts_def)
    show ?thesis
      using assms(1) False sl None os c2 l
      by (auto simp: rollLocked_def Let_def log_in_def set_active_def split: sum.splits)
  qed
qed

lemma append_loop_conf:
  assumes "append_loop i l bs w = (e, l', w')" "log_in l" "lg_segments l \<noteq> []" "touches (dir_files (lg_dir l)) w0 w"
  shows "touches (dir_files (lg_dir l)) w0 w' \<and> log_in l' \<and> log_same l l' \<and> lg_segments l' \<noteq> []"
  using assms
proof (induction bs arbitrary: i l w)
  case Nil
  then show ?case by auto
next
  case (Cons b bs)
  let ?b = "SetPartitionLeaderEpoch 0 (RewriteBaseOffset (sg_nextOffset (last (lg_segments l))) b)"
  obtain r a w1 where ap: "Segment_Append (last (lg_segments l)) ?b w = (r, a, w1)" using prod_cases3 by blast
  have c1: "touches (dir_files (lg_dir l)) w0 w1" "seg_in (lg_dir l) a"
    using Segment_Append_conf [OF ap log_in_last [OF Cons.prems(2,3)] Cons.prems(4)] by simp_all
  define l1 where "l1 = set_active a l"
  have l1: "log_in l1" "lg_dir l1 = lg_dir l" "lg_segments l1 \<noteq> []" "log_same l l1"
    using log_in_set_active [OF Cons.prems(2) c1(2)] by (auto simp: l1_def set_active_def)
  have rest: ?case if "append_loop (i + 1) l2 bs w2 = (e, l', w')" "log_in l2" "lg_segments l2 \<noteq> []"
      "touches (dir_files (lg_dir l)) w0 w2" "log_same l l2" for l2 w2
    using Cons.IH [OF that(1-3)] that(4) log_sameD [OF that(5)] log_same_trans [OF that(5)] by auto
  show ?case
  proof (cases r)
    case (Inl x)
    then show ?thesis using Cons.prems(1) ap c1 l1 by (auto simp: Let_def l1_def [symmetric])
  next
    case (Inr x)
    show ?thesis
    proof (cases "bs \<noteq> [] \<and> ShouldRoll a w1")
      case False
      then have "append_loop (i + 1) l1 bs w1 = (e, l', w')"
        using Cons.prems(1) ap Inr by (auto simp: Let_def l1_def)
      then show ?thesis using rest l1 c1 by blast
    next
      case True
      obtain e2 l2 w2 where ro: "rollLocked l1 w1 = (e2, l2, w2)" using prod_cases3 by blast
      have c2: "touches (dir_files (lg_dir l)) w0 w2" "log_in l2" "log_same l1 l2" "lg_segments l2 \<noteq> []"
        using rollLocked_conf [OF ro l1(1,3), of w0] c1(1) l1(2) by simp_all
      have sh: "log_same l l2" by (rule log_same_trans [OF l1(4) c2(3)])
      show ?thesis
      proof (cases e2)
        case None
        then have "append_loop (i + 1) l2 bs w2 = (e, l', w')"
          using Cons.prems(1) ap Inr True ro by (auto simp: Let_def l1_def)
        then show ?thesis using rest c2 sh by blast
      next
        case (Some y)
        then show ?thesis using Cons.prems(1) ap Inr True ro c2 sh by (auto simp: Let_def l1_def)
      qed
    qed
  qed
qed

lemma Log_Append_conf:
  assumes "Log_Append l bs w = (r, l', w')" "log_in l"
  shows "touches (dir_files (lg_dir l)) w w' \<and> log_in l' \<and> log_same l l'"
proof -
  show ?thesis
  proof (cases "lg_diskGuard l \<and> w_paused w \<or> bs = [] \<or> lg_segments l = []")
    case True
    then show ?thesis using assms by (auto simp: Log_Append_def activeSegment_def split: if_splits)
  next
    case False
    then have ne: "lg_segments l \<noteq> []" by simp
    obtain e1 l1 w1 where ro: "(if ShouldRoll (last (lg_segments l)) w then rollLocked l w else (None, l, w)) = (e1, l1, w1)"
      using prod_cases3 by blast
    have c1: "touches (dir_files (lg_dir l)) w w1" "log_in l1" "log_same l l1" "lg_segments l1 \<noteq> []"
      using ro rollLocked_conf [OF _ assms(2) ne touches_refl] assms(2) ne by (auto split: if_splits)
    have d1: "lg_dir l1 = lg_dir l" "lg_segments l1 \<noteq> []" using log_sameD [OF c1(3)] c1(4) by auto
    obtain e2 l2 w2 where ap: "append_loop 0 l1 bs w1 = (e2, l2, w2)" using prod_cases3 by blast
    have c2: "touches (dir_files (lg_dir l)) w w2" "log_in l2" "log_same l l2"
      using append_loop_conf [OF ap c1(2) d1(2), of w] c1 d1(1) log_same_trans [OF c1(3)] by auto
    obtain e3 w3 where sy: "Segment_Sync (last (lg_segments l2)) w2 = (e3, w3)" by fastforce
    have c3: "touches (dir_files (lg_dir l)) w w3" by (rule Segment_Sync_conf [OF sy c2(1)])
    have "(l' = l1 \<and> w' = w1) \<or> (l' = l2 \<and> (w' = w2 \<or> w' = w3))"
      using assms(1) False ne ro ap sy
      by (auto simp: Log_Append_def activeSegment_def Let_def simp del: append_loop.simps split: option.splits if_splits prod.splits)
    then show ?thesis using c1 c2 c3 by auto
  qed
qed

lemma FlushAndSync_conf: "FlushAndSync l w = (e, w') \<Longrightarrow> touches P w0 w \<Longrightarrow> touches P w0 w'"
  by (auto simp: FlushAndSync_def split: if_splits prod.splits intro: Segment_Sync_conf)

lemma close_all_conf: "close_all ss e w = (e', w') \<Longrightarrow> touches P w0 w \<Longrightarrow> touches P w0 w'"
  by (induction ss arbitrary: e w) (auto split: prod.splits dest: Segment_Close_conf)

lemma Log_Close_conf: "Log_Close l w = (e, l', w') \<Longrightarrow> touches P w0 w \<Longrightarrow> touches P w0 w' \<and> l' = l\<lparr>lg_segments := []\<rparr>"
  by (auto simp: Log_Close_def split: prod.splits dest: close_all_conf)

lemma open_segments_conf:
  "open_segments cfg d bases w = (r, w') \<Longrightarrow> touches (dir_files d) w0 w \<Longrightarrow>
   touches (dir_files d) w0 w' \<and> (\<forall>ss. r = Inr ss \<longrightarrow> (\<forall>s \<in> set ss. seg_in d s))"
proof (induction bases arbitrary: w r w')
  case (Cons x bases)
  obtain r1 w1 where os: "OpenSegment (segment_opts cfg d x) w = (r1, w1)" by fastforce
  have c1: "touches (dir_files d) w0 w1" "\<forall>s. r1 = Inr s \<longrightarrow> seg_in d s"
    using OpenSegment_conf [OF os, of w0] Cons.prems(2) by (simp_all add: segment_opts_def)
  obtain r2 w2 where rs: "open_segments cfg d bases w1 = (r2, w2)" by fastforce
  show ?case
    using Cons.prems(1) os rs c1 Cons.IH [OF rs c1(1)]
    by (auto simp: Let_def seg_in_def split: sum.splits if_splits)
qed auto

lemma OpenLog_conf:
  assumes "OpenLog cfg guard topic part w = (r, w')"
  shows "touches (dir_files (PartitionDir (cf_DataDir cfg) topic part)) w w' \<and>
    (\<forall>l. r = Inr l \<longrightarrow> log_in l \<and> lg_dir l = PartitionDir (cf_DataDir cfg) topic part \<and> lg_topic l = topic \<and> lg_partition l = part \<and>
       lg_segments l \<noteq> [])"
proof -
  define d where "d = PartitionDir (cf_DataDir cfg) topic part"
  obtain ok w1 where k1: "os_ctl w = (ok, w1)" by fastforce
  have c1: "touches (dir_files d) w w1" by (rule conf_ctl [OF k1 touches_refl])
  define l0 where "l0 = \<lparr>lg_dir = d, lg_topic = topic, lg_partition = part, lg_cfg = cfg, lg_segments = [], lg_logStart = 0,
    lg_diskGuard = guard\<rparr>"
  obtain r2 w2 where k2: "Log_recover l0 w1 = (r2, w2)" by fastforce
  have c2: "touches (dir_files d) w w2 \<and> (\<forall>l. r2 = Inr l \<longrightarrow> log_in l \<and> lg_dir l = d \<and> lg_topic l = topic \<and> lg_partition l = part)"
    using k2 c1 open_segments_conf [where d = d and cfg = cfg and ?w0.0 = w]
    by (fastforce simp: Log_recover_def Let_def l0_def log_in_def split: prod.splits bool.splits sum.splits intro: conf)
  obtain r3 w3 where k3: "OpenSegment (segment_opts cfg d 0) w2 = (r3, w3)" by fastforce
  have c3: "touches (dir_files d) w w3" "\<forall>s. r3 = Inr s \<longrightarrow> seg_in d s"
    using OpenSegment_conf [OF k3, of w] c2 by (simp_all add: segment_opts_def)
  show ?thesis
    using assms k1 k2 k3 c1 c2 c3 unfolding OpenLog_def Let_def d_def [symmetric] l0_def [symmetric]
    by (auto simp: log_in_def split: bool.splits sum.splits if_splits)
qed

text \<open>Reads change no file at all.\<close>

lemma find_loop_conf: "find_loop path n target header pos w = (r, w') \<Longrightarrow> touches P w0 w \<Longrightarrow> touches P w0 w'"
proof (induction path n target header pos w arbitrary: r rule: find_loop.induct)
  case (1 path n target header pos w)
  obtain x w1 where x: "os_read path pos v2HeaderSize w = (x, w1)" by fastforce
  have t: "touches P w0 w1" by (rule conf_read [OF x 1(3)])
  show ?case
    using 1(2,3) x t 1(1) [OF _ x [symmetric]]
    by (subst (asm) find_loop.simps) (auto simp: Let_def split: if_splits option.splits prod.splits)
qed

lemma FetchAt_conf:
  assumes "FetchAt l off mb w = (r, w')"
  shows "touches P w w'"
proof -
  have f: "touches P w w'" if "FindBatchAt s x v = (q, w')" "touches P w v" for s x v q w'
    using that by (auto simp: FindBatchAt_def Let_def split: option.splits prod.splits dest: find_loop_conf)
  have r: "touches P w w'" if "Segment_ReadAt s x n v = (q, w')" "touches P w v" for s x n v q w'
    using that by (auto simp: Segment_ReadAt_def Let_def split: if_splits option.splits prod.splits intro: conf)
  show ?thesis
    using assms unfolding FetchAt_def Let_def
    by (auto split: if_splits option.splits prod.splits sum.splits; blast intro: f r touches_refl)
qed

end
