(* ===== verification/Metrics.thy ===== *)
theory Metrics
  imports Complex_Main Kw_Prelude "HOL-Library.AList"
begin

text \<open>
  The counters and gauges the broker keeps (\<^verbatim>\<open>internal/metrics/prom.go\<close>). The collectors are Prometheus objects; a counter
  is taken as an integer, which a float64 represents exactly up to two to the 53, and a latency histogram as the list of what was
  observed.
\<close>

record Registry =
  me_connections :: int
  me_requestCount :: "(string \<times> int) list"
  me_requestErrors :: "(string \<times> int) list"
  me_requestLatency :: "(string \<times> int list) list"
  me_batchesAppended :: int
  me_produceFailed :: int
  me_fetchBytes :: int
  me_topicsCreated :: int
  me_s3Uploaded :: int
  me_s3UploadFailed :: int
  me_s3Restored :: int
  me_diskWritesPaused :: int
  me_diskFreeFraction :: rat

definition metrics_New :: Registry where
  "metrics_New = \<lparr>me_connections = 0, me_requestCount = [], me_requestErrors = [], me_requestLatency = [],
     me_batchesAppended = 0, me_produceFailed = 0, me_fetchBytes = 0, me_topicsCreated = 0, me_s3Uploaded = 0,
     me_s3UploadFailed = 0, me_s3Restored = 0, me_diskWritesPaused = 0, me_diskFreeFraction = 0\<rparr>"

definition SetDiskState :: "bool \<Rightarrow> rat \<Rightarrow> Registry \<Rightarrow> Registry" where
  "SetDiskState paused freeFraction r =
     (if paused then r\<lparr>me_diskWritesPaused := 1\<rparr> else r\<lparr>me_diskWritesPaused := 0\<rparr>)\<lparr>me_diskFreeFraction := freeFraction\<rparr>"

definition IncConnections :: "Registry \<Rightarrow> Registry" where
  "IncConnections r = r\<lparr>me_connections := me_connections r + 1\<rparr>"

definition DecConnections :: "Registry \<Rightarrow> Registry" where
  "DecConnections r = r\<lparr>me_connections := me_connections r - 1\<rparr>"

definition IncProduceSucceeded :: "int \<Rightarrow> Registry \<Rightarrow> Registry" where
  "IncProduceSucceeded batchCount r = r\<lparr>me_batchesAppended := me_batchesAppended r + batchCount\<rparr>"

definition IncProduceFailed :: "Registry \<Rightarrow> Registry" where
  "IncProduceFailed r = r\<lparr>me_produceFailed := me_produceFailed r + 1\<rparr>"

definition AddFetchBytes :: "int \<Rightarrow> Registry \<Rightarrow> Registry" where
  "AddFetchBytes n r = r\<lparr>me_fetchBytes := me_fetchBytes r + n\<rparr>"

definition IncTopicCreated :: "Registry \<Rightarrow> Registry" where
  "IncTopicCreated r = r\<lparr>me_topicsCreated := me_topicsCreated r + 1\<rparr>"

definition IncS3Uploaded :: "Registry \<Rightarrow> Registry" where
  "IncS3Uploaded r = r\<lparr>me_s3Uploaded := me_s3Uploaded r + 1\<rparr>"

definition IncS3UploadFailed :: "Registry \<Rightarrow> Registry" where
  "IncS3UploadFailed r = r\<lparr>me_s3UploadFailed := me_s3UploadFailed r + 1\<rparr>"

definition IncS3Restored :: "Registry \<Rightarrow> Registry" where
  "IncS3Restored r = r\<lparr>me_s3Restored := me_s3Restored r + 1\<rparr>"

definition apiKeyLabel :: "int \<Rightarrow> string" where
  "apiKeyLabel k =
     (case map_of [(0, ''Produce''), (1, ''Fetch''), (2, ''ListOffsets''), (3, ''Metadata''), (8, ''OffsetCommit''),
        (9, ''OffsetFetch''), (10, ''FindCoordinator''), (11, ''JoinGroup''), (12, ''Heartbeat''), (13, ''LeaveGroup''),
        (14, ''SyncGroup''), (15, ''DescribeGroups''), (16, ''ListGroups''), (17, ''SaslHandshake''), (18, ''ApiVersions''),
        (19, ''CreateTopics''), (20, ''DeleteTopics''), (32, ''DescribeConfigs''), (36, ''SaslAuthenticate'')] k of
        Some label \<Rightarrow> label
      | None \<Rightarrow> ''other'')"

definition counter_at :: "string \<Rightarrow> (string \<times> int) list \<Rightarrow> int" where
  "counter_at label cs = (case map_of cs label of Some n \<Rightarrow> n | None \<Rightarrow> 0)"

definition inc_label :: "string \<Rightarrow> (string \<times> int) list \<Rightarrow> (string \<times> int) list" where
  "inc_label label cs = AList.update label (counter_at label cs + 1) cs"

text \<open>The latency in nanoseconds.\<close>

definition ObserveRequest :: "int \<Rightarrow> int \<Rightarrow> bool \<Rightarrow> Registry \<Rightarrow> Registry" where
  "ObserveRequest apiKey latency failed r =
     (let label = apiKeyLabel apiKey;
          r = r\<lparr>me_requestCount := inc_label label (me_requestCount r)\<rparr>;
          r = (if failed then r\<lparr>me_requestErrors := inc_label label (me_requestErrors r)\<rparr> else r);
          seen = (case map_of (me_requestLatency r) label of Some xs \<Rightarrow> xs | None \<Rightarrow> [])
      in r\<lparr>me_requestLatency := AList.update label (seen @ [latency]) (me_requestLatency r)\<rparr>)"

lemma counter_inc_label:
  "counter_at l (inc_label label cs) = counter_at l cs + (if l = label then 1 else 0)"
  by (simp add: counter_at_def inc_label_def update_conv')

text \<open>For every label the errors never exceed the requests, and each request has one latency.\<close>

definition metrics_ok :: "Registry \<Rightarrow> bool" where
  "metrics_ok r \<longleftrightarrow> (\<forall>l. 0 \<le> counter_at l (me_requestErrors r) \<and>
     counter_at l (me_requestErrors r) \<le> counter_at l (me_requestCount r) \<and>
     counter_at l (me_requestCount r) = int (case map_of (me_requestLatency r) l of Some xs \<Rightarrow> length xs | None \<Rightarrow> 0))"

lemma metrics_New_ok: "metrics_ok metrics_New"
  by (simp add: metrics_ok_def metrics_New_def counter_at_def)

lemma ObserveRequest_ok:
  assumes "metrics_ok r"
  shows "metrics_ok (ObserveRequest k lat failed r)"
  unfolding metrics_ok_def
proof
  fix l
  note m = assms [unfolded metrics_ok_def, rule_format, of l]
  let ?r = "ObserveRequest k lat failed r" and ?e = "if l = apiKeyLabel k then 1 else 0 :: int"
  have "counter_at l (me_requestCount ?r) = counter_at l (me_requestCount r) + ?e"
    by (simp add: ObserveRequest_def Let_def counter_inc_label)
  moreover have "counter_at l (me_requestErrors ?r) = counter_at l (me_requestErrors r) + (if failed then ?e else 0)"
    by (simp add: ObserveRequest_def Let_def counter_inc_label)
  moreover have "int (case map_of (me_requestLatency ?r) l of Some xs \<Rightarrow> length xs | None \<Rightarrow> 0) =
      int (case map_of (me_requestLatency r) l of Some xs \<Rightarrow> length xs | None \<Rightarrow> 0) + ?e"
    by (auto simp: ObserveRequest_def Let_def update_conv' split: option.splits)
  ultimately show "0 \<le> counter_at l (me_requestErrors ?r) \<and> counter_at l (me_requestErrors ?r) \<le> counter_at l (me_requestCount ?r) \<and>
     counter_at l (me_requestCount ?r) = int (case map_of (me_requestLatency ?r) l of Some xs \<Rightarrow> length xs | None \<Rightarrow> 0)"
    using m by auto
qed

end
