(* ===== verification/Broker.thy ===== *)
theory Broker
  imports Group_Coordinator Restorer Log_Confine Metrics
begin

text \<open>
  The broker (\<^verbatim>\<open>internal/broker/broker.go\<close>, \<^verbatim>\<open>topic.go\<close>, \<^verbatim>\<open>metadata.go\<close>, \<^verbatim>\<open>fsutil.go\<close>): the registry of topics with their partition
  logs, the metadata files, start-up and shutdown, topic creation and deletion, and the append and fetch entry points with their
  tenant check. The state holds everything a broker owns together with the file system, the metadata files and the object store
  it acts on.
\<close>

section \<open>State\<close>

record TopicConfig =
  tc_NumPartitions :: int
  tc_ReplicationFactor :: int
  tc_RetentionMS :: int
  tc_RetentionBytes :: int
  tc_SegmentBytes :: int
  tc_OwnerTenantID :: string

record Topic =
  to_name :: string
  to_partitions :: "Log list"
  to_cfg :: TopicConfig

record BrokerConfig =
  bc_BrokerID :: int
  bc_ClusterID :: string
  bc_AdvertisedHost :: string
  bc_AdvertisedPort :: int
  bc_DataDir :: string
  bc_MaxRequestBytes :: int
  bc_AutoCreateTopics :: bool
  bc_DefaultPartitions :: int
  bc_DefaultRepFactor :: int

text \<open>
  \<open>bk_store\<close> is the configuration of the storage layer and \<open>bk_guard\<close> whether it has a disk guard. The offset store is part of the
  group coordinator, which shares it. \<open>bk_archive\<close> is the restorer with the manifest and the cache.
\<close>

record 's Broker =
  bk_cfg :: BrokerConfig
  bk_store :: Config
  bk_guard :: bool
  bk_metadata :: "string option"
  bk_topics :: "(string \<times> Topic) list"
  bk_groups :: "GroupCoordinator option"
  bk_metrics :: Registry
  bk_loaded :: bool
  bk_draining :: bool
  bk_archive :: "archive option"
  bk_acl :: "ACLStore option"
  bk_w :: world
  bk_docs :: docs
  bk_objects :: 's

datatype broker_err =
    TopicNameRequired
  | ErrTopicExists
  | ErrUnknownTopic
  | ErrUnknownPartition
  | ErrUnauthorizedTopic
  | BadName name_err
  | TooManyPartitions int
  | OpenPartition int log_err
  | StorageErr log_err
  | MetaMkdir
  | MetaRead string
  | MetaParse string
  | MetaWrite
  | RecoverErr string int log_err
  | OffsetsErr offset_err
  | AclErr acl_err
  | FlushErr string int log_err
  | CtxDone
  | ForgetArchive manifest_err
  | DropCache
  | RemoveDir
  | BkPanic

section \<open>Metadata files\<close>

record clusterMetadata =
  cl_ClusterID :: string
  cl_BrokerID :: int
  cl_Advertised :: string
  cl_Format :: int

abbreviation metadataFormat :: int where "metadataFormat \<equiv> 1"

definition enc_topic_config :: "TopicConfig \<Rightarrow> json" where
  "enc_topic_config c = JObj ([(''NumPartitions'', JNum (tc_NumPartitions c)), (''ReplicationFactor'', JNum (tc_ReplicationFactor c)),
     (''RetentionMS'', JNum (tc_RetentionMS c)), (''RetentionBytes'', JNum (tc_RetentionBytes c)),
     (''SegmentBytes'', JNum (tc_SegmentBytes c))] @
     (if tc_OwnerTenantID c = [] then [] else [(''owner_tenant_id'', JStr (tc_OwnerTenantID c))]))"

definition dec_topic_config :: "json \<Rightarrow> TopicConfig option" where
  "dec_topic_config j =
     (case fields_of j of
        None \<Rightarrow> None
      | Some fs \<Rightarrow>
          (case (dec_int_w 32 (jfield ''NumPartitions'' fs), dec_int_w 16 (jfield ''ReplicationFactor'' fs),
                 dec_int_w 64 (jfield ''RetentionMS'' fs), dec_int_w 64 (jfield ''RetentionBytes'' fs),
                 dec_int_w 64 (jfield ''SegmentBytes'' fs), dec_str (jfield ''owner_tenant_id'' fs)) of
             (Some a, Some b, Some c, Some d, Some e, Some f) \<Rightarrow>
               Some \<lparr>tc_NumPartitions = a, tc_ReplicationFactor = b, tc_RetentionMS = c, tc_RetentionBytes = d,
                 tc_SegmentBytes = e, tc_OwnerTenantID = f\<rparr>
           | _ \<Rightarrow> None))"

definition enc_topics :: "(string \<times> TopicConfig) list \<Rightarrow> json" where
  "enc_topics ts = JObj [(''format_version'', JNum metadataFormat), (''topics'', enc_map enc_topic_config ts)]"

definition dec_topics :: "json \<Rightarrow> (string \<times> TopicConfig) list option" where
  "dec_topics j =
     (case fields_of j of
        None \<Rightarrow> None
      | Some fs \<Rightarrow>
          (case dec_int_w 64 (jfield ''format_version'' fs) of
             None \<Rightarrow> None
           | Some _ \<Rightarrow> dec_map dec_topic_config (jfield ''topics'' fs)))"

definition enc_cluster :: "clusterMetadata \<Rightarrow> json" where
  "enc_cluster c = JObj [(''cluster_id'', JStr (cl_ClusterID c)), (''broker_id'', JNum (cl_BrokerID c)),
     (''advertised_listener'', JStr (cl_Advertised c)), (''format_version'', JNum (cl_Format c))]"

definition dec_cluster :: "json \<Rightarrow> clusterMetadata option" where
  "dec_cluster j =
     (case fields_of j of
        None \<Rightarrow> None
      | Some fs \<Rightarrow>
          (case (dec_str (jfield ''cluster_id'' fs), dec_int_w 32 (jfield ''broker_id'' fs),
                 dec_str (jfield ''advertised_listener'' fs), dec_int_w 64 (jfield ''format_version'' fs)) of
             (Some a, Some b, Some c, Some d) \<Rightarrow>
               Some \<lparr>cl_ClusterID = a, cl_BrokerID = b, cl_Advertised = c, cl_Format = d\<rparr>
           | _ \<Rightarrow> None))"

definition NewMetadataStore :: "string \<Rightarrow> docs \<Rightarrow> string option \<times> docs" where
  "NewMetadataStore dataDir d = (case MkdirAll d of (ok, d) \<Rightarrow> (if ok then Some (dataDir @ ''/metadata'') else None, d))"

definition LoadCluster :: "string \<Rightarrow> docs \<Rightarrow> (broker_err + clusterMetadata option) \<times> docs" where
  "LoadCluster dir d =
     (let path = dir @ ''/cluster.json'' in
      case ReadFile path d of
        (RdMissing, d) \<Rightarrow> (Inr None, d)
      | (RdError, d) \<Rightarrow> (Inl (MetaRead path), d)
      | (RdDoc (JsonDoc j), d) \<Rightarrow> (case dec_cluster j of None \<Rightarrow> (Inl (MetaParse path), d) | Some c \<Rightarrow> (Inr (Some c), d))
      | (RdDoc (NotJson _), d) \<Rightarrow> (Inl (MetaParse path), d))"

definition SaveCluster :: "string \<Rightarrow> clusterMetadata \<Rightarrow> docs \<Rightarrow> bool \<times> docs" where
  "SaveCluster dir c d = atomicWrite (dir @ ''/cluster.json'') (enc_cluster (c\<lparr>cl_Format := metadataFormat\<rparr>)) d"

definition LoadTopics :: "string \<Rightarrow> docs \<Rightarrow> (broker_err + (string \<times> TopicConfig) list) \<times> docs" where
  "LoadTopics dir d =
     (let path = dir @ ''/topics.json'' in
      case ReadFile path d of
        (RdMissing, d) \<Rightarrow> (Inr [], d)
      | (RdError, d) \<Rightarrow> (Inl (MetaRead path), d)
      | (RdDoc (JsonDoc j), d) \<Rightarrow> (case dec_topics j of None \<Rightarrow> (Inl (MetaParse path), d) | Some ts \<Rightarrow> (Inr ts, d))
      | (RdDoc (NotJson _), d) \<Rightarrow> (Inl (MetaParse path), d))"

definition SaveTopics :: "string \<Rightarrow> (string \<times> TopicConfig) list \<Rightarrow> docs \<Rightarrow> bool \<times> docs" where
  "SaveTopics dir topics d = atomicWrite (dir @ ''/topics.json'') (enc_topics topics) d"

section \<open>Topics and the registry\<close>

definition topic_NumPartitions :: "Topic \<Rightarrow> int" where
  "topic_NumPartitions t = i32 (int (length (to_partitions t)))"

definition topic_Partition :: "Topic \<Rightarrow> int \<Rightarrow> Log option" where
  "topic_Partition t idx =
     (if idx < 0 \<or> idx \<ge> int (length (to_partitions t)) then None else Some (to_partitions t ! nat idx))"

fun close_logs :: "Log list \<Rightarrow> log_err option \<Rightarrow> world \<Rightarrow> log_err option \<times> world" where
  "close_logs [] firstErr w = (firstErr, w)"
| "close_logs (l # ls) firstErr w =
     (case Log_Close l w of
        (e, _, w) \<Rightarrow> close_logs ls (case firstErr of Some _ \<Rightarrow> firstErr | None \<Rightarrow> e) w)"

definition topic_Close :: "Topic \<Rightarrow> world \<Rightarrow> log_err option \<times> Topic \<times> world" where
  "topic_Close t w = (case close_logs (to_partitions t) None w of (e, w) \<Rightarrow> (e, t\<lparr>to_partitions := []\<rparr>, w))"

definition put_topic :: "Topic \<Rightarrow> 's Broker \<Rightarrow> 's Broker" where
  "put_topic t b = b\<lparr>bk_topics := AList.update (to_name t) t (bk_topics b)\<rparr>"

definition registry_Get :: "'s Broker \<Rightarrow> string \<Rightarrow> Topic option" where
  "registry_Get b name = map_of (bk_topics b) name"

text \<open>The order of the registry is that of a Go map, which is unspecified; the model takes the order of insertion.\<close>

definition registry_All :: "'s Broker \<Rightarrow> Topic list" where
  "registry_All b = map snd (bk_topics b)"

definition AllLogs :: "'s Broker \<Rightarrow> Log list" where
  "AllLogs b = concat (map to_partitions (registry_All b))"

text \<open>The partitions from \<open>i\<close> on, \<open>n\<close> of them; on a failure the ones already open are closed.\<close>

fun open_partitions :: "Config \<Rightarrow> bool \<Rightarrow> string \<Rightarrow> int \<Rightarrow> nat \<Rightarrow> Log list \<Rightarrow> world \<Rightarrow> ((int \<times> log_err) + Log list) \<times> world" where
  "open_partitions cfg guard name i 0 parts w = (Inr parts, w)"
| "open_partitions cfg guard name i (Suc n) parts w =
     (case OpenLog cfg guard name i w of
        (Inl e, w) \<Rightarrow> (Inl (i, e), snd (close_logs parts None w))
      | (Inr l, w) \<Rightarrow> open_partitions cfg guard name (i + 1) n (parts @ [l]) w)"

definition registry_Create :: "string \<Rightarrow> TopicConfig \<Rightarrow> 's Broker \<Rightarrow> (broker_err + Topic) \<times> 's Broker" where
  "registry_Create name cfg b =
     (if name = [] then (Inl TopicNameRequired, b)
      else
        let cfg = (if tc_NumPartitions cfg \<le> 0 then cfg\<lparr>tc_NumPartitions := 1\<rparr> else cfg);
            cfg = (if tc_ReplicationFactor cfg \<le> 0 then cfg\<lparr>tc_ReplicationFactor := 1\<rparr> else cfg) in
        if registry_Get b name \<noteq> None then (Inl ErrTopicExists, b)
        else case open_partitions (bk_store b) (bk_guard b) name 0 (nat (tc_NumPartitions cfg)) [] (bk_w b) of
          (Inl (i, e), w) \<Rightarrow> (Inl (if e = LogPanic then BkPanic else OpenPartition i e), b\<lparr>bk_w := w\<rparr>)
        | (Inr parts, w) \<Rightarrow>
            let t = \<lparr>to_name = name, to_partitions = parts, to_cfg = cfg\<rparr> in (Inr t, put_topic t (b\<lparr>bk_w := w\<rparr>)))"

definition Adopt :: "string \<Rightarrow> Log list \<Rightarrow> TopicConfig \<Rightarrow> 's Broker \<Rightarrow> 's Broker" where
  "Adopt name parts cfg b = put_topic \<lparr>to_name = name, to_partitions = parts, to_cfg = cfg\<rparr> b"

definition registry_Delete :: "string \<Rightarrow> 's Broker \<Rightarrow> broker_err option \<times> 's Broker" where
  "registry_Delete name b =
     (case registry_Get b name of
        None \<Rightarrow> (Some ErrUnknownTopic, b)
      | Some t \<Rightarrow>
          (case topic_Close t (bk_w b) of
             (Some e, t, w) \<Rightarrow> (Some (StorageErr e), put_topic t (b\<lparr>bk_w := w\<rparr>))
           | (None, t, w) \<Rightarrow> (None, b\<lparr>bk_w := w, bk_topics := AList.delete name (bk_topics b)\<rparr>)))"

section \<open>Start-up\<close>

definition broker_New :: "BrokerConfig \<Rightarrow> Config \<Rightarrow> bool \<Rightarrow> world \<Rightarrow> docs \<Rightarrow> 's \<Rightarrow> 's Broker" where
  "broker_New cfg scfg guard w d s =
     (let cfg = (if bc_DefaultPartitions cfg \<le> 0 then cfg\<lparr>bc_DefaultPartitions := 1\<rparr> else cfg);
          cfg = (if bc_DefaultRepFactor cfg \<le> 0 then cfg\<lparr>bc_DefaultRepFactor := 1\<rparr> else cfg);
          cfg = (if bc_MaxRequestBytes cfg \<le> 0 then cfg\<lparr>bc_MaxRequestBytes := 4 * 1024 * 1024\<rparr> else cfg) in
      \<lparr>bk_cfg = cfg\<lparr>bc_AutoCreateTopics := True\<rparr>, bk_store = scfg, bk_guard = guard, bk_metadata = None, bk_topics = [],
       bk_groups = None, bk_metrics = metrics_New, bk_loaded = False, bk_draining = False, bk_archive = None, bk_acl = None,
       bk_w = w, bk_docs = d, bk_objects = s\<rparr>)"

definition AttachRestorer :: "archive \<Rightarrow> 's Broker \<Rightarrow> 's Broker" where
  "AttachRestorer a b = b\<lparr>bk_archive := Some a\<rparr>"

text \<open>
  \<^verbatim>\<open>fmt.Sscanf(name, "%d", &idx)\<close>: leading blanks, an optional sign, at least one digit; what follows the digits is ignored.
  File names are taken to be ASCII.
\<close>

definition is_space :: "char \<Rightarrow> bool" where
  "is_space c \<longleftrightarrow> c = CHR '' '' \<or> c = CHR 0x09 \<or> c = CHR 0x0B \<or> c = CHR 0x0C \<or> c = CHR 0x0D"

fun skip_space :: "string \<Rightarrow> string option" where
  "skip_space [] = Some []"
| "skip_space (c # cs) = (if c = CHR 0x0A then None else if is_space c then skip_space cs else Some (c # cs))"

definition scan_int32 :: "string \<Rightarrow> int option" where
  "scan_int32 s =
     (case skip_space s of
        None \<Rightarrow> None
      | Some s \<Rightarrow>
          let neg = (s \<noteq> [] \<and> hd s = CHR ''-'');
              digits = takeWhile is_digit (if s \<noteq> [] \<and> (hd s = CHR ''-'' \<or> hd s = CHR ''+'') then tl s else s);
              v = (if neg then - int (parse_dec digits) else int (parse_dec digits)) in
          if digits = [] then None else if i32 v = v then Some v else None)"

text \<open>\<open>entries\<close> is what \<^verbatim>\<open>readDirSafe\<close> lists in the topic's directory: names, with whether they are directories.\<close>

fun open_found :: "Config \<Rightarrow> bool \<Rightarrow> string \<Rightarrow> (string \<times> bool) list \<Rightarrow> Log list \<Rightarrow> world \<Rightarrow> ((int \<times> log_err) + Log list) \<times> world" where
  "open_found cfg guard name [] parts w = (Inr parts, w)"
| "open_found cfg guard name ((entry, isDir) # entries) parts w =
     (if \<not> isDir then open_found cfg guard name entries parts w
      else case scan_int32 entry of
        None \<Rightarrow> open_found cfg guard name entries parts w
      | Some idx \<Rightarrow>
          (case OpenLog cfg guard name idx w of
             (Inl e, w) \<Rightarrow> (Inl (idx, e), w)
           | (Inr l, w) \<Rightarrow> open_found cfg guard name entries (parts @ [l]) w))"

definition default_topic :: "'s Broker \<Rightarrow> int \<Rightarrow> string \<Rightarrow> TopicConfig" where
  "default_topic b partitions tenantID =
     \<lparr>tc_NumPartitions = partitions, tc_ReplicationFactor = bc_DefaultRepFactor (bk_cfg b), tc_RetentionMS = - 1,
      tc_RetentionBytes = - 1, tc_SegmentBytes = cf_SegmentBytes (bk_store b), tc_OwnerTenantID = tenantID\<rparr>"

text \<open>
  The scan of the topics directory. \<open>list_dir name\<close> is the listing of a topic's directory, \<open>None\<close> if it could not be read. The
  order \<^verbatim>\<open>sort.Slice\<close> gives two logs of the same index is not specified; the model keeps the order of the listing.
\<close>

fun recover_topics :: "(string \<Rightarrow> (string \<times> bool) list option) \<Rightarrow> (string \<times> TopicConfig) list \<Rightarrow> (string \<times> bool) list \<Rightarrow>
    's Broker \<Rightarrow> broker_err option \<times> 's Broker" where
  "recover_topics list_dir persisted [] b = (None, b)"
| "recover_topics list_dir persisted ((name, isDir) # entries) b =
     (if \<not> isDir then recover_topics list_dir persisted entries b
      else
        let tcfg = (case map_of persisted name of
              Some c \<Rightarrow> c | None \<Rightarrow> default_topic b (bc_DefaultPartitions (bk_cfg b)) []) in
        (case list_dir name of
           None \<Rightarrow> recover_topics list_dir persisted entries b
         | Some pents \<Rightarrow>
             (case open_found (bk_store b) (bk_guard b) name pents [] (bk_w b) of
                (Inl (idx, e), w) \<Rightarrow> (Some (RecoverErr name idx e), b\<lparr>bk_w := w\<rparr>)
              | (Inr parts, w) \<Rightarrow>
                  let parts = sort_key lg_partition parts;
                      n = i32 (int (length parts));
                      tcfg = (if n \<noteq> tc_NumPartitions tcfg \<and> tc_NumPartitions tcfg = 0 then tcfg\<lparr>tc_NumPartitions := n\<rparr> else tcfg)
                  in recover_topics list_dir persisted entries (Adopt name parts tcfg (b\<lparr>bk_w := w\<rparr>)))))"

definition load_identity :: "string \<Rightarrow> 's Broker \<Rightarrow> broker_err option \<times> 's Broker" where
  "load_identity dir b =
     (case LoadCluster dir (bk_docs b) of
        (Inl e, d) \<Rightarrow> (Some e, b\<lparr>bk_docs := d\<rparr>)
      | (Inr None, d) \<Rightarrow>
          (None, b\<lparr>bk_docs := snd (SaveCluster dir \<lparr>cl_ClusterID = bc_ClusterID (bk_cfg b), cl_BrokerID = bc_BrokerID (bk_cfg b),
             cl_Advertised = bc_AdvertisedHost (bk_cfg b) @ '':'' @ dec_int (bc_AdvertisedPort (bk_cfg b)), cl_Format = 0\<rparr> d)\<rparr>)
      | (Inr (Some c), d) \<Rightarrow>
          (None, (if cl_ClusterID c \<noteq> [] then b\<lparr>bk_cfg := (bk_cfg b)\<lparr>bc_ClusterID := cl_ClusterID c\<rparr>\<rparr> else b)\<lparr>bk_docs := d\<rparr>))"

definition load_stores :: "'s Broker \<Rightarrow> broker_err option \<times> 's Broker" where
  "load_stores b =
     (case NewOffsetStore (bc_DataDir (bk_cfg b)) (bk_docs b) of
        (Inl e, d) \<Rightarrow> (Some (OffsetsErr e), b\<lparr>bk_docs := d\<rparr>)
      | (Inr store, d) \<Rightarrow>
          let b = b\<lparr>bk_groups := Some (NewGroupCoordinator store), bk_docs := d\<rparr> in
          (case NewACLStore (bc_DataDir (bk_cfg b)) d of
             (Inl e, d) \<Rightarrow> (Some (AclErr e), b\<lparr>bk_docs := d\<rparr>)
           | (Inr acl, d) \<Rightarrow> (None, b\<lparr>bk_acl := Some acl, bk_docs := d, bk_loaded := True\<rparr>)))"

text \<open>\<open>entries\<close> is the listing of the topics directory; a directory that cannot be read is skipped without an error.\<close>

definition LoadState :: "(string \<times> bool) list option \<Rightarrow> (string \<Rightarrow> (string \<times> bool) list option) \<Rightarrow> 's Broker \<Rightarrow>
    broker_err option \<times> 's Broker" where
  "LoadState entries list_dir b =
     (if bk_loaded b then (None, b)
      else case NewMetadataStore (bc_DataDir (bk_cfg b)) (bk_docs b) of
        (None, d) \<Rightarrow> (Some MetaMkdir, b\<lparr>bk_docs := d\<rparr>)
      | (Some dir, d) \<Rightarrow>
          (case load_identity dir (b\<lparr>bk_metadata := Some dir, bk_docs := d\<rparr>) of
             (Some e, b) \<Rightarrow> (Some e, b)
           | (None, b) \<Rightarrow>
               (case LoadTopics dir (bk_docs b) of
                  (Inl e, d) \<Rightarrow> (Some e, b\<lparr>bk_docs := d\<rparr>)
                | (Inr persisted, d) \<Rightarrow>
                    (case (case entries of
                             None \<Rightarrow> (None, b\<lparr>bk_docs := d\<rparr>)
                           | Some es \<Rightarrow> recover_topics list_dir persisted es (b\<lparr>bk_docs := d\<rparr>)) of
                       (Some e, b) \<Rightarrow> (Some e, b)
                     | (None, b) \<Rightarrow> load_stores b))))"

section \<open>Shutdown\<close>

text \<open>\<open>ctx k\<close> says whether the context is done when the \<open>k\<close>-th log is about to be flushed.\<close>

fun flush_logs :: "(nat \<Rightarrow> bool) \<Rightarrow> nat \<Rightarrow> (string \<times> Log) list \<Rightarrow> world \<Rightarrow> broker_err option \<times> world" where
  "flush_logs ctx k [] w = (None, w)"
| "flush_logs ctx k ((name, l) # ls) w =
     (if ctx k then (Some CtxDone, w)
      else case FlushAndSync l w of
        (Some e, w) \<Rightarrow> (Some (FlushErr name (lg_partition l) e), w)
      | (None, w) \<Rightarrow> flush_logs ctx (k + 1) ls w)"

fun close_topics :: "(string \<times> Topic) list \<Rightarrow> world \<Rightarrow> (string \<times> Topic) list \<times> world" where
  "close_topics [] w = ([], w)"
| "close_topics ((name, t) # ts) w =
     (case topic_Close t w of (_, t, w) \<Rightarrow> (case close_topics ts w of (ts, w) \<Rightarrow> ((name, t) # ts, w)))"

definition Drain :: "(nat \<Rightarrow> bool) \<Rightarrow> 's Broker \<Rightarrow> broker_err option \<times> 's Broker" where
  "Drain ctx b =
     (if bk_draining b then (None, b)
      else
        let b = b\<lparr>bk_draining := True\<rparr> in
        (case flush_logs ctx 0 (concat (map (\<lambda>t. map (Pair (to_name t)) (to_partitions t)) (registry_All b))) (bk_w b) of
           (Some e, w) \<Rightarrow> (Some e, b\<lparr>bk_w := w\<rparr>)
         | (None, w) \<Rightarrow> (case close_topics (bk_topics b) w of (ts, w) \<Rightarrow> (None, b\<lparr>bk_topics := ts, bk_w := w\<rparr>))))"

definition SetAutoCreateTopics :: "bool \<Rightarrow> 's Broker \<Rightarrow> 's Broker" where
  "SetAutoCreateTopics v b = b\<lparr>bk_cfg := (bk_cfg b)\<lparr>bc_AutoCreateTopics := v\<rparr>\<rparr>"

section \<open>Topic operations\<close>

definition persistTopicsLocked :: "'s Broker \<Rightarrow> broker_err option \<times> 's Broker" where
  "persistTopicsLocked b =
     (case bk_metadata b of
        None \<Rightarrow> (Some BkPanic, b)
      | Some dir \<Rightarrow>
          (case SaveTopics dir (map (\<lambda>(_, t). (to_name t, to_cfg t)) (bk_topics b)) (bk_docs b) of
             (ok, d) \<Rightarrow> (if ok then None else Some MetaWrite, b\<lparr>bk_docs := d\<rparr>)))"

definition EnsureTopicForTenant :: "string \<Rightarrow> int \<Rightarrow> string \<Rightarrow> 's Broker \<Rightarrow> (broker_err + Topic) \<times> 's Broker" where
  "EnsureTopicForTenant name partitions tenantID b =
     (case registry_Get b name of
        Some t \<Rightarrow> (Inr t, b)
      | None \<Rightarrow>
          if \<not> bc_AutoCreateTopics (bk_cfg b) then (Inl ErrUnknownTopic, b)
          else
            let partitions = (if partitions \<le> 0 then bc_DefaultPartitions (bk_cfg b) else partitions) in
            (case registry_Create name (default_topic b partitions tenantID) b of
               (Inl e, b) \<Rightarrow> (Inl e, b)
             | (Inr t, b) \<Rightarrow>
                 (case persistTopicsLocked b of
                    (Some e, b) \<Rightarrow> (Inl e, b)
                  | (None, b) \<Rightarrow> (Inr t, b\<lparr>bk_metrics := IncTopicCreated (bk_metrics b)\<rparr>))))"

definition EnsureTopic :: "string \<Rightarrow> int \<Rightarrow> 's Broker \<Rightarrow> (broker_err + Topic) \<times> 's Broker" where
  "EnsureTopic name partitions b = EnsureTopicForTenant name partitions [] b"

definition CreateTopic :: "string \<Rightarrow> int \<Rightarrow> int \<Rightarrow> 's Broker \<Rightarrow> (broker_err + Topic) \<times> 's Broker" where
  "CreateTopic name partitions replicationFactor b =
     (case ValidateName name of
        Some e \<Rightarrow> (Inl (BadName e), b)
      | None \<Rightarrow>
          if partitions > MaxPartitionsPerTopic then (Inl (TooManyPartitions partitions), b)
          else case registry_Create name ((default_topic b partitions [])\<lparr>tc_ReplicationFactor := replicationFactor\<rparr>) b of
            (Inl e, b) \<Rightarrow> (Inl e, b)
          | (Inr t, b) \<Rightarrow> (case persistTopicsLocked b of (Some e, b) \<Rightarrow> (Inl e, b) | (None, b) \<Rightarrow> (Inr t, b)))"

text \<open>The directory of all topics, and \<^verbatim>\<open>removeAllSafe\<close>: removing what is not there succeeds.\<close>

definition TopicsDir :: "Config \<Rightarrow> string" where
  "TopicsDir cfg = path_join (cf_DataDir cfg) ''topics''"

definition removeAllSafe :: "string \<Rightarrow> world \<Rightarrow> bool \<times> world" where
  "removeAllSafe dir w = remove_dirs [dir] w"

definition forget_archive :: "string \<Rightarrow> 's Broker \<Rightarrow> broker_err list \<times> 's Broker" where
  "forget_archive name b =
     (case bk_archive b of
        None \<Rightarrow> ([], b)
      | Some a \<Rightarrow>
          (case ForgetTopic name (ac_manifest a) (bk_docs b) of
             (e, m, d) \<Rightarrow>
               let b = b\<lparr>bk_archive := Some (a\<lparr>ac_manifest := m\<rparr>), bk_docs := d\<rparr> in
               if e = Some MfPanic then ([BkPanic], b)
               else (case DropTopic (ac_cache a) name (bk_w b) of
                  (ok, w) \<Rightarrow>
                    ((case e of None \<Rightarrow> [] | Some e \<Rightarrow> [ForgetArchive e]) @ (if ok then [] else [DropCache]), b\<lparr>bk_w := w\<rparr>))))"

definition DeleteTopic :: "string \<Rightarrow> 's Broker \<Rightarrow> broker_err list \<times> 's Broker" where
  "DeleteTopic name b =
     (case ValidateName name of
        Some e \<Rightarrow> ([BadName e], b)
      | None \<Rightarrow>
          (case registry_Delete name b of
             (Some e, b) \<Rightarrow> ([e], b)
           | (None, b) \<Rightarrow>
               (case persistTopicsLocked b of
                  (Some e, b) \<Rightarrow> ([e], b)
                | (None, b) \<Rightarrow>
                    (case forget_archive name b of
                       (errs, b) \<Rightarrow>
                         if BkPanic \<in> set errs then (errs, b)
                         else (case removeAllSafe (path_join (TopicsDir (bk_store b)) name) (bk_w b) of
                            (ok, w) \<Rightarrow> (errs @ (if ok then [] else [RemoveDir]), b\<lparr>bk_w := w\<rparr>))))))"

definition TenantOfTopic :: "'s Broker \<Rightarrow> string \<Rightarrow> string" where
  "TenantOfTopic b topic = (case registry_Get b topic of None \<Rightarrow> [] | Some t \<Rightarrow> tc_OwnerTenantID (to_cfg t))"

section \<open>Produce and fetch\<close>

definition verifyTopicTenant :: "Topic \<Rightarrow> string \<Rightarrow> broker_err option" where
  "verifyTopicTenant t principalTenant =
     (if principalTenant = [] then None
      else
        let tenantOwner = tc_OwnerTenantID (to_cfg t) in
        if tenantOwner = [] then Some ErrUnauthorizedTopic
        else if tenantOwner \<noteq> principalTenant then Some ErrUnauthorizedTopic
        else None)"

definition put_log :: "string \<Rightarrow> int \<Rightarrow> Log \<Rightarrow> 's Broker \<Rightarrow> 's Broker" where
  "put_log topic part l b =
     (case registry_Get b topic of
        None \<Rightarrow> b
      | Some t \<Rightarrow> put_topic (t\<lparr>to_partitions := (to_partitions t)[nat part := l]\<rparr>) b)"

definition AppendBatchesAuthorized :: "string \<Rightarrow> int \<Rightarrow> bytes list \<Rightarrow> string \<Rightarrow> 's Broker \<Rightarrow> (broker_err + int) \<times> 's Broker" where
  "AppendBatchesAuthorized topic part batches principalTenant b =
     (case (case registry_Get b topic of
              Some t \<Rightarrow> (Inr t, b)
            | None \<Rightarrow> EnsureTopicForTenant topic (bc_DefaultPartitions (bk_cfg b)) principalTenant b) of
        (Inl e, b) \<Rightarrow> (Inl e, b)
      | (Inr t, b) \<Rightarrow>
          (case verifyTopicTenant t principalTenant of
             Some e \<Rightarrow> (Inl e, b)
           | None \<Rightarrow>
               (case topic_Partition t part of
                  None \<Rightarrow> (Inl ErrUnknownPartition, b)
                | Some l \<Rightarrow>
                    (case Log_Append l batches (bk_w b) of
                       (Inl e, l, w) \<Rightarrow>
                         let b = put_log topic part l (b\<lparr>bk_w := w\<rparr>) in
                         (Inl (StorageErr e), if e = LogPanic then b else b\<lparr>bk_metrics := IncProduceFailed (bk_metrics b)\<rparr>)
                     | (Inr off, l, w) \<Rightarrow>
                         let b = put_log topic part l (b\<lparr>bk_w := w\<rparr>) in
                         (Inr off, b\<lparr>bk_metrics := IncProduceSucceeded (int (length batches)) (bk_metrics b)\<rparr>)))))"

definition AppendBatches :: "string \<Rightarrow> int \<Rightarrow> bytes list \<Rightarrow> 's Broker \<Rightarrow> (broker_err + int) \<times> 's Broker" where
  "AppendBatches topic part batches b = AppendBatchesAuthorized topic part batches [] b"

text \<open>
  The result is the bytes with their first offset or the error, the high watermark and the start of the log. \<open>env\<close> decides what
  the object store does in the attempts to restore an archived segment.
\<close>

definition fetchInternal :: "'s store_ops \<Rightarrow> attempt \<times> attempt \<times> attempt \<Rightarrow> string \<Rightarrow> int \<Rightarrow> int \<Rightarrow> int \<Rightarrow> string \<Rightarrow> 's Broker \<Rightarrow>
    ((broker_err + bytes \<times> int) \<times> int \<times> int) \<times> 's Broker" where
  "fetchInternal ops env topic part fetchOffset maxBytes principalTenant b =
     (case registry_Get b topic of
        None \<Rightarrow> ((Inl ErrUnknownTopic, 0, 0), b)
      | Some t \<Rightarrow>
          (case topic_Partition t part of
             None \<Rightarrow> ((Inl ErrUnknownPartition, 0, 0), b)
           | Some l \<Rightarrow>
               let hwm = HighWatermark l; logStart = LogStartOffset l in
               (case FetchAt l fetchOffset maxBytes (bk_w b) of
                  (Inr r, w) \<Rightarrow> ((Inr r, hwm, logStart), b\<lparr>bk_w := w\<rparr>)
                | (Inl e, w) \<Rightarrow>
                    let b = b\<lparr>bk_w := w\<rparr> in
                    if e = LogOffsetOutOfRange \<and> bk_archive b \<noteq> None then
                      (case fetchFromArchive ops (bk_archive b) topic part fetchOffset maxBytes principalTenant env (bk_objects b) (bk_w b) of
                         (r, s, w) \<Rightarrow>
                           let b = b\<lparr>bk_objects := s, bk_w := w\<rparr> in
                           (case r of
                              Inr r \<Rightarrow> ((Inr r, hwm, logStart), b)
                            | Inl ArUnauthorized \<Rightarrow> ((Inl ErrUnauthorizedTopic, hwm, logStart), b)
                            | Inl ArPanic \<Rightarrow> ((Inl BkPanic, hwm, logStart), b)
                            | Inl _ \<Rightarrow> ((Inl (StorageErr e), hwm, logStart), b)))
                    else ((Inl (StorageErr e), hwm, logStart), b))))"

definition FetchAuthorized :: "'s store_ops \<Rightarrow> attempt \<times> attempt \<times> attempt \<Rightarrow> string \<Rightarrow> int \<Rightarrow> int \<Rightarrow> int \<Rightarrow> string \<Rightarrow> 's Broker \<Rightarrow>
    ((broker_err + bytes \<times> int) \<times> int \<times> int) \<times> 's Broker" where
  "FetchAuthorized ops env topic part fetchOffset maxBytes principalTenant b =
     (case registry_Get b topic of
        None \<Rightarrow> ((Inl ErrUnknownTopic, 0, 0), b)
      | Some t \<Rightarrow>
          (case verifyTopicTenant t principalTenant of
             Some e \<Rightarrow> ((Inl e, 0, 0), b)
           | None \<Rightarrow> fetchInternal ops env topic part fetchOffset maxBytes principalTenant b))"

definition Fetch :: "'s store_ops \<Rightarrow> attempt \<times> attempt \<times> attempt \<Rightarrow> string \<Rightarrow> int \<Rightarrow> int \<Rightarrow> int \<Rightarrow> 's Broker \<Rightarrow>
    ((broker_err + bytes \<times> int) \<times> int \<times> int) \<times> 's Broker" where
  "Fetch ops env topic part fetchOffset maxBytes b = fetchInternal ops env topic part fetchOffset maxBytes [] b"

definition ListOffsets :: "string \<Rightarrow> int \<Rightarrow> int \<Rightarrow> 's Broker \<Rightarrow> broker_err + int \<times> int" where
  "ListOffsets topic part timestamp b =
     (case registry_Get b topic of
        None \<Rightarrow> Inl ErrUnknownTopic
      | Some t \<Rightarrow>
          (case topic_Partition t part of
             None \<Rightarrow> Inl ErrUnknownPartition
           | Some l \<Rightarrow>
               if timestamp = - 2 then Inr (EarliestOffset l, - 1)
               else if timestamp = - 1 then Inr (LatestOffset l, - 1)
               else (case Log_LookupOffsetByTimestamp l timestamp of
                  Inl e \<Rightarrow> Inl BkPanic
                | Inr (off, ok) \<Rightarrow> Inr (if \<not> ok then (- 1, - 1) else (off, timestamp)))))"

section \<open>Sequences of operations\<close>

datatype broker_op =
    OpCreate string int int
  | OpEnsure string int
  | OpDelete string
  | OpAppend string int "bytes list" string
  | OpFetch "attempt \<times> attempt \<times> attempt" string int int int string

fun apply_op :: "'s store_ops \<Rightarrow> broker_op \<Rightarrow> 's Broker \<Rightarrow> 's Broker" where
  "apply_op ops (OpCreate name n rf) b = snd (CreateTopic name n rf b)"
| "apply_op ops (OpEnsure name n) b = snd (EnsureTopic name n b)"
| "apply_op ops (OpDelete name) b = snd (DeleteTopic name b)"
| "apply_op ops (OpAppend topic part batches tenant) b = snd (AppendBatchesAuthorized topic part batches tenant b)"
| "apply_op ops (OpFetch env topic part off n tenant) b = snd (FetchAuthorized ops env topic part off n tenant b)"

definition run_ops :: "'s store_ops \<Rightarrow> broker_op list \<Rightarrow> 's Broker \<Rightarrow> 's Broker" where
  "run_ops ops xs b = fold (apply_op ops) xs b"

end
