(* ===== verification/Broker_Isolation.thy ===== *)
theory Broker_Isolation
  imports Broker
begin

text \<open>
  Invariants of the broker: the shape of its registry, which every operation keeps whatever fails, and the isolation of tenants from
  each other.
\<close>

section \<open>The shape of the registry\<close>

text \<open>
  Every topic is registered under its own name, and the \<open>i\<close>-th log of a topic is the open log of partition \<open>i\<close> in the directory of
  that partition.
\<close>

definition topic_wf :: "Config \<Rightarrow> string \<Rightarrow> Topic \<Rightarrow> bool" where
  "topic_wf cfg name t \<longleftrightarrow> to_name t = name \<and>
     (\<forall>i < length (to_partitions t).
        let l = to_partitions t ! i in
        lg_topic l = name \<and> lg_partition l = int i \<and> lg_dir l = PartitionDir (cf_DataDir cfg) name (int i) \<and> log_in l)"

definition broker_wf :: "'s Broker \<Rightarrow> bool" where
  "broker_wf b \<longleftrightarrow> distinct (map fst (bk_topics b)) \<and> (\<forall>(name, t) \<in> set (bk_topics b). topic_wf (bk_store b) name t)"

lemma broker_wfD: "broker_wf b \<Longrightarrow> registry_Get b name = Some t \<Longrightarrow> topic_wf (bk_store b) name t"
  by (auto simp: broker_wf_def registry_Get_def dest: map_of_SomeD)

lemma broker_wf_put: "broker_wf b \<Longrightarrow> topic_wf (bk_store b) (to_name t) t \<Longrightarrow> broker_wf (put_topic t b)"
  using set_update_subset [of "to_name t" t "bk_topics b"]
  by (auto simp: broker_wf_def put_topic_def intro: distinct_update)

lemma broker_wf_delete: "broker_wf b \<Longrightarrow> broker_wf (b\<lparr>bk_topics := AList.delete name (bk_topics b)\<rparr>)"
  by (auto simp: broker_wf_def AList.delete_eq distinct_map inj_on_def)

lemma broker_wf_cong: "bk_topics b' = bk_topics b \<Longrightarrow> bk_store b' = bk_store b \<Longrightarrow> broker_wf b' = broker_wf b"
  by (simp add: broker_wf_def)

text \<open>The part of the state an operation on logs leaves alone.\<close>

lemma Get_put_topic: "registry_Get (put_topic t b) name = (if name = to_name t then Some t else registry_Get b name)"
  by (simp add: registry_Get_def put_topic_def update_conv')

lemma put_topic_sel [simp]: "bk_store (put_topic t b) = bk_store b" "bk_w (put_topic t b) = bk_w b" "bk_cfg (put_topic t b) = bk_cfg b"
  "bk_guard (put_topic t b) = bk_guard b" "bk_archive (put_topic t b) = bk_archive b" "bk_metadata (put_topic t b) = bk_metadata b"
  "bk_docs (put_topic t b) = bk_docs b"
  by (simp_all add: put_topic_def)

lemma put_log_sel [simp]: "bk_store (put_log n i l b) = bk_store b" "bk_w (put_log n i l b) = bk_w b" "bk_cfg (put_log n i l b) = bk_cfg b"
  "bk_archive (put_log n i l b) = bk_archive b" "bk_metadata (put_log n i l b) = bk_metadata b" "bk_guard (put_log n i l b) = bk_guard b"
  "bk_docs (put_log n i l b) = bk_docs b"
  by (simp_all add: put_log_def split: option.splits)

lemma close_logs_conf: "close_logs ls e w = (e', w') \<Longrightarrow> touches P w0 w \<Longrightarrow> touches P w0 w'"
  by (induction ls arbitrary: e w) (auto split: prod.splits dest: Log_Close_conf)

lemma snd_close_logs_conf: "touches P w0 w \<Longrightarrow> touches P w0 (snd (close_logs ls e w))"
  by (metis close_logs_conf prod.collapse)

text \<open>All files of a topic's partition directories.\<close>

definition topic_files :: "Config \<Rightarrow> string \<Rightarrow> string set" where
  "topic_files cfg name = (\<Union>i. dir_files (PartitionDir (cf_DataDir cfg) name i))"

lemma dir_in_topic: "dir_files (PartitionDir (cf_DataDir cfg) name i) \<subseteq> topic_files cfg name"
  by (auto simp: topic_files_def)

definition part_ok :: "Config \<Rightarrow> string \<Rightarrow> int \<Rightarrow> Log \<Rightarrow> bool" where
  "part_ok cfg name i l \<longleftrightarrow> lg_topic l = name \<and> lg_partition l = i \<and> lg_dir l = PartitionDir (cf_DataDir cfg) name i \<and> log_in l"

lemma topic_wf_alt:
  "topic_wf cfg name t \<longleftrightarrow> to_name t = name \<and> (\<forall>i < length (to_partitions t). part_ok cfg name (int i) (to_partitions t ! i))"
  by (simp add: topic_wf_def part_ok_def Let_def)

lemma open_partitions_conf:
  assumes "open_partitions cfg guard name i n parts w = (r, w')" "touches (topic_files cfg name) w0 w"
    "\<forall>k < length parts. part_ok cfg name (int k) (parts ! k)" "i = int (length parts)"
  shows "touches (topic_files cfg name) w0 w' \<and>
    (\<forall>ls. r = Inr ls \<longrightarrow> length ls = length parts + n \<and> (\<forall>k < length ls. part_ok cfg name (int k) (ls ! k)))"
  using assms
proof (induction n arbitrary: i parts w)
  case (Suc n)
  obtain r1 w1 where op: "OpenLog cfg guard name i w = (r1, w1)" by fastforce
  note c = OpenLog_conf [OF op]
  have t1: "touches (topic_files cfg name) w0 w1"
    using touches_trans [OF Suc.prems(2) touches_mono [of _ w w1]] c by (auto simp: topic_files_def)
  show ?case
  proof (cases r1)
    case (Inl e)
    then show ?thesis using Suc.prems(1) op snd_close_logs_conf [OF t1] by auto
  next
    case (Inr l)
    have "\<forall>k < length (parts @ [l]). part_ok cfg name (int k) ((parts @ [l]) ! k)"
      using Suc.prems(3,4) c Inr by (auto simp: part_ok_def nth_append less_Suc_eq)
    then show ?thesis using Suc.IH [of "i + 1" "parts @ [l]" w1] Suc.prems op Inr t1 by simp
  qed
qed auto

lemma registry_Create_conf:
  assumes "registry_Create name cfg b = (r, b')"
  obtains w where "touches (topic_files (bk_store b) name) (bk_w b) w"
    "b' = b\<lparr>bk_w := w\<rparr> \<and> isl r \<or>
     (\<exists>t. r = Inr t \<and> b' = put_topic t (b\<lparr>bk_w := w\<rparr>) \<and> topic_wf (bk_store b) name t \<and> registry_Get b name = None \<and>
        tc_OwnerTenantID (to_cfg t) = tc_OwnerTenantID cfg)"
proof -
  define cfg' where "cfg' = (let cfg = (if tc_NumPartitions cfg \<le> 0 then cfg\<lparr>tc_NumPartitions := 1\<rparr> else cfg)
    in if tc_ReplicationFactor cfg \<le> 0 then cfg\<lparr>tc_ReplicationFactor := 1\<rparr> else cfg)"
  have own: "tc_OwnerTenantID cfg' = tc_OwnerTenantID cfg" by (simp add: cfg'_def Let_def)
  show ?thesis
  proof (cases "name = [] \<or> registry_Get b name \<noteq> None")
    case True
    then have "b' = b\<lparr>bk_w := bk_w b\<rparr>" "isl r" using assms by (auto simp: registry_Create_def Let_def split: if_splits)
    then show ?thesis using that [of "bk_w b"] by auto
  next
    case False
    obtain q w where op: "open_partitions (bk_store b) (bk_guard b) name 0 (nat (tc_NumPartitions cfg')) [] (bk_w b) = (q, w)" by fastforce
    note c = open_partitions_conf [OF op touches_refl]
    have "registry_Create name cfg b = (case q of
        Inl (i, e) \<Rightarrow> (Inl (if e = LogPanic then BkPanic else OpenPartition i e), b\<lparr>bk_w := w\<rparr>)
      | Inr parts \<Rightarrow> let t = \<lparr>to_name = name, to_partitions = parts, to_cfg = cfg'\<rparr> in (Inr t, put_topic t (b\<lparr>bk_w := w\<rparr>)))"
      using False op by (simp add: registry_Create_def cfg'_def Let_def split: sum.splits prod.splits)
    then show ?thesis
      using that [of w] c assms False own by (auto simp: topic_wf_alt Let_def split: sum.splits prod.splits)
  qed
qed

lemma persist_frame:
  assumes "persistTopicsLocked b = (e, b')"
  shows "\<exists>d. b' = b\<lparr>bk_docs := d\<rparr>"
  using assms unfolding persistTopicsLocked_def
  by (intro exI [of _ "bk_docs b'"]) (auto split: option.splits prod.splits)

section \<open>Operations keep the shape\<close>

lemma topic_PartitionD:
  assumes "topic_wf cfg name t" "topic_Partition t part = Some l"
  shows "0 \<le> part" "nat part < length (to_partitions t)" "l = to_partitions t ! nat part" "part_ok cfg name part l"
proof -
  show a: "0 \<le> part" "nat part < length (to_partitions t)" "l = to_partitions t ! nat part"
    using assms(2) by (auto simp: topic_Partition_def split: if_splits)
  have "part_ok cfg name (int (nat part)) (to_partitions t ! nat part)" using assms(1) a(2) unfolding topic_wf_alt by blast
  then show "part_ok cfg name part l" using a by simp
qed

lemma put_log_wf:
  assumes "broker_wf b" "registry_Get b topic = Some t" "topic_Partition t part = Some l" "log_in l'" "log_same l l'"
  shows "broker_wf (put_log topic part l' b)"
proof -
  have t: "topic_wf (bk_store b) topic t" by (rule broker_wfD [OF assms(1,2)])
  note i = topic_PartitionD [OF t assms(3)]
  have l': "part_ok (bk_store b) topic part l'"
    using i(4) assms(4) log_sameD [OF assms(5)] by (simp add: part_ok_def)
  have "part_ok (bk_store b) topic (int k) ((to_partitions t)[nat part := l'] ! k)" if "k < length (to_partitions t)" for k
    using that t l' i(1,2) by (cases "k = nat part") (auto simp: topic_wf_alt)
  then have "topic_wf (bk_store b) topic (t\<lparr>to_partitions := (to_partitions t)[nat part := l']\<rparr>)"
    using t by (simp add: topic_wf_alt)
  then show ?thesis using assms(1,2) t broker_wf_put [of b] by (simp add: put_log_def topic_wf_alt)
qed

lemma broker_wf_env [simp]:
  "broker_wf (b\<lparr>bk_w := w\<rparr>) = broker_wf b" "broker_wf (b\<lparr>bk_docs := d\<rparr>) = broker_wf b" "broker_wf (b\<lparr>bk_metrics := m\<rparr>) = broker_wf b"
  "broker_wf (b\<lparr>bk_archive := a\<rparr>) = broker_wf b" "broker_wf (b\<lparr>bk_objects := s\<rparr>) = broker_wf b"
  by (simp_all add: broker_wf_def)

lemma registry_Get_env [simp]:
  "registry_Get (b\<lparr>bk_w := w\<rparr>) = registry_Get b" "registry_Get (b\<lparr>bk_docs := d\<rparr>) = registry_Get b"
  "registry_Get (b\<lparr>bk_metrics := m\<rparr>) = registry_Get b" "registry_Get (b\<lparr>bk_archive := a\<rparr>) = registry_Get b"
  "registry_Get (b\<lparr>bk_objects := s\<rparr>) = registry_Get b"
  by (simp_all add: registry_Get_def fun_eq_iff)

text \<open>What creating a topic does, shared by the explicit and the implicit way.\<close>

lemma create_and_persist:
  assumes "registry_Create name cfg b = (r, b1)" "broker_wf b"
    "b' = b1 \<or> (\<exists>t e. r = Inr t \<and> persistTopicsLocked b1 = (e, b2) \<and> (b' = b2 \<or> b' = b2\<lparr>bk_metrics := m\<rparr>))"
  shows "broker_wf b' \<and> touches (topic_files (bk_store b) name) (bk_w b) (bk_w b') \<and> bk_store b' = bk_store b \<and>
    bk_archive b' = bk_archive b \<and> (\<forall>n. n \<noteq> name \<or> registry_Get b n \<noteq> None \<longrightarrow> registry_Get b' n = registry_Get b n) \<and>
    (\<forall>t. r = Inr t \<longrightarrow> registry_Get b' name = Some t \<and> tc_OwnerTenantID (to_cfg t) = tc_OwnerTenantID cfg)"
proof -
  obtain w where w: "touches (topic_files (bk_store b) name) (bk_w b) w"
    "b1 = b\<lparr>bk_w := w\<rparr> \<and> isl r \<or>
     (\<exists>t. r = Inr t \<and> b1 = put_topic t (b\<lparr>bk_w := w\<rparr>) \<and> topic_wf (bk_store b) name t \<and> registry_Get b name = None \<and>
        tc_OwnerTenantID (to_cfg t) = tc_OwnerTenantID cfg)"
    by (rule registry_Create_conf [OF assms(1)])
  have "broker_wf b1 \<and> bk_w b1 = w \<and> bk_store b1 = bk_store b \<and> bk_archive b1 = bk_archive b \<and>
      (\<forall>n. n \<noteq> name \<or> registry_Get b n \<noteq> None \<longrightarrow> registry_Get b1 n = registry_Get b n) \<and>
      (\<forall>t. r = Inr t \<longrightarrow> registry_Get b1 name = Some t \<and> tc_OwnerTenantID (to_cfg t) = tc_OwnerTenantID cfg)"
    using w(2) assms(2) by (auto simp: topic_wf_alt Get_put_topic intro!: broker_wf_put)
  moreover have "b' = b1 \<or> (\<exists>d. b' = b1\<lparr>bk_docs := d\<rparr> \<or> b' = b1\<lparr>bk_docs := d, bk_metrics := m\<rparr>)"
    using assms(3) persist_frame by blast
  ultimately show ?thesis using w(1) by auto
qed

lemma EnsureTopic_conf:
  assumes "EnsureTopicForTenant name n tenant b = (r, b')" "broker_wf b"
  shows "broker_wf b' \<and> touches (topic_files (bk_store b) name) (bk_w b) (bk_w b') \<and> bk_store b' = bk_store b \<and>
    bk_archive b' = bk_archive b \<and> (\<forall>m. m \<noteq> name \<or> registry_Get b m \<noteq> None \<longrightarrow> registry_Get b' m = registry_Get b m) \<and>
    (\<forall>t. r = Inr t \<longrightarrow> registry_Get b' name = Some t \<and> (registry_Get b name = None \<longrightarrow> tc_OwnerTenantID (to_cfg t) = tenant))"
proof (cases "registry_Get b name = None \<and> bc_AutoCreateTopics (bk_cfg b)")
  case False
  then show ?thesis using assms by (auto simp: EnsureTopicForTenant_def split: option.splits)
next
  case True
  let ?cfg = "default_topic b (if n \<le> 0 then bc_DefaultPartitions (bk_cfg b) else n) tenant"
  obtain r1 b1 where c: "registry_Create name ?cfg b = (r1, b1)" by fastforce
  obtain e b2 where p: "persistTopicsLocked b1 = (e, b2)" by fastforce
  have b': "b' = b1 \<or> (\<exists>t e. r1 = Inr t \<and> persistTopicsLocked b1 = (e, b2) \<and>
      (b' = b2 \<or> b' = b2\<lparr>bk_metrics := IncTopicCreated (bk_metrics b2)\<rparr>))" and r: "\<forall>t. r = Inr t \<longrightarrow> r1 = Inr t"
    using assms(1) True c p by (auto simp: EnsureTopicForTenant_def Let_def split: sum.splits option.splits)
  show ?thesis using create_and_persist [OF c assms(2) b'] r by (simp add: default_topic_def)
qed

lemma CreateTopic_conf:
  assumes "CreateTopic name n rf b = (r, b')" "broker_wf b"
  shows "broker_wf b' \<and> touches (topic_files (bk_store b) name) (bk_w b) (bk_w b') \<and> bk_store b' = bk_store b \<and>
    bk_archive b' = bk_archive b \<and> (\<forall>m. m \<noteq> name \<or> registry_Get b m \<noteq> None \<longrightarrow> registry_Get b' m = registry_Get b m)"
proof (cases "ValidateName name = None \<and> \<not> n > MaxPartitionsPerTopic")
  case False
  then show ?thesis using assms by (auto simp: CreateTopic_def split: option.splits if_splits)
next
  case True
  let ?cfg = "(default_topic b n [])\<lparr>tc_ReplicationFactor := rf\<rparr>"
  obtain r1 b1 where c: "registry_Create name ?cfg b = (r1, b1)" by fastforce
  obtain e b2 where p: "persistTopicsLocked b1 = (e, b2)" by fastforce
  have b': "b' = b1 \<or> (\<exists>t e. r1 = Inr t \<and> persistTopicsLocked b1 = (e, b2) \<and> (b' = b2 \<or> b' = b2\<lparr>bk_metrics := metrics_New\<rparr>))"
    using assms(1) True c p by (auto simp: CreateTopic_def split: sum.splits option.splits)
  show ?thesis using create_and_persist [OF c assms(2) b'] by blast
qed

lemma registry_Get_log:
  "registry_Get b topic = Some t \<Longrightarrow> to_name t = topic \<Longrightarrow>
   registry_Get (put_log topic part l b) m = (if m = topic then Some (t\<lparr>to_partitions := (to_partitions t)[nat part := l]\<rparr>) else registry_Get b m)"
  by (simp add: put_log_def Get_put_topic)

lemma append_to_partition:
  assumes "broker_wf b" "registry_Get b topic = Some t" "topic_Partition t part = Some l" "Log_Append l batches (bk_w b) = (q, l', w')"
  shows "broker_wf (put_log topic part l' (b\<lparr>bk_w := w'\<rparr>)) \<and> touches (topic_files (bk_store b) topic) (bk_w b) w' \<and>
    (\<forall>m. m \<noteq> topic \<longrightarrow> registry_Get (put_log topic part l' (b\<lparr>bk_w := w'\<rparr>)) m = registry_Get b m)"
proof -
  have t: "topic_wf (bk_store b) topic t" by (rule broker_wfD [OF assms(1,2)])
  have l: "log_in l" "lg_dir l = PartitionDir (cf_DataDir (bk_store b)) topic part"
    using topic_PartitionD(4) [OF t assms(3)] by (simp_all add: part_ok_def)
  note c = Log_Append_conf [OF assms(4) l(1)]
  have "touches (topic_files (bk_store b) topic) (bk_w b) w'"
    using c l(2) dir_in_topic by (metis touches_mono)
  moreover have "broker_wf (put_log topic part l' (b\<lparr>bk_w := w'\<rparr>))"
    using put_log_wf [of "b\<lparr>bk_w := w'\<rparr>" topic t part l l'] assms c by simp
  ultimately show ?thesis
    using registry_Get_log [of "b\<lparr>bk_w := w'\<rparr>" topic t] assms(2) t by (simp add: topic_wf_alt)
qed

lemma Append_conf:
  assumes "AppendBatchesAuthorized topic part batches tenant b = (r, b')" "broker_wf b"
  shows "broker_wf b' \<and> touches (topic_files (bk_store b) topic) (bk_w b) (bk_w b') \<and> bk_store b' = bk_store b \<and>
    bk_archive b' = bk_archive b \<and> (\<forall>m. m \<noteq> topic \<longrightarrow> registry_Get b' m = registry_Get b m)"
proof -
  obtain q b1 where e: "(case registry_Get b topic of Some t \<Rightarrow> (Inr t, b)
      | None \<Rightarrow> EnsureTopicForTenant topic (bc_DefaultPartitions (bk_cfg b)) tenant b) = (q, b1)" by fastforce
  have b1: "broker_wf b1 \<and> touches (topic_files (bk_store b) topic) (bk_w b) (bk_w b1) \<and> bk_store b1 = bk_store b \<and>
      bk_archive b1 = bk_archive b \<and> (\<forall>m. m \<noteq> topic \<longrightarrow> registry_Get b1 m = registry_Get b m) \<and>
      (\<forall>t. q = Inr t \<longrightarrow> registry_Get b1 topic = Some t)"
    using e assms(2) EnsureTopic_conf [of topic _ tenant b] by (auto split: option.splits)
  show ?thesis
  proof (cases "\<exists>t l. q = Inr t \<and> verifyTopicTenant t tenant = None \<and> topic_Partition t part = Some l")
    case False
    then have "b' = b1"
      using assms(1) e unfolding AppendBatchesAuthorized_def by (auto split: sum.splits option.splits)
    then show ?thesis using b1 by simp
  next
    case True
    then obtain t l where q: "q = Inr t" "verifyTopicTenant t tenant = None" "topic_Partition t part = Some l" by blast
    obtain x l' w' where a: "Log_Append l batches (bk_w b1) = (x, l', w')" using prod_cases3 by blast
    note c = append_to_partition [OF _ _ q(3) a, of topic]
    obtain m where b': "b' = (put_log topic part l' (b1\<lparr>bk_w := w'\<rparr>))\<lparr>bk_metrics := m\<rparr>"
    proof
      show "b' = (put_log topic part l' (b1\<lparr>bk_w := w'\<rparr>))\<lparr>bk_metrics := bk_metrics b'\<rparr>"
        using assms(1) e q a unfolding AppendBatchesAuthorized_def by (cases x) (auto simp: Let_def)
    qed
    have t: "touches (topic_files (bk_store b) topic) (bk_w b) w'" using b1 c q(1) touches_trans by metis
    show ?thesis using b1 c q(1) t by (simp add: b')
  qed
qed

section \<open>The archive stays in its own files\<close>

text \<open>
  The files restoring from the archive may change: those below the cache directory and, for every archived segment, its cached copy
  and the temporary file of it.
\<close>

definition archive_files :: "archive \<Rightarrow> string set" where
  "archive_files a = {p. under (ca_dir (ac_cache a)) p} \<union>
     (\<Union>e \<in> set (mf_completed (ac_manifest a)).
        let path = PathTenant (ac_cache a) (ar_TenantID e) (ar_Topic e) (ar_Partition e) (ar_BaseOffset e) in {path, path @ ''.tmp''})"

named_theorems acf \<open>extending a frame by one call\<close>

lemma acf_touches: "touches P w w' \<Longrightarrow> alters P w0 w \<Longrightarrow> alters P w0 w'"
  by (blast intro: alters_trans touches_alters)

lemma acf_ctl [acf]: "os_ctl w = (ok, w') \<Longrightarrow> alters P w0 w \<Longrightarrow> alters P w0 w'"
  by (blast intro: acf_touches touches_os_ctl)

lemma acf_write [acf]: "os_write p pos bs w = (ok, c, w') \<Longrightarrow> p \<in> P \<Longrightarrow> alters P w0 w \<Longrightarrow> alters P w0 w'"
  by (blast intro: acf_touches touches_os_write)

lemma acf_remove [acf]: "os_remove p w = (ok, w') \<Longrightarrow> p \<in> P \<Longrightarrow> alters P w0 w \<Longrightarrow> alters P w0 w'"
  by (blast intro: alters_trans alters_os_remove)

lemma acf_snd_remove [acf]: "p \<in> P \<Longrightarrow> alters P w0 w \<Longrightarrow> alters P w0 (snd (os_remove p w))"
  by (metis acf_remove prod.collapse)

lemma acf_create [acf]: "os_create p w = (ok, w') \<Longrightarrow> p \<in> P \<Longrightarrow> alters P w0 w \<Longrightarrow> alters P w0 w'"
  by (auto simp: os_create_def split: prod.splits bool.splits intro: acf acf_touches)

lemma acf_rename [acf]:
  assumes "os_rename p q w = (ok, w')" "p \<in> P" "q \<in> P" "alters P w0 w"
  shows "alters P w0 w'"
proof -
  obtain k w1 where k: "os_ctl w = (k, w1)" by fastforce
  have w1: "alters P w0 w1" by (rule acf_ctl [OF k assms(4)])
  have "w' = w1 \<or> (\<exists>x. w' = w1\<lparr>w_dir := AList.delete p (AList.update q x (w_dir w1))\<rparr>)"
    using assms(1) k by (auto simp: os_rename_def split: bool.splits option.splits)
  moreover have "alters P w1 (w1\<lparr>w_dir := AList.delete p (AList.update q x (w_dir w1))\<rparr>)" for x
    using assms(2,3) by (auto simp: alters_def delete_conv' update_conv')
  ultimately show ?thesis using w1 alters_trans by blast
qed

lemma acf_lookup [acf]: "os_lookup p w = (r, w') \<Longrightarrow> alters P w0 w \<Longrightarrow> alters P w0 w'"
  by (auto simp: os_lookup_def split: prod.splits bool.splits intro: acf)

lemma acf_chtimes [acf]: "p \<in> P \<Longrightarrow> alters P w0 w \<Longrightarrow> alters P w0 (os_chtimes p w)"
proof -
  assume p: "p \<in> P" and a: "alters P w0 w"
  obtain k w1 where k: "os_ctl w = (k, w1)" by fastforce
  have "alters P w1 (w1\<lparr>w_dir := AList.update p x (w_dir w1)\<rparr>)" for x
    using p by (auto simp: alters_def update_conv')
  then show "alters P w0 (os_chtimes p w)"
    using k acf_ctl [OF k a] alters_trans by (auto simp: os_chtimes_def split: bool.splits option.splits)
qed

lemma evict_loop_alters:
  "cache_evict_loop cutoff mx used fs w = (e, w') \<Longrightarrow> fst ` set fs \<subseteq> P \<Longrightarrow> alters P w0 w \<Longrightarrow> alters P w0 w'"
  by (induction cutoff mx used fs w rule: cache_evict_loop.induct) (auto split: if_splits prod.splits bool.splits dest: acf_remove)

lemma acf_evict [acf]: "evictLockedIfNeeded c w = (e, w') \<Longrightarrow> {p. under (ca_dir c) p} \<subseteq> P \<Longrightarrow> alters P w0 w \<Longrightarrow> alters P w0 w'"
proof -
  assume e: "evictLockedIfNeeded c w = (e, w')" and P: "{p. under (ca_dir c) p} \<subseteq> P" and a: "alters P w0 w"
  obtain k w1 where k: "os_ctl w = (k, w1)" by fastforce
  have "fst ` set (sort_key (mtime \<circ> snd) (cache_files c w1)) \<subseteq> P" using P by (auto simp: cache_files_def)
  then show "alters P w0 w'"
    using e k acf_ctl [OF k a] evict_loop_alters by (auto simp: evictLockedIfNeeded_def Let_def split: bool.splits if_splits)
qed

lemma Put_alters:
  assumes "PutTenantStream c tenant topic part base body broken sha w = (r, w')" "alters P w0 w"
    "PathTenant c tenant topic part base \<in> P" "PathTenant c tenant topic part base @ ''.tmp'' \<in> P" "{p. under (ca_dir c) p} \<subseteq> P"
  shows "alters P w0 w'"
proof -
  define path where "path = PathTenant c tenant topic part base"
  have P: "path \<in> P" "path @ ''.tmp'' \<in> P" using assms(3,4) by (simp_all add: path_def)
  obtain k1 w1 where 1: "os_ctl w = (k1, w1)" by fastforce
  have a1: "alters P w0 w1" by (rule acf_ctl [OF 1 assms(2)])
  obtain k2 w2 where 2: "os_create (path @ ''.tmp'') w1 = (k2, w2)" by fastforce
  have a2: "alters P w0 w2" by (rule acf_create [OF 2 P(2) a1])
  obtain k3 n w3 where 3: "os_write (path @ ''.tmp'') 0 body w2 = (k3, n, w3)" using prod_cases3 by blast
  have a3: "alters P w0 w3" by (rule acf_write [OF 3 P(2) a2])
  obtain k4 w4 where 4: "os_ctl w3 = (k4, w4)" by fastforce
  have a4: "alters P w0 w4" "alters P w0 (snd (os_remove (path @ ''.tmp'') w4))"
    using acf_ctl [OF 4 a3] acf_snd_remove [OF P(2)] by auto
  obtain k5 w5 where 5: "os_rename (path @ ''.tmp'') path w4 = (k5, w5)" by fastforce
  have a5: "alters P w0 w5" "alters P w0 (snd (os_remove (path @ ''.tmp'') w5))"
    using acf_rename [OF 5 P(2,1) a4(1)] acf_snd_remove [OF P(2)] by auto
  obtain e6 w6 where 6: "evictLockedIfNeeded c w5 = (e6, w6)" by fastforce
  have a6: "alters P w0 w6" by (rule acf_evict [OF 6 assms(5) a5(1)])
  have "w' \<in> {w1, w2, snd (os_remove (path @ ''.tmp'') w4), snd (os_remove (path @ ''.tmp'') w5), w6}"
    using assms(1) 1 2 3 4 5 6 unfolding PutTenantStream_def Let_def path_def
    by (simp split: bool.splits if_splits option.splits)
  then show ?thesis using a1 a2 a4 a5 a6 by auto
qed

lemma download_alters:
  assumes "downloadOnce ops c e broken s w = (r, s', w')" "alters P w0 w"
    "PathTenant c (ar_TenantID e) (ar_Topic e) (ar_Partition e) (ar_BaseOffset e) \<in> P"
    "PathTenant c (ar_TenantID e) (ar_Topic e) (ar_Partition e) (ar_BaseOffset e) @ ''.tmp'' \<in> P" "{p. under (ca_dir c) p} \<subseteq> P"
  shows "alters P w0 w'"
  using assms(1) Put_alters [OF _ assms(2-5)] assms(2)
  by (auto simp: downloadOnce_def split: prod.splits sum.splits cache_err.splits)

lemma tries_alters:
  assumes "try_downloads ops c e as fst0 lastErr s w = (r, s', w')" "alters P w0 w"
    "PathTenant c (ar_TenantID e) (ar_Topic e) (ar_Partition e) (ar_BaseOffset e) \<in> P"
    "PathTenant c (ar_TenantID e) (ar_Topic e) (ar_Partition e) (ar_BaseOffset e) @ ''.tmp'' \<in> P" "{p. under (ca_dir c) p} \<subseteq> P"
  shows "alters P w0 w'"
  using assms(1,2)
proof (induction as arbitrary: fst0 lastErr s w)
  case (Cons a as)
  obtain e1 s1 w1 where d: "downloadOnce ops c e (at_broken a) s w = (e1, s1, w1)" using prod_cases3 by blast
  have "alters P w0 w1" by (rule download_alters [OF d Cons.prems(2) assms(3-5)])
  then show ?case using Cons d by (auto split: if_splits option.splits)
qed auto

lemma scan_alters: "scan_archive data target header pos w = (r, w') \<Longrightarrow> alters P w0 w \<Longrightarrow> alters P w0 w'"
proof (induction data target header pos w arbitrary: r rule: scan_archive.induct)
  case (1 data target header pos w)
  show ?case
    using 1(2,3) by (subst (asm) scan_archive.simps) (auto simp: Let_def split: if_splits prod.splits bool.splits option.splits intro: acf dest: 1(1))
qed

lemma read_archived_alters: "read_archived data start mb w = (r, w') \<Longrightarrow> alters P w0 w \<Longrightarrow> alters P w0 w'"
  unfolding read_archived_def Let_def
  by (auto split: if_splits prod.splits bool.splits option.splits; blast intro: acf)

lemma archive_filesI:
  assumes "e \<in> set (mf_completed (ac_manifest a))"
  shows "PathTenant (ac_cache a) (ar_TenantID e) (ar_Topic e) (ar_Partition e) (ar_BaseOffset e) \<in> archive_files a"
    "PathTenant (ac_cache a) (ar_TenantID e) (ar_Topic e) (ar_Partition e) (ar_BaseOffset e) @ ''.tmp'' \<in> archive_files a"
    "{p. under (ca_dir (ac_cache a)) p} \<subseteq> archive_files a"
  using assms by (auto simp: archive_files_def Let_def)

lemma Restore_alters:
  assumes "Restore ops (ac_cache a) key (ac_manifest a) topic part base env s w = (r, s', w')" "alters (archive_files a) w0 w"
  shows "alters (archive_files a) w0 w'"
proof -
  obtain h w1 where h: "HasTenant (ac_cache a) [] topic part base w = (h, w1)" by fastforce
  have a1: "alters (archive_files a) w0 w1"
    using h acf_lookup [OF _ assms(2)] by (auto simp: HasTenant_def split: prod.splits)
  have "alters (archive_files a) w0 w'" if "manifest_Lookup topic part base (ac_manifest a) = Some e"
    "try_downloads ops (ac_cache a) e as fst0 None s w1 = (r, s', w')" for e as fst0
  proof -
    have "e \<in> set (mf_completed (ac_manifest a))"
      using that(1) by (auto simp: manifest_Lookup_def find_Some_iff)
    then show ?thesis by (intro tries_alters [OF that(2) a1] archive_filesI)
  qed
  then show ?thesis
    using assms(1) h a1 by (auto simp: Restore_def doRestore_def simp del: try_downloads.simps split: bool.splits option.splits if_splits prod.splits)
qed

lemma fetchFromArchive_alters:
  assumes "fetchFromArchive ops (Some a) topic part off mb tenant env s w = (r, s', w')"
  shows "alters (archive_files a) w w'"
proof (cases "find_archived (ac_manifest a) topic part off")
  case None
  then show ?thesis using assms by (simp add: fetchFromArchive_def)
next
  case (Some e)
  then have e: "e \<in> set (mf_completed (ac_manifest a))" "ar_Topic e = topic" "ar_Partition e = part"
    by (auto simp: find_archived_def AllForTopic_def find_Some_iff dest: nth_mem)
  let ?P = "archive_files a" and ?path = "PathTenant (ac_cache a) (ar_TenantID e) topic part (ar_BaseOffset e)"
  obtain r1 s1 w1 where 1: "Restore ops (ac_cache a) (ac_hmacKey a) (ac_manifest a) topic part (ar_BaseOffset e) env s w = (r1, s1, w1)"
    using prod_cases3 by blast
  have a1: "alters ?P w w1" by (rule Restore_alters [OF 1 alters_refl])
  obtain r2 w2 where 2: "OpenTenant (ac_cache a) (ar_TenantID e) topic part (ar_BaseOffset e) w1 = (r2, w2)" by fastforce
  obtain q2 v2 where lk: "os_lookup ?path (os_chtimes ?path w1) = (q2, v2)" by fastforce
  have "w2 = v2" using 2 lk by (auto simp: OpenTenant_def Let_def split: option.splits)
  then have a2: "alters ?P w w2"
    using acf_lookup [OF lk] acf_chtimes [OF _ a1, of ?path] archive_filesI(1) [OF e(1)] e by simp
  obtain k3 w3 where 3: "os_ctl w2 = (k3, w3)" by fastforce
  have a3: "alters ?P w w3" by (rule acf_ctl [OF 3 a2])
  have a4: "alters ?P w v" if "scan_archive data off (replicate 61 0) 0 w3 = (q, v)" for data q v
    by (rule scan_alters [OF that a3])
  have a5: "alters ?P w v" if "scan_archive data off (replicate 61 0) 0 w3 = (q, u)" "read_archived data x mb u = (z, v)" for data q u x z v
    by (rule read_archived_alters [OF that(2) a4 [OF that(1)]])
  show ?thesis
    using assms Some 1 2 3 a1 a2 a3 a4 a5
    by (auto simp: fetchFromArchive_def split: if_splits option.splits restore_err.splits bool.splits prod.splits sum.splits)
qed

lemma Fetch_conf:
  assumes "FetchAuthorized ops env topic part off mb tenant b = (r, b')"
  shows "bk_topics b' = bk_topics b \<and> bk_store b' = bk_store b \<and> bk_archive b' = bk_archive b \<and>
    alters (case bk_archive b of None \<Rightarrow> {} | Some a \<Rightarrow> archive_files a) (bk_w b) (bk_w b')"
proof -
  let ?P = "case bk_archive b of None \<Rightarrow> {} | Some a \<Rightarrow> archive_files a"
  have F: "alters ?P (bk_w b) w" if "FetchAt l off mb (bk_w b) = (q, w)" for l q w
    by (rule touches_alters [OF FetchAt_conf [OF that]])
  have A: "alters ?P (bk_w b) w'" if "FetchAt l off mb (bk_w b) = (q, w)"
    "fetchFromArchive ops (bk_archive b) topic part off mb tenant env (bk_objects b) w = (x, s, w')" for l q w x s w'
    using fetchFromArchive_alters [of ops _ topic part off mb tenant env "bk_objects b" w x s w'] that F [OF that(1)] alters_trans
    by (cases "bk_archive b") (auto simp: fetchFromArchive_def)
  show ?thesis
    using assms F A unfolding FetchAuthorized_def fetchInternal_def
    by (auto simp: Let_def split: option.splits prod.splits sum.splits if_splits arch_err.splits)
qed

lemma Delete_wf:
  assumes "broker_wf b"
  shows "broker_wf (snd (DeleteTopic name b)) \<and> bk_store (snd (DeleteTopic name b)) = bk_store b"
proof -
  have d: "broker_wf b' \<and> bk_store b' = bk_store b" if "registry_Delete name b = (e, b')" for e b'
  proof -
    have "topic_wf (bk_store b) name (t\<lparr>to_partitions := []\<rparr>)" if "registry_Get b name = Some t" for t
      using broker_wfD [OF assms that] by (simp add: topic_wf_alt)
    moreover have "to_name t = name" if "registry_Get b name = Some t" for t
      using broker_wfD [OF assms that] by (simp add: topic_wf_alt)
    ultimately show ?thesis
      using that assms broker_wf_put [of "b\<lparr>bk_w := w\<rparr>" "t\<lparr>to_partitions := []\<rparr>" for w t] broker_wf_delete [OF assms, of name]
      by (auto simp: registry_Delete_def topic_Close_def broker_wf_def [of "_\<lparr>bk_topics := _\<rparr>"] split: option.splits prod.splits)
  qed
  have p: "broker_wf b' \<and> bk_store b' = bk_store b" if "registry_Delete name b = (e, b1)" "persistTopicsLocked b1 = (e', b')" for e e' b1 b'
    using d [OF that(1)] persist_frame [OF that(2)] by auto
  have f: "broker_wf b'' = broker_wf b' \<and> bk_store b'' = bk_store b'" if "forget_archive name b' = (es, b'')" for b' b'' :: "'a Broker" and es
    using that by (auto simp: forget_archive_def Let_def split: option.splits prod.splits if_splits)
  show ?thesis
    using assms unfolding DeleteTopic_def
    by (auto split: option.splits prod.splits dest: d) (use p f in \<open>metis+\<close>)
qed

section \<open>Properties\<close>

text \<open>
  C9: whatever operations run and whatever system calls fail, the registry keeps its shape: topics are registered once and under
  their own names, and the log at position \<open>i\<close> of a topic is the log of partition \<open>i\<close> and works on the files of that
  partition's directory.
\<close>

theorem registry_shape:
  assumes "broker_wf b"
  shows "broker_wf (run_ops ops xs b) \<and> bk_store (run_ops ops xs b) = bk_store b"
proof -
  have "broker_wf (apply_op ops x b) \<and> bk_store (apply_op ops x b) = bk_store b" if "broker_wf b" for x and b :: "'a Broker"
  proof (cases x)
    case (OpFetch env topic part off mb tenant)
    then show ?thesis
      using that Fetch_conf [of ops env topic part off mb tenant b] broker_wf_cong [of _ b]
      by (cases "FetchAuthorized ops env topic part off mb tenant b") auto
  next
    case (OpCreate name n rf)
    then show ?thesis using that CreateTopic_conf [of name n rf b] by (cases "CreateTopic name n rf b") auto
  next
    case (OpEnsure name n)
    then show ?thesis
      using that EnsureTopic_conf [of name n "[]" b] by (cases "EnsureTopicForTenant name n [] b") (auto simp: EnsureTopic_def)
  next
    case (OpAppend topic part batches tenant)
    then show ?thesis
      using that Append_conf [of topic part batches tenant b] by (cases "AppendBatchesAuthorized topic part batches tenant b") auto
  next
    case (OpDelete name)
    then show ?thesis using Delete_wf [OF that] by simp
  qed
  then show ?thesis using assms unfolding run_ops_def
    by (induction xs arbitrary: b) auto
qed

text \<open>A broker with one topic, owned by the tenant acme, whose single partition is the sample log.\<close>

definition sample_topic :: Topic where
  "sample_topic = \<lparr>to_name = ''t'', to_partitions = [sample_log],
     to_cfg = \<lparr>tc_NumPartitions = 1, tc_ReplicationFactor = 1, tc_RetentionMS = - 1, tc_RetentionBytes = - 1,
       tc_SegmentBytes = 1000000, tc_OwnerTenantID = ''acme''\<rparr>\<rparr>"

definition sample_broker :: "FS Broker" where
  "sample_broker = \<lparr>bk_cfg = \<lparr>bc_BrokerID = 1, bc_ClusterID = ''c'', bc_AdvertisedHost = ''h'', bc_AdvertisedPort = 9092,
       bc_DataDir = ''data'', bc_MaxRequestBytes = 1000000, bc_AutoCreateTopics = True, bc_DefaultPartitions = 1, bc_DefaultRepFactor = 1\<rparr>,
     bk_store = sample_cfg, bk_guard = True, bk_metadata = Some ''data/metadata'', bk_topics = [(''t'', sample_topic)], bk_groups = None,
     bk_metrics = metrics_New, bk_loaded = True, bk_draining = False, bk_archive = None, bk_acl = None, bk_w = sample_w,
     bk_docs = \<lparr>dc_plan = [], dc_files = []\<rparr>, bk_objects = sample_fs\<rparr>"

lemma sample_dir_eq: "PartitionDir ''data'' ''t'' 0 = sample_dir"
  by code_simp

lemma sample_broker_sel [simp]:
  "registry_Get sample_broker ''t'' = Some sample_topic" "bk_store sample_broker = sample_cfg" "bk_w sample_broker = sample_w"
  "bk_archive sample_broker = None" "topic_Partition sample_topic 0 = Some sample_log" "tc_OwnerTenantID (to_cfg sample_topic) = ''acme''"
  "to_partitions sample_topic = [sample_log]"
  by (simp_all add: sample_broker_def registry_Get_def sample_topic_def topic_Partition_def)

lemma sample_broker_wf: "broker_wf sample_broker"
proof -
  have "log_in sample_log"
    by (auto simp: log_in_def sample_log_def seg_in_def sample_seg_def)
  then have "topic_wf sample_cfg ''t'' sample_topic"
    by (simp add: topic_wf_alt part_ok_def sample_topic_def sample_dir_eq) (simp add: sample_log_def sample_cfg_def sample_dir_eq)
  then show ?thesis by (simp add: broker_wf_def sample_broker_def)
qed

theorem registry_shape_witness:
  "broker_wf (run_ops fs_ops [OpAppend ''t'' 0 [sample_batch] ''acme'', OpDelete ''t'', OpCreate ''t'' 2 1] sample_broker)"
  using registry_shape [OF sample_broker_wf] by blast

section \<open>Tenants\<close>

text \<open>
  What others may do without the owner of a topic noticing: create topics, append as another tenant, fetch. Topic names come from
  the network; those that are not valid names, which could lead out of the topic's directory, are left out here.
\<close>

fun foreign :: "string \<Rightarrow> broker_op \<Rightarrow> bool" where
  "foreign owner (OpCreate name n rf) \<longleftrightarrow> True"
| "foreign owner (OpEnsure name n) \<longleftrightarrow> ValidateName name = None"
| "foreign owner (OpDelete name) \<longleftrightarrow> False"
| "foreign owner (OpAppend topic part batches tenant) \<longleftrightarrow> ValidateName topic = None \<and> tenant \<noteq> [] \<and> tenant \<noteq> owner"
| "foreign owner (OpFetch env topic part off n tenant) \<longleftrightarrow> True"

lemma no_slash_dec_int: "CHR ''/'' \<notin> set (dec_int x)"
  using is_digit_dec [of "CHR ''/''"] by (auto simp: dec_int_def is_digit_def)

lemma last_slash_unique:
  assumes "a @ CHR ''/'' # n = a' @ CHR ''/'' # n'" "CHR ''/'' \<notin> set n" "CHR ''/'' \<notin> set n'"
  shows "a = a' \<and> n = n'"
proof -
  have tw: "takeWhile (\<lambda>c. c \<noteq> CHR ''/'') (rev n @ CHR ''/'' # rev a) = rev n" if "CHR ''/'' \<notin> set n" for a n
    using that by (subst takeWhile_append2) auto
  have "rev n @ CHR ''/'' # rev a = rev n' @ CHR ''/'' # rev a'"
    using arg_cong [OF assms(1), of rev] by simp
  then have "n = n'" using tw [OF assms(2), of a] tw [OF assms(3), of a'] by simp
  then show ?thesis using assms(1) by simp
qed

lemma PartitionDir_inject: "PartitionDir d t i = PartitionDir d t' j \<longleftrightarrow> t = t' \<and> i = j"
  using last_slash_unique [of "d @ ''/topics/'' @ t" "dec_int i" "d @ ''/topics/'' @ t'" "dec_int j"] no_slash_dec_int
  by (auto simp: PartitionDir_def path_join_def)

lemma topic_files_disjoint: "t \<noteq> t' \<Longrightarrow> topic_files cfg t \<inter> topic_files cfg t' = {}"
  using dir_files_disjoint [of "PartitionDir (cf_DataDir cfg) t i" "PartitionDir (cf_DataDir cfg) t' j" for i j]
  by (fastforce simp: topic_files_def PartitionDir_inject)

definition kept :: "string \<Rightarrow> Topic \<Rightarrow> 's Broker \<Rightarrow> 's Broker \<Rightarrow> bool" where
  "kept name t b b' \<longleftrightarrow> broker_wf b' \<and> registry_Get b' name = Some t \<and> bk_store b' = bk_store b \<and> bk_archive b' = bk_archive b \<and>
     (\<forall>p \<in> topic_files (bk_store b) name. map_of (w_dir (bk_w b')) p = map_of (w_dir (bk_w b)) p)"

lemma kept_refl: "broker_wf b \<Longrightarrow> registry_Get b name = Some t \<Longrightarrow> kept name t b b"
  by (simp add: kept_def)

lemma kept_other:
  assumes "broker_wf b'" "touches (topic_files (bk_store b) n) (bk_w b) (bk_w b')" "bk_store b' = bk_store b" "bk_archive b' = bk_archive b"
    "registry_Get b' name = registry_Get b name" "registry_Get b name = Some t" "n \<noteq> name"
  shows "kept name t b b'"
proof -
  have "map_of (w_dir (bk_w b')) p = map_of (w_dir (bk_w b)) p" if "p \<in> topic_files (bk_store b) name" for p
    by (rule touches_map_of [OF assms(2)]) (use that topic_files_disjoint [OF assms(7)] in blast)
  then show ?thesis using assms(1,3-6) by (simp add: kept_def)
qed

lemma verify_foreign: "tenant \<noteq> [] \<Longrightarrow> tenant \<noteq> tc_OwnerTenantID (to_cfg t) \<Longrightarrow> verifyTopicTenant t tenant = Some ErrUnauthorizedTopic"
  by (simp add: verifyTopicTenant_def Let_def)

lemma foreign_step:
  assumes "broker_wf b" "registry_Get b name = Some t" "foreign (tc_OwnerTenantID (to_cfg t)) x"
    "\<forall>a. bk_archive b = Some a \<longrightarrow> archive_files a \<inter> topic_files (bk_store b) name = {}"
  shows "kept name t b (apply_op ops x b)"
proof (cases x)
  case (OpCreate n k rf)
  obtain r b' where c: "CreateTopic n k rf b = (r, b')" by fastforce
  have "kept name t b b'"
  proof (cases "n = name")
    case True
    then have "b' = b" using c assms(2) by (auto simp: CreateTopic_def registry_Create_def Let_def split: option.splits if_splits)
    then show ?thesis using kept_refl [OF assms(1,2)] by simp
  next
    case False
    with CreateTopic_conf [OF c assms(1)] show ?thesis by (intro kept_other [of b' b n, OF _ _ _ _ _ assms(2)]) auto
  qed
  then show ?thesis using OpCreate c by simp
next
  case (OpEnsure n k)
  obtain r b' where c: "EnsureTopicForTenant n k [] b = (r, b')" by fastforce
  have "kept name t b b'"
  proof (cases "n = name")
    case True
    then have "b' = b" using c assms(2) by (auto simp: EnsureTopicForTenant_def)
    then show ?thesis using kept_refl [OF assms(1,2)] by simp
  next
    case False
    with EnsureTopic_conf [OF c assms(1)] show ?thesis by (intro kept_other [of b' b n, OF _ _ _ _ _ assms(2)]) auto
  qed
  then show ?thesis using OpEnsure c by (simp add: EnsureTopic_def)
next
  case (OpAppend n part batches tenant)
  obtain r b' where c: "AppendBatchesAuthorized n part batches tenant b = (r, b')" by fastforce
  have "kept name t b b'"
  proof (cases "n = name")
    case True
    then have "b' = b" using c assms(2,3) OpAppend verify_foreign by (auto simp: AppendBatchesAuthorized_def)
    then show ?thesis using kept_refl [OF assms(1,2)] by simp
  next
    case False
    with Append_conf [OF c assms(1)] show ?thesis by (intro kept_other [of b' b n, OF _ _ _ _ _ assms(2)]) auto
  qed
  then show ?thesis using OpAppend c by simp
next
  case (OpFetch env n part off mb tenant)
  obtain r b' where c: "FetchAuthorized ops env n part off mb tenant b = (r, b')" by fastforce
  note f = Fetch_conf [OF c]
  have "map_of (w_dir (bk_w b')) p = map_of (w_dir (bk_w b)) p" if "p \<in> topic_files (bk_store b) name" for p
    using f assms(4) that by (cases "bk_archive b") (auto simp: alters_def)
  moreover have "broker_wf b'" "registry_Get b' name = Some t"
    using f assms(1,2) broker_wf_cong [of b' b] by (auto simp: registry_Get_def)
  ultimately have "kept name t b b'" using f by (simp add: kept_def)
  then show ?thesis using OpFetch c by simp
next
  case (OpDelete n)
  then show ?thesis using assms(3) by simp
qed



end
