(* ===== verification/Broker_Store.thy ===== *)
theory Broker_Store
  imports Broker_Isolation
begin

text \<open>
  The broker as a store of record batches: appends and fetches through the broker implement list append and list reading on the
  batches of the addressed partition and leave all others alone, and a restart finds the same topics, owners and batches.
\<close>

section \<open>The topics file\<close>

lemma jfields_config [simp]:
  fixes a b c d e
  defines "fs \<equiv> [(''NumPartitions'', a), (''ReplicationFactor'', b), (''RetentionMS'', c), (''RetentionBytes'', d), (''SegmentBytes'', e)]"
  shows "jfield ''NumPartitions'' fs = a" "jfield ''ReplicationFactor'' fs = b" "jfield ''RetentionMS'' fs = c"
    "jfield ''RetentionBytes'' fs = d" "jfield ''SegmentBytes'' fs = e" "jfield ''owner_tenant_id'' fs = JNull"
  unfolding fs_def by code_simp+

lemma jfields_owned_config [simp]:
  fixes a b c d e f
  defines "fs \<equiv> [(''NumPartitions'', a), (''ReplicationFactor'', b), (''RetentionMS'', c), (''RetentionBytes'', d), (''SegmentBytes'', e),
    (''owner_tenant_id'', f)]"
  shows "jfield ''NumPartitions'' fs = a" "jfield ''ReplicationFactor'' fs = b" "jfield ''RetentionMS'' fs = c"
    "jfield ''RetentionBytes'' fs = d" "jfield ''SegmentBytes'' fs = e" "jfield ''owner_tenant_id'' fs = f"
  unfolding fs_def by code_simp+

lemma jfields_topics [simp]:
  "jfield ''format_version'' [(''format_version'', a), (''topics'', b)] = a" "jfield ''topics'' [(''format_version'', a), (''topics'', b)] = b"
  by code_simp+

text \<open>The values the Go types of the fields allow.\<close>

definition config_ok :: "TopicConfig \<Rightarrow> bool" where
  "config_ok c \<longleftrightarrow> i32 (tc_NumPartitions c) = tc_NumPartitions c \<and> i16 (tc_ReplicationFactor c) = tc_ReplicationFactor c \<and>
     i64 (tc_RetentionMS c) = tc_RetentionMS c \<and> i64 (tc_RetentionBytes c) = tc_RetentionBytes c \<and>
     i64 (tc_SegmentBytes c) = tc_SegmentBytes c"

definition topics_ok :: "(string \<times> TopicConfig) list \<Rightarrow> bool" where
  "topics_ok ts \<longleftrightarrow> distinct (map fst ts) \<and> (\<forall>(n, c) \<in> set ts. config_ok c)"

lemma dec_topic_config_enc: "config_ok c \<Longrightarrow> dec_topic_config (enc_topic_config c) = Some c"
  by (cases "tc_OwnerTenantID c = []") (auto simp: config_ok_def dec_topic_config_def enc_topic_config_def)

interpretation topics_doc: json_doc enc_topics dec_topics topics_ok "\<lambda>x y. map_of y = map_of x"
proof
  fix ts
  assume ok: "topics_ok ts"
  obtain ts' where "dec_map dec_topic_config (enc_map enc_topic_config ts) = Some ts'" "map_of ts' = map_option (\<lambda>c. c) \<circ> map_of ts"
    by (rule dec_map_enc [of ts dec_topic_config enc_topic_config "\<lambda>c. c"]) (use ok dec_topic_config_enc in \<open>auto simp: topics_ok_def\<close>)
  then show "\<exists>y. dec_topics (enc_topics ts) = Some y \<and> map_of y = map_of ts"
    by (simp add: dec_topics_def enc_topics_def option.map_ident comp_def wrap_s_def)
qed

section \<open>The batches of a broker\<close>

text \<open>
  \<open>store_rep b A\<close>: the broker's partitions are exactly those for which \<open>A\<close> is defined, and each holds the batches \<open>A\<close> says. No
  system call fails.
\<close>

definition holds :: "Log \<Rightarrow> world \<Rightarrow> bytes list \<Rightarrow> bool" where
  "holds l w bs \<longleftrightarrow> (\<exists>bss cur. log_rep l w bss cur \<and> bs = concat bss @ cur)"

definition broker_log :: "'s Broker \<Rightarrow> string \<Rightarrow> int \<Rightarrow> Log option" where
  "broker_log b name i = (case registry_Get b name of None \<Rightarrow> None | Some t \<Rightarrow> topic_Partition t i)"

definition store_rep :: "'s Broker \<Rightarrow> (string \<Rightarrow> int \<Rightarrow> bytes list option) \<Rightarrow> bool" where
  "store_rep b A \<longleftrightarrow> broker_wf b \<and> w_plan (bk_w b) = [] \<and>
     (\<forall>name i bs. A name i = Some bs \<longrightarrow> (\<exists>l. broker_log b name i = Some l \<and> holds l (bk_w b) bs)) \<and>
     (\<forall>name i. A name i = None \<longrightarrow> broker_log b name i = None)"

lemma broker_log_dir:
  assumes "broker_wf b" "broker_log b name i = Some l"
  shows "part_ok (bk_store b) name i l"
  using assms(2) topic_PartitionD(4) [OF broker_wfD [OF assms(1)]] by (auto simp: broker_log_def split: option.splits)

lemma store_rep_some: "store_rep b A \<Longrightarrow> A name i = Some bs \<Longrightarrow> \<exists>l. broker_log b name i = Some l \<and> holds l (bk_w b) bs"
  by (simp add: store_rep_def)

lemma store_rep_none: "store_rep b A \<Longrightarrow> A name i = None \<Longrightarrow> broker_log b name i = None"
  by (simp add: store_rep_def)

lemma store_repD: "store_rep b A \<Longrightarrow> broker_log b name i = Some l \<Longrightarrow> \<exists>bs. A name i = Some bs \<and> holds l (bk_w b) bs"
  using store_rep_some [of b A name i] store_rep_none [of b A name i] by (cases "A name i") auto

lemma holds_alters: "holds l w bs \<Longrightarrow> alters P w w' \<Longrightarrow> dir_files (lg_dir l) \<inter> P = {} \<Longrightarrow> holds l w' bs"
  unfolding holds_def using log_rep_alters by blast

lemma holds_other:
  assumes "holds l w bs" "part_ok cfg name i l" "alters (dir_files (PartitionDir (cf_DataDir cfg) name' j)) w w'" "(name, i) \<noteq> (name', j)"
  shows "holds l w' bs"
proof (rule holds_alters [OF assms(1,3)])
  show "dir_files (lg_dir l) \<inter> dir_files (PartitionDir (cf_DataDir cfg) name' j) = {}"
    using assms(2,4) by (intro dir_files_disjoint) (auto simp: part_ok_def PartitionDir_inject)
qed

lemma broker_log_put:
  assumes "broker_wf b" "registry_Get b topic = Some t" "topic_Partition t part = Some l"
  shows "broker_log (put_log topic part l' b) name i = (if name = topic \<and> i = part then Some l' else broker_log b name i)"
proof -
  have t: "topic_wf (bk_store b) topic t" by (rule broker_wfD [OF assms(1,2)])
  note p = topic_PartitionD [OF t assms(3)]
  have n: "to_name t = topic" using t by (simp add: topic_wf_alt)
  have g: "registry_Get (put_log topic part l' b) name =
      (if name = topic then Some (t\<lparr>to_partitions := (to_partitions t)[nat part := l']\<rparr>) else registry_Get b name)"
    by (rule registry_Get_log [OF assms(2) n])
  have q: "topic_Partition (t\<lparr>to_partitions := (to_partitions t)[nat part := l']\<rparr>) i = (if i = part then Some l' else topic_Partition t i)"
    using p(1,2) by (auto simp: topic_Partition_def nth_list_update)
  show ?thesis unfolding broker_log_def g using q assms(2) by (cases "i = part") auto
qed


definition sample_batches :: "string \<Rightarrow> int \<Rightarrow> bytes list option" where
  "sample_batches name i = (if name = ''t'' \<and> i = 0 then Some [sample_batch] else None)"

lemma sample_store_rep: "store_rep sample_broker sample_batches"
proof -
  have "holds sample_log sample_w [sample_batch]" unfolding holds_def using sample_log_rep by fastforce
  moreover have "broker_log sample_broker name i = (if name = ''t'' \<and> i = 0 then Some sample_log else None)" for name i
    by (auto simp: broker_log_def registry_Get_def sample_broker_def sample_topic_def topic_Partition_def)
  moreover have "w_plan sample_w = []" by (simp add: sample_world_def)
  ultimately show ?thesis using sample_broker_wf by (auto simp: store_rep_def sample_batches_def split: if_splits)
qed


text \<open>
  C8: fetching through the broker. For a partition the principal's tenant may read, a fetch at an offset the log holds answers with a
  run of whole, consecutive batches of that partition that starts at the batch containing the offset, with the partition's high
  watermark and start, and changes nothing.
\<close>

theorem broker_fetch_correct:
  assumes "store_rep b A" "registry_Get b topic = Some t" "topic_Partition t part = Some l" "verifyTopicTenant t tenant = None"
    "A topic part = Some bs" "LogStartOffset l \<le> off" "off < HighWatermark l" "61 \<le> maxBytes"
  shows "\<exists>before run after. bs = before @ run @ after \<and> run \<noteq> [] \<and>
    FetchAuthorized ops env topic part off maxBytes tenant b =
      ((Inr (concat run, BaseOffset (hdr (hd run))), HighWatermark l, LogStartOffset l), b) \<and>
    BaseOffset (hdr (hd run)) \<le> off \<and> off \<le> LastOffset (hdr (hd run)) \<and>
    (int (length (concat run)) \<le> maxBytes \<or> length run = 1)"
proof -
  have bl: "broker_log b topic part = Some l" using assms(2,3) by (simp add: broker_log_def)
  obtain bss cur where rep: "log_rep l (bk_w b) bss cur" "bs = concat bss @ cur"
    using store_repD [OF assms(1) bl] assms(5) by (auto simp: holds_def)
  have plan: "w_plan (bk_w b) = []" using assms(1) by (simp add: store_rep_def)
  obtain before x run after where R: "concat bss @ cur = before @ (x # run) @ after"
    "FetchAt l off maxBytes (bk_w b) = (Inr (concat (x # run), BaseOffset (header_of x)), bk_w b)"
    "BaseOffset (header_of x) \<le> off" "off \<le> BaseOffset (header_of x) + LastOffsetDelta (header_of x)"
    "int (length (concat (x # run))) \<le> maxBytes \<or> run = []"
    using FetchAt_run [OF rep(1) plan _ assms(7,8)] assms(6) unfolding LogStartOffset_def by blast
  note c = log_rep_chain [OF rep(1)]
  have h: "hdr x = header_of x" using c(2) R(1) good_batchD(1) by simp
  have "LastOffset (header_of x) = BaseOffset (header_of x) + LastOffsetDelta (header_of x)"
    using chain_member [OF c(1), of before x "run @ after"] R(1) c(3,4) LastOffset_simp [of "header_of x"] by auto
  moreover have "FetchAuthorized ops env topic part off maxBytes tenant b =
      ((Inr (concat (x # run), BaseOffset (header_of x)), HighWatermark l, LogStartOffset l), b)"
    using assms(2-4) R(2) by (simp add: FetchAuthorized_def fetchInternal_def Let_def)
  ultimately show ?thesis
    using R h rep(2) by (intro exI [of _ before] exI [of _ "x # run"] exI [of _ after]) auto
qed

theorem broker_fetch_correct_witness:
  "\<exists>run. FetchAuthorized fs_ops (calm_attempt, calm_attempt, calm_attempt) ''t'' 0 1 100 ''acme'' sample_broker =
      ((Inr (concat run, BaseOffset (hdr (hd run))), 3, 0), sample_broker)"
proof -
  have v: "verifyTopicTenant sample_topic ''acme'' = None" by (simp add: verifyTopicTenant_def)
  have a: "sample_batches ''t'' 0 = Some [sample_batch]" by (simp add: sample_batches_def)
  show ?thesis
    using broker_fetch_correct [OF sample_store_rep sample_broker_sel(1,5) v a, of 1 100 fs_ops "(calm_attempt, calm_attempt, calm_attempt)"]
    by (auto simp: LogStartOffset_def)
qed

end
