(* ===== verification/Spec2Isabelle.thy ===== *)
theory Spec2Isabelle
  imports Dir_Lock Broker_Store
begin

text \<open>
  A verification of kafka-wire, a single-binary Kafka-compatible broker written in Go.
\<close>


lemma fs_Get_quiet: "w_plan (fs_w f) = [] \<Longrightarrow> fs_content f key = Some d \<Longrightarrow> fs_Get key f = (Inr d, f)"
  by (cases f) (auto simp: fs_content_def fs_Get_def os_lookup_def os_simps split: option.splits)


text \<open>The sample segment of one batch, archived in parts of forty bytes and read back for offset two.\<close>

definition one_src :: segmentSource where
  "one_src = \<lparr>ss_topic = ''t'', ss_partition = 0, ss_seg = sample_seg 61 3 [\<lparr>RelOffset = 0, Position = 0\<rparr>]\<rparr>"

lemma one_src_transfer:
  "case transfer fs_ops (sample_up 40) one_src sha sample_batch [7] False 0 (sample_av sample_batch) of
     (r, st') \<Rightarrow> r = None \<and> w_plan (fs_w (av_store st')) = []"
  by code_simp


end
